(* ===== verification/Prelude.thy ===== *)
theory Prelude
  imports
    Main
    "HOL-Library.Word"
    "HOL-Library.Sublist"
    "HOL-Library.Monad_Syntax"
begin

text \<open>
  Shared vocabulary of the development: the parts of the Go run time that the
  program relies on, and the generic lemmas about them.

  \<^item> \<open>byte\<close> is Go's \<^verbatim>\<open>byte\<close>, \<open>bytes\<close> the visible content of a
    \<^verbatim>\<open>[]byte\<close>; a Go \<^verbatim>\<open>string\<close> is a HOL \<^typ>\<open>string\<close> (a sequence of bytes).
    \<open>string_of\<close> and \<open>bytes_of\<close> are the conversions \<^verbatim>\<open>string(b)\<close> and
    \<^verbatim>\<open>[]byte(s)\<close>.
  \<^item> A Go \<^verbatim>\<open>int\<close> is an \<^typ>\<open>int\<close>; all platforms of the Makefile are 64-bit, and
    \<open>wrap64\<close> is the two's complement wrap-around, written where an overflow is possible.
  \<^item> \<open>'a go\<close> is the result of a computation that may fail to return: \<^const>\<open>None\<close> is a
    run-time panic (index or slice bounds out of range). Errors that Go code returns are
    ordinary values and live inside the result.
  \<^item> \<open>go_index\<close> and \<open>go_slice\<close> are \<^verbatim>\<open>s[i]\<close> and \<^verbatim>\<open>s[i:j]\<close> with their bounds checks.
    Go checks the upper bound of a slice expression against the capacity. The model checks
    it against the length, which is stricter; where the difference can be observed
    (the TLS cipher suite loop) the spare capacity is modelled explicitly.
\<close>

unbundle bit_operations_syntax

named_theorems go_safe \<open>bounds-checked accesses that succeed\<close>
named_theorems wp \<open>weakest preconditions of the Go primitives for \<open>returns\<close>\<close>
named_theorems wlp \<open>weakest liberal preconditions of the Go primitives for \<open>upon_return\<close>\<close>
named_theorems go_local \<open>accesses inside a prefix do not see what follows it\<close>

type_synonym byte = "8 word"
type_synonym bytes = "byte list"
type_synonym u16 = "16 word"
type_synonym u32 = "32 word"
type_synonym u64 = "64 word"
type_synonym 'a go = "'a option"
type_synonym error = string

abbreviation panic :: "'a go" where
  "panic \<equiv> None"

abbreviation len :: "'a list \<Rightarrow> int" where
  "len xs \<equiv> int (length xs)"

section \<open>Conversions between strings and byte slices\<close>

definition bytes_of :: "string \<Rightarrow> bytes" where
  "bytes_of s = map of_char s"

definition string_of :: "bytes \<Rightarrow> string" where
  "string_of b = map (\<lambda>x. char_of (unat x)) b"

section \<open>Bounds-checked access\<close>

definition go_index :: "'a list \<Rightarrow> int \<Rightarrow> 'a go" where
  "go_index xs i = (if 0 \<le> i \<and> i < len xs then Some (xs ! nat i) else panic)"

definition go_slice :: "'a list \<Rightarrow> int \<Rightarrow> int \<Rightarrow> 'a list go" where
  "go_slice xs i j =
     (if 0 \<le> i \<and> i \<le> j \<and> j \<le> len xs then Some (take (nat (j - i)) (drop (nat i) xs)) else panic)"

definition go_from :: "'a list \<Rightarrow> int \<Rightarrow> 'a list go" where
  "go_from xs i = go_slice xs i (len xs)"

definition go_upto :: "'a list \<Rightarrow> int \<Rightarrow> 'a list go" where
  "go_upto xs j = go_slice xs 0 j"

section \<open>Making channels and slices\<close>

text \<open>
  \<^verbatim>\<open>make(chan T, n)\<close> and \<^verbatim>\<open>make([]T, n)\<close> panic when \<open>n\<close> is negative or larger than the run time can
  allocate. How large that is depends on the platform and on the size of \<open>T\<close>, so the largest \<open>n\<close> per element type is
  a parameter of the model. A size within the limit is taken to be available.
\<close>

record make_limits =
  lim_Packet :: int
  lim_FD :: int
  lim_DecodedPacket :: int
  lim_StreamData :: int
  lim_Writer :: int
  lim_Event :: int

definition go_make :: "int \<Rightarrow> int \<Rightarrow> nat go" where
  "go_make limit n = (if n < 0 \<or> limit < n then panic else Some (nat n))"

text \<open>What every platform can allocate: the sizes that the stages use when none is configured.\<close>

definition limits_ok :: "make_limits \<Rightarrow> bool" where
  "limits_ok M \<longleftrightarrow> 4096 \<le> lim_Packet M \<and> 1 \<le> lim_FD M \<and> 4096 \<le> lim_DecodedPacket M \<and>
     4096 \<le> lim_StreamData M \<and> 1 \<le> lim_Writer M \<and> 4096 \<le> lim_Event M"

text \<open>An address space of \<open>2 ^ 48\<close> bytes and elements of up to 256 bytes, for concrete instances.\<close>

definition example_limits :: make_limits where
  "example_limits = \<lparr>lim_Packet = 2 ^ 40, lim_FD = 2 ^ 40, lim_DecodedPacket = 2 ^ 40, lim_StreamData = 2 ^ 40,
     lim_Writer = 2 ^ 40, lim_Event = 2 ^ 40\<rparr>"

text \<open>
  \<open>returns m P\<close>: the computation does not panic and its result satisfies \<open>P\<close>. The collection
  \<open>wp\<close> rewrites it through the primitives, so that absence of panics becomes arithmetic.
\<close>

definition returns :: "'a go \<Rightarrow> ('a \<Rightarrow> bool) \<Rightarrow> bool" where
  "returns m P \<longleftrightarrow> (case m of None \<Rightarrow> False | Some x \<Rightarrow> P x)"

text \<open>
  \<open>upon_return m P\<close> is the partial variant: \<open>P\<close> holds of the result if there is one. It serves
  the parsers that can panic.
\<close>

definition upon_return :: "'a go \<Rightarrow> ('a \<Rightarrow> bool) \<Rightarrow> bool" where
  "upon_return m P \<longleftrightarrow> (case m of None \<Rightarrow> True | Some x \<Rightarrow> P x)"

section \<open>64-bit arithmetic\<close>

definition wrap64 :: "int \<Rightarrow> int" where
  "wrap64 x = (x + 2 ^ 63) mod 2 ^ 64 - 2 ^ 63"

section \<open>encoding/binary\<close>

text \<open>
  \<^verbatim>\<open>binary.BigEndian.Uint16\<close> and its kin read the first bytes of their argument and
  panic when it is too short.
\<close>

definition be16 :: "bytes \<Rightarrow> u16 go" where
  "be16 b = do { b0 \<leftarrow> go_index b 0; b1 \<leftarrow> go_index b 1; Some (256 * ucast b0 + ucast b1) }"

definition le16 :: "bytes \<Rightarrow> u16 go" where
  "le16 b = do { b0 \<leftarrow> go_index b 0; b1 \<leftarrow> go_index b 1; Some (256 * ucast b1 + ucast b0) }"

definition be32 :: "bytes \<Rightarrow> u32 go" where
  "be32 b = do {
     b0 \<leftarrow> go_index b 0; b1 \<leftarrow> go_index b 1; b2 \<leftarrow> go_index b 2; b3 \<leftarrow> go_index b 3;
     Some (16777216 * ucast b0 + 65536 * ucast b1 + 256 * ucast b2 + ucast b3) }"

definition le32 :: "bytes \<Rightarrow> u32 go" where
  "le32 b = do {
     b0 \<leftarrow> go_index b 0; b1 \<leftarrow> go_index b 1; b2 \<leftarrow> go_index b 2; b3 \<leftarrow> go_index b 3;
     Some (16777216 * ucast b3 + 65536 * ucast b2 + 256 * ucast b1 + ucast b0) }"

text \<open>The 24-bit little-endian length \<^verbatim>\<open>int(b[0]) | int(b[1])<<8 | int(b[2])<<16\<close>.\<close>

definition le24 :: "bytes \<Rightarrow> int go" where
  "le24 b = do {
     b0 \<leftarrow> go_index b 0; b1 \<leftarrow> go_index b 1; b2 \<leftarrow> go_index b 2;
     Some (uint b0 OR push_bit 8 (uint b1) OR push_bit 16 (uint b2)) }"

definition put_le24 :: "nat \<Rightarrow> bytes" where
  "put_le24 n = [of_nat n, of_nat (n div 256), of_nat (n div 65536)]"

text \<open>\<^verbatim>\<open>PutUint16\<close>, \<^verbatim>\<open>PutUint32\<close> and \<^verbatim>\<open>PutUint64\<close>, as the bytes they write.\<close>

definition put_be16 :: "u16 \<Rightarrow> bytes" where
  "put_be16 v = [ucast (drop_bit 8 v), ucast v]"

definition put_be32 :: "u32 \<Rightarrow> bytes" where
  "put_be32 v = [ucast (drop_bit 24 v), ucast (drop_bit 16 v), ucast (drop_bit 8 v), ucast v]"

definition put_le32 :: "u32 \<Rightarrow> bytes" where
  "put_le32 v = rev (put_be32 v)"

definition put_be64 :: "u64 \<Rightarrow> bytes" where
  "put_be64 v =
     [ucast (drop_bit 56 v), ucast (drop_bit 48 v), ucast (drop_bit 40 v), ucast (drop_bit 32 v),
      ucast (drop_bit 24 v), ucast (drop_bit 16 v), ucast (drop_bit 8 v), ucast v]"

section \<open>Lemmas: conversions\<close>

lemma unat_of_char [simp]: "unat (of_char c :: byte) = of_char c"
proof -
  have "(of_char c :: byte) = of_nat (of_char c)"
    by (metis of_nat_of_char)
  moreover have "of_char c < (256 :: nat)"
    by (metis char_of_char mod_less_divisor of_char_of zero_less_numeral)
  ultimately show ?thesis
    by (simp add: unat_of_nat)
qed

lemma string_of_bytes_of [simp]: "string_of (bytes_of s) = s"
  by (simp add: string_of_def bytes_of_def comp_def)

lemma unat_byte_less: "unat (b :: byte) < 256"
proof -
  have "unat b < 2 ^ LENGTH(8)"
    by (rule unsigned_less)
  then show ?thesis by simp
qed

lemma of_char_char_of_unat [simp]: "(of_char (char_of (unat b)) :: byte) = b"
proof -
  have "unat (of_char (char_of (unat b)) :: byte) = unat b mod 256"
    by (simp add: of_char_of)
  also have "\<dots> = unat b"
    using unat_byte_less [of b] by simp
  finally show ?thesis
    by (rule word_unat_eq_iff [THEN iffD2])
qed

lemma bytes_of_string_of [simp]: "bytes_of (string_of b) = b"
  by (induction b) (auto simp: string_of_def bytes_of_def)

lemma length_string_of [simp]: "length (string_of b) = length b"
  by (simp add: string_of_def)

lemma length_bytes_of [simp]: "length (bytes_of s) = length s"
  by (simp add: bytes_of_def)

lemma bytes_of_Nil [simp]: "bytes_of [] = []"
  by (simp add: bytes_of_def)

lemma bytes_of_Nil_iff [simp]: "bytes_of s = [] \<longleftrightarrow> s = []"
  by (simp add: bytes_of_def)

lemma string_of_append: "string_of (a @ b) = string_of a @ string_of b"
  by (simp add: string_of_def)

lemma string_of_Nil_iff [simp]: "string_of b = [] \<longleftrightarrow> b = []"
  by (simp add: string_of_def)

section \<open>Lemmas: bounds checks\<close>

lemma go_index_Some [go_safe]: "0 \<le> i \<Longrightarrow> i < len xs \<Longrightarrow> go_index xs i = Some (xs ! nat i)"
  by (simp add: go_index_def)

lemma go_index_eq_Some: "go_index xs i = Some x \<longleftrightarrow> 0 \<le> i \<and> i < len xs \<and> x = xs ! nat i"
  by (auto simp: go_index_def)

lemma go_slice_Some [go_safe]:
  "0 \<le> i \<Longrightarrow> i \<le> j \<Longrightarrow> j \<le> len xs \<Longrightarrow>
     go_slice xs i j = Some (take (nat (j - i)) (drop (nat i) xs))"
  by (simp add: go_slice_def)

lemma go_slice_eq_Some:
  "go_slice xs i j = Some ys \<longleftrightarrow>
     0 \<le> i \<and> i \<le> j \<and> j \<le> len xs \<and> ys = take (nat (j - i)) (drop (nat i) xs)"
  by (auto simp: go_slice_def)

lemma go_slice_len: "go_slice xs i j = Some ys \<Longrightarrow> len ys = j - i"
  by (auto simp: go_slice_eq_Some)

lemma go_from_Some [go_safe]: "0 \<le> i \<Longrightarrow> i \<le> len xs \<Longrightarrow> go_from xs i = Some (drop (nat i) xs)"
  by (auto simp: go_from_def go_slice_def)

lemma go_upto_Some [go_safe]: "0 \<le> j \<Longrightarrow> j \<le> len xs \<Longrightarrow> go_upto xs j = Some (take (nat j) xs)"
  by (auto simp: go_upto_def go_slice_def)

lemma be16_Some [go_safe]:
  "2 \<le> length b \<Longrightarrow> be16 b = Some (256 * ucast (b ! 0) + ucast (b ! 1))"
  by (auto simp: be16_def go_index_def)

lemma le16_Some [go_safe]:
  "2 \<le> length b \<Longrightarrow> le16 b = Some (256 * ucast (b ! 1) + ucast (b ! 0))"
  by (auto simp: le16_def go_index_def)

lemma be32_Some [go_safe]:
  "4 \<le> length b \<Longrightarrow> be32 b =
     Some (16777216 * ucast (b ! 0) + 65536 * ucast (b ! 1) + 256 * ucast (b ! 2) + ucast (b ! 3))"
  by (auto simp: be32_def go_index_def)

lemma le32_Some [go_safe]:
  "4 \<le> length b \<Longrightarrow> le32 b =
     Some (16777216 * ucast (b ! 3) + 65536 * ucast (b ! 2) + 256 * ucast (b ! 1) + ucast (b ! 0))"
  by (auto simp: le32_def go_index_def)

lemma le24_Some [go_safe]:
  "3 \<le> length b \<Longrightarrow>
     le24 b = Some (uint (b ! 0) OR push_bit 8 (uint (b ! 1)) OR push_bit 16 (uint (b ! 2)))"
  by (auto simp: le24_def go_index_def)

lemma le24_nonneg: "le24 b = Some n \<Longrightarrow> 0 \<le> n"
  by (auto simp: le24_def go_index_def bind_eq_Some_conv split: if_splits)

lemma go_index_local [go_local]:
  "i < n \<Longrightarrow> n \<le> len d \<Longrightarrow> go_index (take (nat n) d @ r) i = go_index d i"
  by (auto simp: go_index_def nth_append)

lemma go_slice_local [go_local]:
  "j \<le> n \<Longrightarrow> n \<le> len d \<Longrightarrow> go_slice (take (nat n) d @ r) i j = go_slice d i j"
proof -
  assume "j \<le> n" "n \<le> len d"
  then have "take (nat (j - i)) (drop (nat i) (take (nat n) d @ r)) =
      take (nat (j - i)) (drop (nat i) d)" if "0 \<le> i" "i \<le> j"
  proof -
    have "nat (j - i) \<le> nat n - nat i" "nat (j - i) \<le> length d - nat i"
      using that \<open>j \<le> n\<close> \<open>n \<le> len d\<close> by linarith+
    then show ?thesis by (simp add: drop_take min_def)
  qed
  then show ?thesis
    using \<open>j \<le> n\<close> \<open>n \<le> len d\<close> by (auto simp: go_slice_def)
qed

lemma go_from_local [go_local]:
  "0 \<le> i \<Longrightarrow> i \<le> n \<Longrightarrow> n \<le> len d \<Longrightarrow>
     go_from (take (nat n) d @ r) i = Some (take (nat (n - i)) (drop (nat i) d) @ r)"
proof -
  assume i: "0 \<le> i" "i \<le> n" "n \<le> len d"
  then have "nat i \<le> length (take (nat n) d)" by simp
  then have "drop (nat i) (take (nat n) d @ r) = take (nat (n - i)) (drop (nat i) d) @ r"
    using i by (simp add: drop_take nat_diff_distrib)
  then show ?thesis using i by (simp add: go_from_Some)
qed

lemma le24_local [go_local]:
  "3 \<le> n \<Longrightarrow> n \<le> len d \<Longrightarrow> le24 (take (nat n) d @ r) = le24 d"
  by (simp add: le24_def go_local)

lemma be16_local [go_local]:
  "2 \<le> n \<Longrightarrow> n \<le> len d \<Longrightarrow> be16 (take (nat n) d @ r) = be16 d"
  by (simp add: be16_def go_local)

section \<open>Lemmas: computations that return\<close>

lemma Suc_0_le_length [simp]: "Suc 0 \<le> length xs \<longleftrightarrow> xs \<noteq> []"
  by (cases xs) auto

lemma one_le_len [simp]: "1 \<le> len xs \<longleftrightarrow> xs \<noteq> []"
  by (cases xs) auto

lemma returns_basic [wp]:
  "returns (Some x) P1 = P1 x"
  "returns None P2 = False"
  "returns (Option.bind m f) P3 = returns m (\<lambda>x. returns (f x) P3)"
  "returns (if b then m4 else k4) P4 = ((b \<longrightarrow> returns m4 P4) \<and> (\<not> b \<longrightarrow> returns k4 P4))"
  "returns (Let a g) P5 = returns (g a) P5"
  "returns (map_option h m6) P6 = returns m6 (\<lambda>x. P6 (h x))"
  "returns (case y of None \<Rightarrow> m7 | Some z \<Rightarrow> f7 z) P7 =
     ((y = None \<longrightarrow> returns m7 P7) \<and> (\<forall>z. y = Some z \<longrightarrow> returns (f7 z) P7))"
  "returns (case y8 of Inl a \<Rightarrow> m8 a | Inr b \<Rightarrow> f8 b) P8 =
     ((\<forall>a. y8 = Inl a \<longrightarrow> returns (m8 a) P8) \<and> (\<forall>b. y8 = Inr b \<longrightarrow> returns (f8 b) P8))"
  by (auto simp: returns_def split: option.splits sum.splits)

lemma upon_return_basic [wlp]:
  "upon_return (Some x) P1 = P1 x"
  "upon_return None P2 = True"
  "upon_return (Option.bind m f) P3 = upon_return m (\<lambda>x. upon_return (f x) P3)"
  "upon_return (if b then m4 else k4) P4 =
     ((b \<longrightarrow> upon_return m4 P4) \<and> (\<not> b \<longrightarrow> upon_return k4 P4))"
  "upon_return (Let a g) P5 = upon_return (g a) P5"
  "upon_return (map_option h m6) P6 = upon_return m6 (\<lambda>x. P6 (h x))"
  "upon_return (case y of None \<Rightarrow> m7 | Some z \<Rightarrow> f7 z) P7 =
     ((y = None \<longrightarrow> upon_return m7 P7) \<and> (\<forall>z. y = Some z \<longrightarrow> upon_return (f7 z) P7))"
  "upon_return (case y8 of Inl a \<Rightarrow> m8 a | Inr b \<Rightarrow> f8 b) P8 =
     ((\<forall>a. y8 = Inl a \<longrightarrow> upon_return (m8 a) P8) \<and> (\<forall>b. y8 = Inr b \<longrightarrow> upon_return (f8 b) P8))"
  by (auto simp: upon_return_def split: option.splits sum.splits)

lemma upon_return_access [wlp]:
  "upon_return (go_index xs1 i) P = (0 \<le> i \<and> i < len xs1 \<longrightarrow> P (xs1 ! nat i))"
  "upon_return (go_slice xs i j) Q =
     (0 \<le> i \<and> i \<le> j \<and> j \<le> len xs \<longrightarrow> Q (take (nat (j - i)) (drop (nat i) xs)))"
  "upon_return (go_from xs i) Q = (0 \<le> i \<and> i \<le> len xs \<longrightarrow> Q (drop (nat i) xs))"
  "upon_return (go_upto xs j) Q = (0 \<le> j \<and> j \<le> len xs \<longrightarrow> Q (take (nat j) xs))"
  by (auto simp: upon_return_def go_index_def go_slice_def go_from_def go_upto_def split: if_splits)

lemma upon_return_mono:
  "upon_return m P \<Longrightarrow> (\<And>x. m = Some x \<Longrightarrow> P x \<Longrightarrow> Q x) \<Longrightarrow> upon_return m Q"
  by (auto simp: upon_return_def split: option.splits)

lemma upon_returnI: "(\<And>x. m = Some x \<Longrightarrow> P x) \<Longrightarrow> upon_return m P"
  by (auto simp: upon_return_def split: option.splits)

lemma upon_returnD: "upon_return m P \<Longrightarrow> m = Some x \<Longrightarrow> P x"
  by (simp add: upon_return_def)

lemma returns_upon: "returns m P \<Longrightarrow> upon_return m P"
  by (auto simp: returns_def upon_return_def split: option.splits)

lemma returns_access [wp]:
  "returns (go_index xs1 i) P = (0 \<le> i \<and> i < len xs1 \<and> P (xs1 ! nat i))"
  "returns (go_slice xs i j) Q =
     (0 \<le> i \<and> i \<le> j \<and> j \<le> len xs \<and> Q (take (nat (j - i)) (drop (nat i) xs)))"
  "returns (go_from xs i) Q = (0 \<le> i \<and> i \<le> len xs \<and> Q (drop (nat i) xs))"
  "returns (go_upto xs j) Q = (0 \<le> j \<and> j \<le> len xs \<and> Q (take (nat j) xs))"
  by (auto simp: returns_def go_index_def go_slice_def go_from_def go_upto_def split: if_splits)

lemma returns_mono: "returns m P \<Longrightarrow> (\<And>x. m = Some x \<Longrightarrow> P x \<Longrightarrow> Q x) \<Longrightarrow> returns m Q"
  by (auto simp: returns_def split: option.splits)

lemma returnsD: "returns m P \<Longrightarrow> m = Some x \<Longrightarrow> P x"
  by (simp add: returns_def)

lemma returns_ex: "returns m P \<Longrightarrow> \<exists>x. m = Some x \<and> P x"
  by (auto simp: returns_def split: option.splits)

lemma returns_not_panic: "returns m P \<Longrightarrow> m \<noteq> panic"
  by (auto simp: returns_def split: option.splits)

lemma returnsI: "m = Some x \<Longrightarrow> P x \<Longrightarrow> returns m P"
  by (simp add: returns_def)

lemma returns_total: "m \<noteq> panic \<Longrightarrow> (\<And>x. P x) \<Longrightarrow> returns m P"
  by (auto simp: returns_def)

lemma returns_binary:
  "2 \<le> length b \<Longrightarrow> (\<And>v. be16 b = Some v \<Longrightarrow> P v) \<Longrightarrow> returns (be16 b) P"
  "2 \<le> length b \<Longrightarrow> (\<And>v. le16 b = Some v \<Longrightarrow> P v) \<Longrightarrow> returns (le16 b) P"
  "4 \<le> length b \<Longrightarrow> (\<And>v. be32 b = Some v \<Longrightarrow> Q v) \<Longrightarrow> returns (be32 b) Q"
  "4 \<le> length b \<Longrightarrow> (\<And>v. le32 b = Some v \<Longrightarrow> Q v) \<Longrightarrow> returns (le32 b) Q"
  "3 \<le> length b \<Longrightarrow> (\<And>v. le24 b = Some v \<Longrightarrow> 0 \<le> v \<Longrightarrow> R v) \<Longrightarrow> returns (le24 b) R"
  using le24_nonneg by (auto simp: go_safe returns_def)

lemma neg_less_uint [simp]: "- 1 < uint w" "- numeral k < uint w"
  by (rule order_less_le_trans [OF _ uint_nonnegative], simp)+

lemma wrap64_id: "- (2 ^ 63) \<le> x \<Longrightarrow> x < 2 ^ 63 \<Longrightarrow> wrap64 x = x"
  by (simp add: wrap64_def)

lemma wrap64_add_pos:
  assumes "0 < wrap64 (x + 2)"
  shows "wrap64 x = wrap64 (x + 2) - 2"
proof -
  let ?y = "(x + 2 ^ 63) mod 2 ^ 64"
  have "wrap64 (x + 2) = (?y + 2) mod 2 ^ 64 - 2 ^ 63"
    by (simp add: wrap64_def mod_simps algebra_simps)
  moreover have "0 \<le> ?y" "?y < 2 ^ 64" by simp_all
  moreover have "(z + 2) mod 2 ^ 64 = (if z + 2 < 2 ^ 64 then z + 2 else z + 2 - 2 ^ 64)"
    if "0 \<le> z" "z < 2 ^ 64" for z :: int
    using that by (auto simp: mod_pos_geq)
  ultimately show ?thesis
    using assms by (auto simp: wrap64_def split: if_splits)
qed

lemma wrap64_overflow: "2 ^ 63 \<le> x \<Longrightarrow> x < 2 ^ 63 + 2 ^ 63 \<Longrightarrow> wrap64 x = x - 2 ^ 64"
  by (simp add: wrap64_def mod_pos_geq)

lemma wrap64_range: "- (2 ^ 63) \<le> wrap64 x \<and> wrap64 x < 2 ^ 63"
  by (simp add: wrap64_def)

lemma go_index_append: "go_index (p @ x # r) (len p) = Some x"
  by (simp add: go_index_def)

lemma go_from_append: "go_from (p @ r) (len p) = Some r"
  by (simp add: go_from_def go_slice_def)

lemma go_slice_append: "go_slice (p @ a @ r) (len p) (len p + len a) = Some a"
  by (simp add: go_slice_def)

section \<open>Lemmas: binary encodings round-trip\<close>

lemma ucast_byte_u16: "ucast (ucast w :: byte) = take_bit 8 (w :: u16)"
  by (rule bit_word_eqI) (auto simp: bit_simps)

lemma ucast_byte_u32: "ucast (ucast w :: byte) = take_bit 8 (w :: u32)"
  by (rule bit_word_eqI) (auto simp: bit_simps)

lemma be16_put: "be16 (put_be16 v @ r) = Some v"
proof -
  have "take_bit 8 (drop_bit 8 v) = drop_bit 8 v"
    by (rule bit_word_eqI) (auto simp: bit_simps dest: bit_imp_le_length)
  moreover have "256 * drop_bit 8 v + take_bit 8 v = v"
    using bits_ident [of 8 v] by (simp add: push_bit_eq_mult mult.commute)
  ultimately show ?thesis
    by (simp add: be16_def put_be16_def go_index_def ucast_byte_u16)
qed

lemma or_push_bit_add:
  assumes "0 \<le> a" "a < 2 ^ n"
  shows "a OR push_bit n b = a + push_bit n (b :: int)"
proof -
  have "take_bit n a = a"
    using assms by (simp add: take_bit_int_eq_self)
  then have "bit a m \<Longrightarrow> m < n" for m
    by (metis bit_take_bit_iff)
  then have "a AND push_bit n b = 0"
    by (fastforce intro!: bit_eqI simp: bit_simps)
  then show ?thesis
    by (simp add: disjunctive_add_eq_or)
qed

lemma uint_byte_less: "uint (b :: byte) < 256"
  using uint_bounded [of b] by simp

lemma le24_value:
  "le24 (b0 # b1 # b2 # r) = Some (uint b0 + 256 * uint b1 + 65536 * uint b2)"
proof -
  have 1: "uint b0 OR push_bit 8 (uint b1) = uint b0 + 256 * uint b1"
    using uint_byte_less [of b0] or_push_bit_add [of "uint b0" 8 "uint b1"]
    by (simp add: push_bit_eq_mult)
  have "uint b0 + 256 * uint b1 < 2 ^ 16"
    using uint_byte_less [of b0] uint_byte_less [of b1] by simp
  then have "(uint b0 + 256 * uint b1) OR push_bit 16 (uint b2) =
      uint b0 + 256 * uint b1 + 65536 * uint b2"
    using or_push_bit_add [of "uint b0 + 256 * uint b1" 16 "uint b2"]
    by (simp add: push_bit_eq_mult)
  then show ?thesis
    by (simp add: le24_def go_index_def 1 flip: or.assoc)
qed

lemma le24_put:
  assumes "n < 2 ^ 24"
  shows "le24 (put_le24 n @ r) = Some (int n)"
proof -
  have "int (n mod 256) + 256 * int (n div 256 mod 256) + 65536 * int (n div 65536 mod 256) =
      int (n mod 256 + 256 * (n div 256 mod 256) + 65536 * (n div 65536))"
    using assms by (simp add: less_mult_imp_div_less)
  also have "n mod 256 + 256 * (n div 256 mod 256) + 65536 * (n div 65536) = n"
  proof -
    have "n div 65536 = n div 256 div 256"
      using div_mult2_eq [of n 256 256] by simp
    then show ?thesis
      using mult_div_mod_eq [of 256 n] mult_div_mod_eq [of 256 "n div 256"] by linarith
  qed
  finally have sum: "int (n mod 256) + 256 * int (n div 256 mod 256) +
      65536 * int (n div 65536 mod 256) = int n" .
  have "uint (of_nat m :: byte) = int (m mod 256)" for m
    by (simp add: unsigned_of_nat take_bit_eq_mod)
  with sum show ?thesis
    by (simp only: put_le24_def le24_value append_Cons)
qed

lemma bytes_of_u32:
  "16777216 * take_bit 8 (drop_bit 24 v) + 65536 * take_bit 8 (drop_bit 16 v) +
     256 * take_bit 8 (drop_bit 8 v) + take_bit 8 v = (v :: u32)"
proof -
  have split: "256 * drop_bit (8 + n) v + take_bit 8 (drop_bit n v) = drop_bit n v" for n
    using bits_ident [of 8 "drop_bit n v"] by (simp add: push_bit_eq_mult mult.commute)
  have "take_bit 8 (drop_bit 24 v) = drop_bit 24 v"
    by (rule bit_word_eqI) (auto simp: bit_simps dest: bit_imp_le_length)
  then have "16777216 * take_bit 8 (drop_bit 24 v) + 65536 * take_bit 8 (drop_bit 16 v) +
      256 * take_bit 8 (drop_bit 8 v) + take_bit 8 v =
    256 * (256 * (256 * drop_bit 24 v + take_bit 8 (drop_bit 16 v)) + take_bit 8 (drop_bit 8 v)) +
      take_bit 8 v"
    by (simp add: algebra_simps)
  also have "\<dots> = v"
    using split [of 16] split [of 8] split [of 0] by simp
  finally show ?thesis .
qed

lemma be32_put: "be32 (put_be32 v @ r) = Some v"
  using bytes_of_u32 [of v]
  by (simp add: be32_def put_be32_def go_index_def ucast_byte_u32)

lemma le32_put: "le32 (put_le32 v @ r) = Some v"
  using bytes_of_u32 [of v]
  by (simp add: le32_def put_le32_def put_be32_def go_index_def ucast_byte_u32)

section \<open>Lemmas: lists\<close>

lemma count_list_distinct: "distinct xs \<Longrightarrow> count_list xs x = (if x \<in> set xs then 1 else 0)"
  by (induction xs) auto

end
