(* ===== verification/GoStrings.thy ===== *)
theory GoStrings
  imports Prelude "HOL-Library.Char_ord"
begin

text \<open>
  The functions of Go's \<^verbatim>\<open>strings\<close>, \<^verbatim>\<open>bytes\<close>, \<^verbatim>\<open>strconv\<close> and \<^verbatim>\<open>encoding/hex\<close>
  packages that the parsers call. They work on lists, so the same definition serves
  \<^verbatim>\<open>strings.Index\<close> and \<^verbatim>\<open>bytes.Index\<close>. Case conversion outside ASCII uses Unicode
  tables that are not modelled: they are a parameter (\<open>unicode\<close>), used only on strings that
  hold a byte above 127. The lemmas show what the parsers rely on: positions are in range,
  splitting and joining are inverse, decimal numbers round-trip through \<open>Itoa\<close> and \<open>Atoi\<close>.
\<close>

record unicode =
  uniUpper :: "string \<Rightarrow> string"
  uniLower :: "string \<Rightarrow> string"

abbreviation CRLF :: bytes where
  "CRLF \<equiv> [13, 10]"

section \<open>Searching and splitting\<close>

abbreviation HasPrefix :: "'a list \<Rightarrow> 'a list \<Rightarrow> bool" where
  "HasPrefix s p \<equiv> prefix p s"

fun Index :: "'a list \<Rightarrow> 'a list \<Rightarrow> int" where
  "Index [] sep = (if sep = [] then 0 else -1)"
| "Index (x # xs) sep =
     (if prefix sep (x # xs) then 0
      else (let r = Index xs sep in if r < 0 then -1 else r + 1))"

definition IndexByte :: "'a list \<Rightarrow> 'a \<Rightarrow> int" where
  "IndexByte s c = Index s [c]"

definition Contains :: "'a list \<Rightarrow> 'a list \<Rightarrow> bool" where
  "Contains s sep \<longleftrightarrow> 0 \<le> Index s sep"

text \<open>All separators of the program are non-empty; an empty one would not split.\<close>

function Split :: "'a list \<Rightarrow> 'a list \<Rightarrow> 'a list list" where
  "Split s sep =
     (if sep = [] \<or> Index s sep < 0 then [s]
      else take (nat (Index s sep)) s # Split (drop (nat (Index s sep) + length sep) s) sep)"
  by pat_completeness auto
termination
proof (relation "measure (\<lambda>(s, sep). length s)", simp)
  fix s sep :: "'a list"
  assume a: "\<not> (sep = [] \<or> Index s sep < 0)"
  then have "s \<noteq> []" by (cases s) auto
  with a show "((drop (nat (Index s sep) + length sep) s, sep), (s, sep))
      \<in> measure (\<lambda>(s, sep). length s)"
    by (cases sep) auto
qed

declare Split.simps [simp del]

fun SplitN :: "'a list \<Rightarrow> 'a list \<Rightarrow> nat \<Rightarrow> 'a list list" where
  "SplitN s sep 0 = []"
| "SplitN s sep (Suc 0) = [s]"
| "SplitN s sep (Suc (Suc n)) =
     (if Index s sep < 0 then [s]
      else take (nat (Index s sep)) s
             # SplitN (drop (nat (Index s sep) + length sep) s) sep (Suc n))"

fun Join :: "'a list list \<Rightarrow> 'a list \<Rightarrow> 'a list" where
  "Join [] sep = []"
| "Join [x] sep = x"
| "Join (x # y # r) sep = x @ sep @ Join (y # r) sep"

section \<open>Case conversion and trimming\<close>

definition isASCII :: "string \<Rightarrow> bool" where
  "isASCII s \<longleftrightarrow> list_all (\<lambda>c. (of_char c :: nat) < 128) s"

definition upper_byte :: "char \<Rightarrow> char" where
  "upper_byte c = (if CHR ''a'' \<le> c \<and> c \<le> CHR ''z'' then char_of (of_char c - 32 :: nat) else c)"

definition lower_byte :: "char \<Rightarrow> char" where
  "lower_byte c = (if CHR ''A'' \<le> c \<and> c \<le> CHR ''Z'' then char_of (of_char c + 32 :: nat) else c)"

definition ToUpper :: "unicode \<Rightarrow> string \<Rightarrow> string" where
  "ToUpper U s = (if isASCII s then map upper_byte s else uniUpper U s)"

definition ToLower :: "unicode \<Rightarrow> string \<Rightarrow> string" where
  "ToLower U s = (if isASCII s then map lower_byte s else uniLower U s)"

text \<open>The UTF-8 encodings of the code points for which \<^verbatim>\<open>unicode.IsSpace\<close> holds.\<close>

definition space_seqs :: "string list" where
  "space_seqs = map (map (char_of :: nat \<Rightarrow> char))
     ([[9], [10], [11], [12], [13], [32], [0xC2, 0x85], [0xC2, 0xA0], [0xE1, 0x9A, 0x80]]
      @ map (\<lambda>x. [0xE2, 0x80, x]) [0x80, 0x81, 0x82, 0x83, 0x84, 0x85, 0x86, 0x87, 0x88, 0x89, 0x8A,
           0xA8, 0xA9, 0xAF]
      @ [[0xE2, 0x81, 0x9F], [0xE3, 0x80, 0x80]])"

fun strip_seqs :: "nat \<Rightarrow> string list \<Rightarrow> string \<Rightarrow> string" where
  "strip_seqs 0 seqs s = s"
| "strip_seqs (Suc n) seqs s =
     (case find (\<lambda>p. p \<noteq> [] \<and> prefix p s) seqs of
        None \<Rightarrow> s
      | Some p \<Rightarrow> strip_seqs n seqs (drop (length p) s))"

definition TrimSpace :: "string \<Rightarrow> string" where
  "TrimSpace s =
     (let l = strip_seqs (length s) space_seqs s
      in rev (strip_seqs (length l) (map rev space_seqs) (rev l)))"

definition TrimRight1 :: "'a list \<Rightarrow> 'a \<Rightarrow> 'a list" where
  "TrimRight1 s c = rev (dropWhile (\<lambda>x. x = c) (rev s))"

section \<open>Numbers\<close>

definition digit_char :: "nat \<Rightarrow> char" where
  "digit_char d = char_of (48 + d)"

fun decimal :: "nat \<Rightarrow> string" where
  "decimal n = (if n < 10 then [digit_char n] else decimal (n div 10) @ [digit_char (n mod 10)])"

declare decimal.simps [simp del]

definition Itoa :: "int \<Rightarrow> string" where
  "Itoa i = (if i < 0 then ''-'' @ decimal (nat (- i)) else decimal (nat i))"

definition digit_val :: "char \<Rightarrow> nat option" where
  "digit_val c = (if CHR ''0'' \<le> c \<and> c \<le> CHR ''9'' then Some (of_char c - 48) else None)"

fun parse_decimal :: "string \<Rightarrow> nat \<Rightarrow> nat option" where
  "parse_decimal [] acc = Some acc"
| "parse_decimal (c # cs) acc =
     (case digit_val c of None \<Rightarrow> None | Some d \<Rightarrow> parse_decimal cs (10 * acc + d))"

text \<open>\<^verbatim>\<open>strconv.Atoi\<close>: \<^const>\<open>None\<close> is a non-nil error (bad syntax or out of range).\<close>

definition Atoi :: "string \<Rightarrow> int option" where
  "Atoi s =
     (let neg = (s \<noteq> [] \<and> hd s = CHR ''-'');
          ds = (if s \<noteq> [] \<and> (hd s = CHR ''-'' \<or> hd s = CHR ''+'') then tl s else s)
      in if ds = [] then None
         else case parse_decimal ds 0 of
                None \<Rightarrow> None
              | Some n \<Rightarrow>
                  (let v = (if neg then - int n else int n)
                   in if - (2 ^ 63) \<le> v \<and> v < 2 ^ 63 then Some v else None))"

definition hex_digit :: "nat \<Rightarrow> char" where
  "hex_digit d = (if d < 10 then char_of (48 + d) else char_of (87 + d))"

definition hex_byte :: "byte \<Rightarrow> string" where
  "hex_byte b = [hex_digit (unat b div 16), hex_digit (unat b mod 16)]"

text \<open>\<^verbatim>\<open>hex.EncodeToString\<close> and \<^verbatim>\<open>%x\<close> of a byte slice.\<close>

definition EncodeToString :: "bytes \<Rightarrow> string" where
  "EncodeToString b = concat (map hex_byte b)"

section \<open>Lemmas: searching and splitting\<close>

lemma Index_range: "-1 \<le> Index s sep \<and> (0 \<le> Index s sep \<longrightarrow> Index s sep + len sep \<le> len s)"
  by (induction s sep rule: Index.induct) (auto simp: Let_def dest: prefix_length_le)

lemma Index_ge: "-1 \<le> Index s sep"
  using Index_range by blast

lemma Index_le: "0 \<le> Index s sep \<Longrightarrow> Index s sep + len sep \<le> len s"
  using Index_range by blast

lemma Index_found:
  assumes "0 \<le> Index s sep"
  shows "s = take (nat (Index s sep)) s @ sep @ drop (nat (Index s sep) + length sep) s"
  using assms
proof (induction s sep rule: Index.induct)
  case (2 x xs sep)
  show ?case
  proof (cases "prefix sep (x # xs)")
    case True
    then show ?thesis by (auto simp: prefix_def)
  next
    case False
    with "2.prems" have nn: "0 \<le> Index xs sep" by (auto simp: Let_def split: if_splits)
    with False have "nat (Index (x # xs) sep) = Suc (nat (Index xs sep))"
      by (auto simp: Let_def)
    with "2.IH" [OF False nn] show ?thesis by simp
  qed
qed (auto split: if_splits)

lemma Index_none: "Index s sep < 0 \<longleftrightarrow> \<not> sublist sep s"
  by (induction s sep rule: Index.induct) (auto simp: Let_def sublist_Cons_right)

lemma prefix_take_append:
  "length p \<le> n \<Longrightarrow> n \<le> length s \<Longrightarrow> prefix p (take n s @ r) \<longleftrightarrow> prefix p s"
proof -
  assume "length p \<le> n" "n \<le> length s"
  then have "take (length p) (take n s @ r) = take (length p) s" by (simp add: min_def)
  then show ?thesis
    by (metis append_eq_conv_conj prefix_def)
qed

lemma Index_local:
  "0 \<le> Index s sep \<Longrightarrow> Index s sep + len sep \<le> int n \<Longrightarrow> n \<le> length s \<Longrightarrow>
     Index (take n s @ r) sep = Index s sep"
proof (induction s sep arbitrary: n rule: Index.induct)
  case (2 x xs sep)
  from "2.prems" have p: "prefix sep (take n (x # xs) @ r) \<longleftrightarrow> prefix sep (x # xs)"
    by (intro prefix_take_append) auto
  show ?case
  proof (cases "prefix sep (x # xs)")
    case True
    with p show ?thesis by (cases "take n (x # xs) @ r") auto
  next
    case False
    with "2.prems" have nn: "0 \<le> Index xs sep" "Index (x # xs) sep = Index xs sep + 1"
      by (auto simp: Let_def split: if_splits)
    with "2.prems" obtain m where n: "n = Suc m" by (cases n) auto
    have "Index (take m xs @ r) sep = Index xs sep"
      using "2.IH" [OF False nn(1), of m] "2.prems" nn n by simp
    with False p n nn show ?thesis by (simp add: Let_def)
  qed
next
  case (1 sep)
  then show ?case by (cases r) (auto split: if_splits)
qed

lemma Index_append:
  "\<not> sublist sep (a @ butlast sep) \<Longrightarrow> sep \<noteq> [] \<Longrightarrow> Index (a @ sep @ r) sep = len a"
proof (induction a)
  case Nil
  then show ?case by (cases sep) auto
next
  case (Cons x a)
  have "\<not> prefix sep (x # a @ sep @ r)"
  proof
    assume "prefix sep (x # a @ sep @ r)"
    then have "sep = take (length sep) ((x # a @ butlast sep) @ last sep # r)"
      using Cons.prems(2) by (metis append.assoc append_Cons append_butlast_last_id append_eq_conv_conj
          append_Nil prefix_def)
    also have "\<dots> = take (length sep) (x # a @ butlast sep)"
      using Cons.prems(2) by (cases sep rule: rev_cases) auto
    finally have "prefix sep (x # a @ butlast sep)"
      by (metis take_is_prefix)
    with Cons.prems(1) show False by (auto dest: prefix_imp_sublist)
  qed
  moreover have "\<not> sublist sep (a @ butlast sep)"
    using Cons.prems(1) by (auto simp: sublist_Cons_right)
  ultimately show ?case using Cons.IH Cons.prems(2) by (simp add: Let_def)
qed

lemma Join_Cons: "r \<noteq> [] \<Longrightarrow> Join (x # r) sep = x @ sep @ Join r sep"
  by (cases r) auto

lemma Split_nonempty: "Split s sep \<noteq> []"
  by (subst Split.simps) auto

lemma Join_Split: "Join (Split s sep) sep = s"
proof (induction s sep rule: Split.induct)
  case (1 s sep)
  show ?case
  proof (cases "sep = [] \<or> Index s sep < 0")
    case True
    then show ?thesis by (subst Split.simps) auto
  next
    case False
    then have "Join (Split s sep) sep =
        take (nat (Index s sep)) s @ sep @ drop (nat (Index s sep) + length sep) s"
      using "1.IH" by (subst Split.simps) (simp add: Join_Cons Split_nonempty)
    also have "\<dots> = s"
      using False Index_found [of s sep] by simp
    finally show ?thesis .
  qed
qed

lemma Split_Join:
  "xs \<noteq> [] \<Longrightarrow> \<forall>x \<in> set xs. c \<notin> set x \<Longrightarrow> c \<notin> set s \<Longrightarrow>
     Split (Join xs (c # s)) (c # s) = xs"
proof (induction xs)
  case (Cons x xs)
  then have n: "c \<notin> set x" by auto
  have x: "\<not> sublist (c # s) x" using n set_mono_sublist [of "c # s" x] by auto
  have x': "\<not> sublist (c # s) (x @ butlast (c # s))"
  proof
    assume "sublist (c # s) (x @ butlast (c # s))"
    then obtain l r where e: "x @ butlast (c # s) = l @ c # s @ r"
      by (auto simp: sublist_def)
    have "c \<notin> set (x @ butlast (c # s)) \<or> s \<noteq> []"
      using n by auto
    with e have "s \<noteq> []" by auto
    with e have e2: "x @ c # butlast s = l @ c # s @ r" by simp
    have "c \<notin> set (butlast s)" using Cons.prems(3) by (auto dest: in_set_butlastD)
    with e2 n Cons.prems(3) have "butlast s = s @ r"
      by (metis append_Cons_eq_iff split_list_first split_list_last)
    then have "length (butlast s) = length (s @ r)" by simp
    with \<open>s \<noteq> []\<close> show False by (simp only: length_butlast length_append) (cases s, auto)
  qed
  show ?case
  proof (cases xs)
    case Nil
    with x show ?thesis by (subst Split.simps) (simp add: Index_none)
  next
    case (Cons y ys)
    then have j: "Join (x # xs) (c # s) = x @ (c # s) @ Join xs (c # s)" by simp
    have "Index (Join (x # xs) (c # s)) (c # s) = len x"
      unfolding j using x' by (intro Index_append) simp_all
    then show ?thesis
      using Cons.IH Cons.prems Cons by (subst Split.simps) (simp add: j)
  qed
qed simp

lemma Index_CRLF: "10 \<notin> set a \<Longrightarrow> Index (a @ CRLF @ r) CRLF = len a"
proof -
  assume "10 \<notin> set a"
  then have "\<not> sublist CRLF (a @ butlast CRLF)"
    using set_mono_sublist [of CRLF "a @ [13]"] by auto
  then show ?thesis by (rule Index_append) simp
qed

lemma IndexByte_takeWhile:
  "IndexByte s c = (if c \<in> set s then len (takeWhile (\<lambda>x. x \<noteq> c) s) else -1)"
  by (induction s) (auto simp: IndexByte_def)

lemma takeWhile_neq: "c \<notin> set s \<Longrightarrow> takeWhile (\<lambda>x. x \<noteq> c) s = s"
  by (induction s) auto

lemma Split_lines:
  assumes "\<forall>l \<in> set ls. 10 \<notin> set l" "10 \<notin> set rest"
  shows "Split (concat (map (\<lambda>l. l @ CRLF) ls) @ rest) CRLF = ls @ [rest]"
  using assms(1)
proof (induction ls)
  case Nil
  have "\<not> sublist CRLF rest" using assms(2) set_mono_sublist [of CRLF rest] by auto
  then show ?case by (subst Split.simps) (simp add: Index_none)
next
  case (Cons l ls)
  let ?r = "concat (map (\<lambda>l. l @ CRLF) ls) @ rest"
  have "Index (l @ CRLF @ ?r) CRLF = len l" using Cons.prems by (intro Index_CRLF) simp
  then have "Split (l @ CRLF @ ?r) CRLF = l # Split ?r CRLF" by (subst Split.simps) simp
  with Cons show ?case by simp
qed

lemma SplitN_length: "length (SplitN s sep n) \<le> n"
  by (induction s sep n rule: SplitN.induct) auto

lemma Join_SplitN: "Join (SplitN s sep (Suc n)) sep = s"
proof (induction n arbitrary: s)
  case (Suc n)
  show ?case
  proof (cases "Index s sep < 0")
    case True
    then show ?thesis by simp
  next
    case False
    have "SplitN (drop (nat (Index s sep) + length sep) s) sep (Suc n) \<noteq> []"
      by (cases n) auto
    then show ?thesis
      using False Suc.IH Index_found [of s sep] by (simp add: Join_Cons)
  qed
qed simp

section \<open>Lemmas: numbers\<close>

lemma of_char_digit_char [simp]: "d < 10 \<Longrightarrow> of_char (digit_char d) = 48 + d"
  by (simp add: digit_char_def of_char_of)

lemma digit_char_0 [simp]: "digit_char 0 = CHR ''0''"
  by code_simp

lemma digit_val_0 [simp]: "digit_val (CHR ''0'') = Some 0"
  by code_simp

lemma digit_val_digit_char [simp]: "d < 10 \<Longrightarrow> digit_val (digit_char d) = Some d"
  by (simp add: digit_val_def less_eq_char_def)

lemma parse_decimal_append:
  "parse_decimal (a @ b) acc =
     (case parse_decimal a acc of None \<Rightarrow> None | Some n \<Rightarrow> parse_decimal b n)"
  by (induction a acc rule: parse_decimal.induct) (auto split: option.splits)

lemma parse_decimal_decimal: "parse_decimal (decimal n) 0 = Some n"
proof (induction n rule: decimal.induct)
  case (1 n)
  show ?case
  proof (cases "n < 10")
    case True
    then show ?thesis by (subst decimal.simps) simp
  next
    case False
    then have "parse_decimal (decimal n) 0 = Some (10 * (n div 10) + n mod 10)"
      using "1.IH" by (subst decimal.simps) (simp add: parse_decimal_append)
    then show ?thesis by simp
  qed
qed

lemma decimal_hd: "\<exists>d cs. decimal n = digit_char d # cs \<and> d < 10"
proof (induction n rule: decimal.induct)
  case (1 n)
  then show ?case
    by (cases "n < 10"; subst decimal.simps; force)
qed

lemma digit_char_no_sign: "d < 10 \<Longrightarrow> digit_char d \<noteq> CHR ''-'' \<and> digit_char d \<noteq> CHR ''+''"
  by (auto dest: arg_cong [where f = "of_char :: char \<Rightarrow> nat"])

lemma Atoi_Itoa:
  assumes "- (2 ^ 63) \<le> v" "v < 2 ^ 63"
  shows "Atoi (Itoa v) = Some v"
proof -
  obtain d cs where "decimal (nat v) = digit_char d # cs" "d < 10"
    using decimal_hd by blast
  moreover obtain e es where "decimal (nat (- v)) = digit_char e # es" "e < 10"
    using decimal_hd by blast
  ultimately show ?thesis
    using assms parse_decimal_decimal [of "nat v"] parse_decimal_decimal [of "nat (- v)"]
      digit_char_no_sign [of d] digit_char_no_sign [of e]
    by (auto simp: Atoi_def Itoa_def Let_def)
qed

lemma Atoi_range: "Atoi s = Some v \<Longrightarrow> - (2 ^ 63) \<le> v \<and> v < 2 ^ 63"
  by (auto simp: Atoi_def Let_def split: if_splits option.splits)

lemma length_hex_byte [simp]: "length (hex_byte b) = 2"
  by (simp add: hex_byte_def)

lemma length_EncodeToString: "length (EncodeToString b) = 2 * length b"
  by (induction b) (auto simp: EncodeToString_def)

lemma decimal_chars: "c \<in> set (decimal n) \<Longrightarrow> \<exists>d < 10. c = digit_char d"
proof (induction n rule: decimal.induct)
  case (1 n)
  then show ?case
    by (cases "n < 10"; subst (asm) decimal.simps) (auto intro: exI [of _ "n mod 10"])
qed

lemma length_decimal_le: "length (decimal n) \<le> max 1 n"
proof (induction n rule: decimal.induct)
  case (1 n)
  then show ?case
    by (cases "n < 10"; subst decimal.simps) auto
qed

lemma length_decimal: "10 ^ k \<le> n \<Longrightarrow> n < 10 ^ Suc k \<Longrightarrow> length (decimal n) = Suc k"
proof (induction k arbitrary: n)
  case 0
  then show ?case by (subst decimal.simps) simp
next
  case (Suc k)
  then have "10 ^ k \<le> n div 10" "n div 10 < 10 ^ Suc k" by auto
  with Suc.IH have "length (decimal (n div 10)) = Suc k" by blast
  moreover have "\<not> n < 10"
    using Suc.prems(1) order_trans [of "10 ^ 1" "10 ^ Suc k" n] by (simp add: self_le_power)
  ultimately show ?case by (subst decimal.simps) simp
qed

lemma len_Itoa_less: "0 \<le> v \<Longrightarrow> v < 2 ^ 60 \<Longrightarrow> len (Itoa v) < 2 ^ 60"
  using length_decimal_le [of "nat v"] by (auto simp: Itoa_def max_def split: if_splits)

lemma Itoa_no_control:
  assumes "(b :: byte) \<in> set (bytes_of (Itoa v))"
  shows "45 \<le> b"
proof -
  from assms obtain c where c: "c \<in> set (Itoa v)" "b = of_char c"
    by (auto simp: bytes_of_def)
  then have "unat b = of_char c" by simp
  moreover have "45 \<le> (of_char c :: nat)"
    using c(1) by (auto simp: Itoa_def split: if_splits dest: decimal_chars)
  ultimately show ?thesis by (simp add: word_le_nat_alt)
qed

end
