(* ===== verification/Event.thy ===== *)
theory Event
  imports GoStrings
begin

text \<open>
  The event envelope of \<^verbatim>\<open>proto/event.go\<close> and its detail structs, as records with the
  source's fields. A \<^verbatim>\<open>map[string]string\<close> is a HOL map (a nil map reads as the empty one), a
  pointer to a detail struct is an option. \<^verbatim>\<open>time.Now().UnixNano()\<close> is the argument \<open>now\<close> of
  \<open>NewEvent\<close>: the wall clock belongs to the environment, and one call of a parser reads one
  value of it.
\<close>

datatype Direction = DirectionUnknown | DirectionRequest | DirectionResponse

record HTTPDetail =
  http_Method :: string
  http_URL :: string
  http_Host :: string
  http_StatusCode :: int
  http_Headers :: "string \<rightharpoonup> string"
  http_ContentType :: string
  http_BodyLength :: int
  http_Body :: bytes
  http_BodyTruncated :: bool

record DNSQuestion =
  dq_Name :: string
  dq_Type :: string
  dq_Class :: string

record DNSAnswer =
  da_Name :: string
  da_Type :: string
  da_Class :: string
  da_TTL :: u32
  da_Data :: string

record DNSDetail =
  dns_TransactionID :: u16
  dns_OpCode :: int
  dns_ResponseCode :: int
  dns_Questions :: "DNSQuestion list"
  dns_Answers :: "DNSAnswer list"

record TLSDetail =
  tls_Version :: string
  tls_CipherSuite :: string
  tls_ServerName :: string
  tls_HandshakeType :: int
  tls_CertificateChain :: "string list"
  tls_ALPNProtocols :: "string list"

record DBDetail =
  db_System :: string
  db_Operation :: string
  db_Statement :: string
  db_Database :: string
  db_Table :: string
  db_ErrorCode :: int
  db_ErrorMsg :: string
  db_Latency :: int
  db_RowCount :: int

record ProtocolEvent =
  ev_TimestampNs :: int
  ev_UID :: string
  ev_SrcIP :: bytes
  ev_DstIP :: bytes
  ev_SrcPort :: u32
  ev_DstPort :: u32
  ev_Protocol :: string
  ev_Direction :: Direction
  ev_Metadata :: "string \<rightharpoonup> string"
  ev_RawExcerpt :: bytes
  ev_HTTPDetail :: "HTTPDetail option"
  ev_DNSDetail :: "DNSDetail option"
  ev_TLSDetail :: "TLSDetail option"
  ev_DBDetail :: "DBDetail option"

definition NewEvent :: "int \<Rightarrow> string \<Rightarrow> Direction \<Rightarrow> ProtocolEvent" where
  "NewEvent now protocol dir =
     \<lparr>ev_TimestampNs = now, ev_UID = [], ev_SrcIP = [], ev_DstIP = [], ev_SrcPort = 0, ev_DstPort = 0,
      ev_Protocol = protocol, ev_Direction = dir, ev_Metadata = Map.empty, ev_RawExcerpt = [],
      ev_HTTPDetail = None, ev_DNSDetail = None, ev_TLSDetail = None, ev_DBDetail = None\<rparr>"

text \<open>The zero value of \<^verbatim>\<open>proto.DBDetail\<close>, the start of every composite literal of it.\<close>

definition zeroDBDetail :: DBDetail where
  "zeroDBDetail = \<lparr>db_System = [], db_Operation = [], db_Statement = [], db_Database = [],
     db_Table = [], db_ErrorCode = 0, db_ErrorMsg = [], db_Latency = 0, db_RowCount = 0\<rparr>"

section \<open>Connection metadata\<close>

text \<open>\<^verbatim>\<open>protocol.ConnMeta\<close>, and the helper that every parser package uses to copy it.\<close>

record ConnMeta =
  cm_SrcIP :: bytes
  cm_DstIP :: bytes
  cm_SrcPort :: u16
  cm_DstPort :: u16
  cm_ConnID :: u64

definition fillMeta :: "ProtocolEvent \<Rightarrow> ConnMeta \<Rightarrow> ProtocolEvent" where
  "fillMeta ev meta =
     ev\<lparr>ev_SrcIP := cm_SrcIP meta, ev_DstIP := cm_DstIP meta,
        ev_SrcPort := ucast (cm_SrcPort meta), ev_DstPort := ucast (cm_DstPort meta)\<rparr>"

text \<open>The direction every stateless parser derives from the side that sent the data.\<close>

definition sideDirection :: "bool \<Rightarrow> Direction" where
  "sideDirection isFromClient = (if isFromClient then DirectionRequest else DirectionResponse)"

text \<open>An event is tagged with a protocol and a connection: the contract of all parsers.\<close>

definition tagged :: "string \<Rightarrow> ConnMeta \<Rightarrow> ProtocolEvent \<Rightarrow> bool" where
  "tagged name meta ev \<longleftrightarrow>
     ev_Protocol ev = name \<and> ev_SrcIP ev = cm_SrcIP meta \<and> ev_DstIP ev = cm_DstIP meta \<and>
     ev_SrcPort ev = ucast (cm_SrcPort meta) \<and> ev_DstPort ev = ucast (cm_DstPort meta)"

text \<open>A connection for concrete instances.\<close>

definition example_meta :: ConnMeta where
  "example_meta = \<lparr>cm_SrcIP = [10, 0, 0, 1], cm_DstIP = [10, 0, 0, 2],
     cm_SrcPort = 40000, cm_DstPort = 6379, cm_ConnID = 1\<rparr>"

lemma tagged_new [simp]: "tagged name meta (fillMeta (NewEvent now name dir) meta)"
  by (simp add: tagged_def fillMeta_def NewEvent_def)

lemma tagged_updates [simp]:
  "tagged name meta (ev\<lparr>ev_Metadata := m\<rparr>) = tagged name meta ev"
  "tagged name meta (ev\<lparr>ev_RawExcerpt := r\<rparr>) = tagged name meta ev"
  "tagged name meta (ev\<lparr>ev_UID := u\<rparr>) = tagged name meta ev"
  "tagged name meta (ev\<lparr>ev_HTTPDetail := h\<rparr>) = tagged name meta ev"
  "tagged name meta (ev\<lparr>ev_DNSDetail := d\<rparr>) = tagged name meta ev"
  "tagged name meta (ev\<lparr>ev_TLSDetail := t\<rparr>) = tagged name meta ev"
  "tagged name meta (ev\<lparr>ev_DBDetail := b\<rparr>) = tagged name meta ev"
  by (simp_all add: tagged_def)

end
