(* ===== verification/Protocol.thy ===== *)
theory Protocol
  imports Event
begin

text \<open>
  The parser interface of \<^verbatim>\<open>internal/protocol/parser.go\<close> and the message loop that five of the
  parsers share.

  \<^item> \<open>Parser\<close> is the interface as a record of its methods. \<open>'s\<close> is the state of the parsers
    (only the HTTP parser has any), threaded through \<open>Parse\<close> and \<open>OnConnClose\<close>; the optional
    interface \<^verbatim>\<open>ConnLifecycleHandler\<close> is the option in \<open>OnConnClose\<close>. \<open>Parse\<close> takes the
    wall clock, the state, the data and the spare capacity behind the data's slice.
  \<^item> The locale \<open>parser_contract\<close> is what the registry and the dispatcher rely on;
    \<open>safe_parser\<close> adds that parsing never panics. Each parser theory interprets one of the two.
  \<^item> \<open>frame_loop\<close> is the loop \<^verbatim>\<open>for len(data) >= h { ... data = data[n:] }\<close>. The locales
    \<open>framing\<close> and \<open>safe_framing\<close> state what one iteration promises and give the lemmas about
    the whole loop: it returns, messages are decoded one after the other, and data that
    arrives later never changes the events already decoded.
\<close>

type_synonym parse_result = "error + ProtocolEvent list"

record 's Parser =
  Name :: string
  Ports :: "u16 list"
  Probe :: "bytes \<Rightarrow> bool \<Rightarrow> int go"
  Parse :: "int \<Rightarrow> 's \<Rightarrow> bytes \<Rightarrow> bytes \<Rightarrow> ConnMeta \<Rightarrow> bool \<Rightarrow> ('s \<times> parse_result) go"
  OnConnClose :: "('s \<Rightarrow> u64 \<Rightarrow> 's) option"

text \<open>A parser without state leaves the state alone.\<close>

definition stateless ::
  "(int \<Rightarrow> bytes \<Rightarrow> bytes \<Rightarrow> ConnMeta \<Rightarrow> bool \<Rightarrow> parse_result go) \<Rightarrow>
     int \<Rightarrow> 's \<Rightarrow> bytes \<Rightarrow> bytes \<Rightarrow> ConnMeta \<Rightarrow> bool \<Rightarrow> ('s \<times> parse_result) go" where
  "stateless f now st data spare meta isFromClient =
     map_option (\<lambda>r. (st, r)) (f now data spare meta isFromClient)"

text \<open>\<^verbatim>\<open>if ev != nil { events = append(events, ev) }\<close>\<close>

definition opt_list :: "'a option \<Rightarrow> 'a list" where
  "opt_list x = (case x of None \<Rightarrow> [] | Some a \<Rightarrow> [a])"

lemma opt_list_simps [simp]: "opt_list None = []" "opt_list (Some a) = [a]"
  by (simp_all add: opt_list_def)

lemma set_opt_list [simp]: "x \<in> set (opt_list y) \<longleftrightarrow> y = Some x"
  by (cases y) auto

locale parser_contract =
  fixes p :: "'s Parser"
  assumes probe_range: "\<exists>s. Probe p data isFromClient = Some s \<and> 0 \<le> s \<and> s \<le> 100"
    and parse_tagged:
      "Parse p now st data spare meta isFromClient = Some (st', Inr evs) \<Longrightarrow> ev \<in> set evs \<Longrightarrow>
         tagged (Name p) meta ev"
begin

lemma probe_returns: "Probe p data isFromClient \<noteq> panic"
  using probe_range by force

end

locale safe_parser = parser_contract +
  assumes parse_returns: "Parse p now st data spare meta isFromClient \<noteq> panic"

text \<open>A stateless parser meets the contract when its parse function does.\<close>

lemma stateless_contract:
  assumes "\<And>d c. returns (Probe p d c) (\<lambda>s. 0 \<le> s \<and> s \<le> 100)"
    and "Parse p = stateless f"
    and "\<And>now d sp m c evs e. f now d sp m c = Some (Inr evs) \<Longrightarrow> e \<in> set evs \<Longrightarrow> tagged (Name p) m e"
  shows "parser_contract p"
  by unfold_locales (use assms in \<open>auto simp: stateless_def intro: returns_ex\<close>)

lemma stateless_safe:
  assumes "\<And>d c. returns (Probe p d c) (\<lambda>s. 0 \<le> s \<and> s \<le> 100)"
    and "Parse p = stateless f"
    and "\<And>now d sp m c. returns (f now d sp m c)
           (\<lambda>r. \<forall>evs. r = Inr evs \<longrightarrow> (\<forall>e \<in> set evs. tagged (Name p) m e))"
  shows "safe_parser p"
proof -
  have "parser_contract p"
    using assms(1,2) by (rule stateless_contract) (use returnsD [OF assms(3)] in blast)
  moreover have "Parse p now st d sp m c \<noteq> panic" for now st d sp m c
    using returns_not_panic [OF assms(3)] by (simp add: assms(2) stateless_def)
  ultimately show ?thesis
    by (simp add: safe_parser_def safe_parser_axioms_def)
qed

section \<open>The message loop\<close>

text \<open>
  \<open>step data\<close> is one iteration: \<^term>\<open>Some None\<close> leaves the loop, \<^term>\<open>Some (Some (es, n))\<close>
  appends the events \<open>es\<close> and continues with \<^verbatim>\<open>data[n:]\<close>. An iteration that consumed
  nothing would run forever and one that consumed too much would panic; both are \<^const>\<open>None\<close>,
  and \<open>framing\<close> excludes them.
\<close>

function frame_loop :: "('a list \<Rightarrow> ('e list \<times> int) option go) \<Rightarrow> 'a list \<Rightarrow> 'e list go" where
  "frame_loop step data =
     (case step data of
        None \<Rightarrow> None
      | Some None \<Rightarrow> Some []
      | Some (Some (es, n)) \<Rightarrow>
          (if 0 < n \<and> n \<le> len data
           then map_option ((@) es) (frame_loop step (drop (nat n) data))
           else None))"
  by pat_completeness auto
termination
  by (relation "measure (\<lambda>(step, data). length data)") auto

declare frame_loop.simps [simp del]

definition frame_events :: "('a list \<Rightarrow> ('e list \<times> int) option go) \<Rightarrow> 'a list \<Rightarrow> 'e list" where
  "frame_events step m = (case step m of Some (Some (es, n)) \<Rightarrow> es | _ \<Rightarrow> [])"

lemma frame_loop_all:
  assumes "frame_loop step data = Some es" "e \<in> set es"
    and "\<And>d es n e. step d = Some (Some (es, n)) \<Longrightarrow> e \<in> set es \<Longrightarrow> P e"
  shows "P e"
  using assms(1,2)
proof (induction "length data" arbitrary: data es rule: less_induct)
  case less
  then obtain o1 where o1: "step data = Some o1"
    by (subst (asm) frame_loop.simps) (auto split: option.splits)
  show ?case
  proof (cases o1)
    case None
    with less.prems o1 show ?thesis by (simp add: frame_loop.simps)
  next
    case (Some a)
    with o1 obtain es1 n where nx: "step data = Some (Some (es1, n))" by (cases a) auto
    with less.prems(1) obtain es2 where n: "0 < n" "n \<le> len data"
      and es: "frame_loop step (drop (nat n) data) = Some es2" "es = es1 @ es2"
      by (subst (asm) frame_loop.simps) (auto split: if_splits)
    have "length (drop (nat n) data) < length data" using n by auto
    then show ?thesis
      using less.hyps [of "drop (nat n) data" es2] es less.prems(2) assms(3) [OF nx] by auto
  qed
qed

locale framing =
  fixes step :: "'a list \<Rightarrow> ('e list \<times> int) option go"
  assumes progress: "step d = Some (Some (es, n)) \<Longrightarrow> 0 < n \<and> n \<le> len d"
    and locality: "step d = Some (Some (es, n)) \<Longrightarrow> step (take (nat n) d @ r) = Some (Some (es, n))"
begin

lemma loop_step:
  assumes "step d = Some (Some (es, n))"
  shows "frame_loop step (d @ r) = map_option ((@) es) (frame_loop step (drop (nat n) d @ r))"
proof -
  from progress [OF assms] have n: "0 < n" "n \<le> len d" by auto
  have "step (take (nat n) d @ (drop (nat n) d @ r)) = Some (Some (es, n))"
    using assms by (rule locality)
  then have "step (d @ r) = Some (Some (es, n))"
    by (metis append.assoc append_take_drop_id)
  then show ?thesis
    using n by (subst frame_loop.simps) simp
qed

lemma loop_message:
  assumes "step m = Some (Some (es, len m))"
  shows "frame_loop step (m @ r) = map_option ((@) es) (frame_loop step r)"
  using loop_step [OF assms, of r] by simp

lemma loop_messages:
  assumes "\<forall>m \<in> set ms. \<exists>es. step m = Some (Some (es, len m))"
  shows "frame_loop step (concat ms @ r) =
    map_option ((@) (concat (map (frame_events step) ms))) (frame_loop step r)"
  using assms
proof (induction ms)
  case Nil
  then show ?case by (cases "frame_loop step r") auto
next
  case (Cons m ms)
  then obtain es where m: "step m = Some (Some (es, len m))" by auto
  have "frame_loop step (concat (m # ms) @ r) =
      map_option ((@) es) (frame_loop step (concat ms @ r))"
    using loop_message [OF m, of "concat ms @ r"] by simp
  with Cons m show ?case
    by (simp add: frame_events_def option.map_comp comp_def)
qed

lemma loop_prefix:
  assumes "frame_loop step d = Some es" "frame_loop step (d @ r) = Some fs"
  shows "prefix es fs"
  using assms
proof (induction "length d" arbitrary: d es fs rule: less_induct)
  case less
  show ?case
  proof (cases "step d")
    case None
    with less.prems(1) show ?thesis by (simp add: frame_loop.simps)
  next
    case (Some o1)
    show ?thesis
    proof (cases o1)
      case None
      with Some less.prems(1) show ?thesis by (simp add: frame_loop.simps)
    next
      case (Some a)
      then obtain es1 n where nx: "step d = Some (Some (es1, n))"
        using \<open>step d = Some o1\<close> by (cases a) auto
      from progress [OF nx] have n: "0 < n" "n \<le> len d" by auto
      have "map_option ((@) es1) (frame_loop step (drop (nat n) d)) = Some es"
        using loop_step [OF nx, of "[]"] less.prems(1) by simp
      then obtain es2 where es2: "frame_loop step (drop (nat n) d) = Some es2" "es = es1 @ es2"
        by blast
      have "map_option ((@) es1) (frame_loop step (drop (nat n) d @ r)) = Some fs"
        using loop_step [OF nx, of r] less.prems(2) by simp
      then obtain fs2 where fs2: "frame_loop step (drop (nat n) d @ r) = Some fs2" "fs = es1 @ fs2"
        by blast
      have "length (drop (nat n) d) < length d" using n by auto
      from less.hyps [OF this es2(1) fs2(1)] show ?thesis by (simp add: es2 fs2)
    qed
  qed
qed

end

locale safe_framing = framing +
  assumes iteration_returns: "step d \<noteq> panic"
begin

lemma loop_returns: "\<exists>es. frame_loop step d = Some es"
proof (induction "length d" arbitrary: d rule: less_induct)
  case less
  obtain o1 where o1: "step d = Some o1" using iteration_returns by blast
  show ?case
  proof (cases o1)
    case None
    with o1 show ?thesis by (simp add: frame_loop.simps)
  next
    case (Some a)
    with o1 obtain es n where nx: "step d = Some (Some (es, n))" by (cases a) auto
    from progress [OF nx] have "length (drop (nat n) d) < length d" by auto
    then obtain fs where "frame_loop step (drop (nat n) d) = Some fs" using less by blast
    then show ?thesis using loop_step [OF nx, of "[]"] by auto
  qed
qed

lemma loop_ok:
  assumes "\<And>d. returns (step d) (\<lambda>r. \<forall>es n. r = Some (es, n) \<longrightarrow> (\<forall>e \<in> set es. P e))"
  shows "returns (frame_loop step d) (\<lambda>es. \<forall>e \<in> set es. P e)"
proof -
  obtain es where es: "frame_loop step d = Some es"
    using loop_returns by blast
  have "P e" if "e \<in> set es" for e
    using es that by (rule frame_loop_all) (use returnsD [OF assms] in blast)
  with es show ?thesis
    by (simp add: wp)
qed

lemma loop_extends:
  assumes "frame_loop step d = Some es"
  shows "\<exists>fs. frame_loop step (d @ r) = Some (es @ fs)"
proof -
  obtain gs where "frame_loop step (d @ r) = Some gs" using loop_returns by blast
  with loop_prefix [OF assms] show ?thesis by (auto simp: prefix_def)
qed

end

end
