(* ===== verification/Registry.thy ===== *)
theory Registry
  imports Protocol
begin

text \<open>
  The parser registry (\<^verbatim>\<open>internal/protocol/registry.go\<close>): registration under the declared ports,
  resolution of a parser by port and probe score, and the fan-out of connection-close
  notifications. A nil \<^verbatim>\<open>Parser\<close> is \<^const>\<open>None\<close>. A \<^verbatim>\<open>Probe\<close> may panic as far as the
  registry knows, so resolution runs in the \<open>go\<close> type; the parsers' contract excludes it.
\<close>

record 's Registry =
  byPort :: "u16 \<rightharpoonup> 's Parser list"
  all :: "'s Parser list"

definition NewRegistry :: "'s Registry" where
  "NewRegistry = \<lparr>byPort = Map.empty, all = []\<rparr>"

text \<open>Reading a Go map at an absent key gives the nil slice.\<close>

definition portParsers :: "'s Registry \<Rightarrow> u16 \<Rightarrow> 's Parser list" where
  "portParsers r port = (case byPort r port of None \<Rightarrow> [] | Some ps \<Rightarrow> ps)"

definition addPort :: "'s Parser \<Rightarrow> u16 \<Rightarrow> 's Registry \<Rightarrow> 's Registry" where
  "addPort p port r = r\<lparr>byPort := (byPort r)(port \<mapsto> portParsers r port @ [p])\<rparr>"

definition Register :: "'s Parser \<Rightarrow> 's Registry \<Rightarrow> 's Registry" where
  "Register p r = fold (addPort p) (Ports p) (r\<lparr>all := all r @ [p]\<rparr>)"

fun probe_loop ::
  "'s Parser list \<Rightarrow> bytes \<Rightarrow> bool \<Rightarrow> 's Parser option \<Rightarrow> int \<Rightarrow> 's Parser option go" where
  "probe_loop [] sample isFromClient best bestScore = Some best"
| "probe_loop (p # ps) sample isFromClient best bestScore = do {
     s \<leftarrow> Probe p sample isFromClient;
     if bestScore < s then probe_loop ps sample isFromClient (Some p) s
     else probe_loop ps sample isFromClient best bestScore }"

definition bestProbe :: "'s Parser list \<Rightarrow> bytes \<Rightarrow> bool \<Rightarrow> 's Parser option go" where
  "bestProbe parsers sample isFromClient = probe_loop parsers sample isFromClient None 0"

definition Resolve ::
  "'s Registry \<Rightarrow> u16 \<Rightarrow> u16 \<Rightarrow> bytes \<Rightarrow> bool \<Rightarrow> 's Parser option go" where
  "Resolve r srcPort dstPort sample isFromClient =
     (let candidates = portParsers r dstPort
      in if len candidates = 1 then map_option Some (go_index candidates 0)
         else if 1 < len candidates then bestProbe candidates sample isFromClient
         else let candidates = portParsers r srcPort
         in if len candidates = 1 then map_option Some (go_index candidates 0)
            else if 1 < len candidates then bestProbe candidates sample isFromClient
            else bestProbe (all r) sample isFromClient)"

text \<open>Each handler changes the state of its own parser; the state type holds them all.\<close>

definition NotifyClose :: "'s Registry \<Rightarrow> u64 \<Rightarrow> 's \<Rightarrow> 's" where
  "NotifyClose r connID st =
     fold (\<lambda>p s. case OnConnClose p of None \<Rightarrow> s | Some h \<Rightarrow> h s connID) (all r) st"

section \<open>Lemmas\<close>

text \<open>The port index lists exactly the registered parsers that declare the port, in order.\<close>

definition registry_wf :: "'s Registry \<Rightarrow> bool" where
  "registry_wf r \<longleftrightarrow>
     (\<forall>port. portParsers r port = concat (map (\<lambda>p. replicate (count_list (Ports p) port) p) (all r)))"

lemma addPort_simps [simp]:
  "all (addPort p port r) = all r"
  "portParsers (addPort p port r) q = portParsers r q @ (if q = port then [p] else [])"
  by (auto simp: addPort_def portParsers_def)

lemma fold_addPort:
  "all (fold (addPort p) ports r) = all r"
  "portParsers (fold (addPort p) ports r) q = portParsers r q @ replicate (count_list ports q) p"
  by (induction ports arbitrary: r) (auto simp: replicate_app_Cons_same)

lemma all_Register [simp]: "all (Register p r) = all r @ [p]"
  by (simp add: Register_def fold_addPort)

lemma portParsers_all [simp]: "portParsers (r\<lparr>all := ps\<rparr>) q = portParsers r q"
  by (simp add: portParsers_def)

lemma registry_wf_New: "registry_wf NewRegistry"
  by (simp add: registry_wf_def NewRegistry_def portParsers_def)

lemma registry_wf_Register: "registry_wf r \<Longrightarrow> registry_wf (Register p r)"
  by (simp add: registry_wf_def Register_def fold_addPort)

lemma registry_wf_build: "registry_wf r \<Longrightarrow> registry_wf (fold Register ps r)"
  by (induction ps arbitrary: r) (auto intro: registry_wf_Register)

lemma all_build: "all (fold Register ps r) = all r @ ps"
  by (induction ps arbitrary: r) auto

lemma portParsers_registered: "registry_wf r \<Longrightarrow> set (portParsers r port) \<subseteq> set (all r)"
  by (auto simp: registry_wf_def)

definition score :: "'s Parser \<Rightarrow> bytes \<Rightarrow> bool \<Rightarrow> int" where
  "score p sample c = the (Probe p sample c)"

text \<open>
  What the loop has found after a prefix of the parsers: the first parser with the highest score,
  or none if no score is positive.
\<close>

definition first_best :: "'s Parser list \<Rightarrow> bytes \<Rightarrow> bool \<Rightarrow> 's Parser option \<Rightarrow> bool" where
  "first_best ps sample c best =
     (case best of
        None \<Rightarrow> (\<forall>q \<in> set ps. score q sample c \<le> 0)
      | Some p \<Rightarrow> (\<exists>l r. ps = l @ p # r \<and> 0 < score p sample c \<and>
          (\<forall>q \<in> set l. score q sample c < score p sample c) \<and>
          (\<forall>q \<in> set r. score q sample c \<le> score p sample c)))"

lemma first_best_snoc:
  assumes "first_best seen sample c best"
    and "bs = (case best of None \<Rightarrow> 0 | Some p \<Rightarrow> score p sample c)"
  shows "first_best (seen @ [q]) sample c (if bs < score q sample c then Some q else best)"
proof (cases "bs < score q sample c")
  case True
  have "\<forall>x \<in> set seen. score x sample c < score q sample c"
    using assms True by (cases best) (force simp: first_best_def)+
  moreover have "0 < score q sample c"
    using assms True by (cases best) (force simp: first_best_def)+
  ultimately show ?thesis
    using True by (simp add: first_best_def) (rule exI [of _ "seen"], auto)
next
  case False
  show ?thesis
  proof (cases best)
    case None
    with assms False show ?thesis by (auto simp: first_best_def)
  next
    case (Some p)
    with assms(1) obtain l r where "seen = l @ p # r" "0 < score p sample c"
      "\<forall>q \<in> set l. score q sample c < score p sample c"
      "\<forall>q \<in> set r. score q sample c \<le> score p sample c"
      by (auto simp: first_best_def)
    then have "seen @ [q] = l @ p # (r @ [q]) \<and> 0 < score p sample c \<and>
        (\<forall>q \<in> set l. score q sample c < score p sample c) \<and>
        (\<forall>q \<in> set (r @ [q]). score q sample c \<le> score p sample c)"
      using assms(2) False Some by auto
    then show ?thesis using False Some by (simp only: first_best_def option.case if_False) blast
  qed
qed

lemma probe_loop_first_best:
  assumes "\<forall>p \<in> set ps. \<exists>s. Probe p sample c = Some s"
    and "first_best seen sample c best"
    and "bs = (case best of None \<Rightarrow> 0 | Some p \<Rightarrow> score p sample c)"
  shows "\<exists>b. probe_loop ps sample c best bs = Some b \<and> first_best (seen @ ps) sample c b"
  using assms
proof (induction ps arbitrary: seen best bs)
  case (Cons q ps)
  then obtain s where s: "Probe q sample c = Some s" "score q sample c = s"
    by (auto simp: score_def)
  from Cons.IH [OF _ first_best_snoc [OF Cons.prems(2,3), of q]] Cons.prems s show ?case
    by auto
qed simp

lemma bestProbe_first_best:
  assumes "\<forall>p \<in> set ps. \<exists>s. Probe p sample c = Some s"
  shows "\<exists>b. bestProbe ps sample c = Some b \<and> first_best ps sample c b"
  using probe_loop_first_best [OF assms, of "[]" None 0] by (simp add: bestProbe_def first_best_def)

lemma first_best_mem: "first_best ps sample c (Some p) \<Longrightarrow> p \<in> set ps"
  by (auto simp: first_best_def)

text \<open>
  The candidates of a connection: the parsers registered for the destination port, else those for the
  source port.
\<close>

definition port_candidates :: "'s Registry \<Rightarrow> u16 \<Rightarrow> u16 \<Rightarrow> 's Parser list" where
  "port_candidates r srcPort dstPort =
     (if portParsers r dstPort \<noteq> [] then portParsers r dstPort else portParsers r srcPort)"

lemma Resolve_candidates:
  "Resolve r srcPort dstPort sample c =
     (let ps = port_candidates r srcPort dstPort
      in if length ps = 1 then Some (Some (hd ps))
         else bestProbe (if ps = [] then all r else ps) sample c)"
  by (cases "portParsers r dstPort"; cases "tl (portParsers r dstPort)";
      cases "portParsers r srcPort"; cases "tl (portParsers r srcPort)")
    (auto simp: Resolve_def port_candidates_def Let_def go_index_def)

lemma port_candidates_registered:
  "registry_wf r \<Longrightarrow> set (port_candidates r srcPort dstPort) \<subseteq> set (all r)"
  using portParsers_registered by (auto simp: port_candidates_def)

lemma Resolve_returns:
  assumes "registry_wf r" "\<forall>p \<in> set (all r). \<exists>s. Probe p sample c = Some s"
  shows "\<exists>b. Resolve r srcPort dstPort sample c = Some b \<and>
    (let ps = port_candidates r srcPort dstPort
     in if length ps = 1 then b = Some (hd ps)
        else first_best (if ps = [] then all r else ps) sample c b)"
proof -
  let ?ps = "port_candidates r srcPort dstPort"
  have "\<forall>p \<in> set (if ?ps = [] then all r else ?ps). \<exists>s. Probe p sample c = Some s"
    using assms port_candidates_registered [OF assms(1), of srcPort dstPort] by auto
  from bestProbe_first_best [OF this] show ?thesis
    by (auto simp: Resolve_candidates Let_def)
qed

lemma Resolve_registered:
  assumes "registry_wf r" "\<forall>p \<in> set (all r). \<exists>s. Probe p sample c = Some s"
    and "Resolve r srcPort dstPort sample c = Some (Some p)"
  shows "p \<in> set (all r)"
proof -
  let ?ps = "port_candidates r srcPort dstPort"
  have sub: "set ?ps \<subseteq> set (all r)" using assms(1) by (rule port_candidates_registered)
  show ?thesis
  proof (cases "length ?ps = 1")
    case True
    with assms(3) have "p = hd ?ps" by (simp add: Resolve_candidates)
    moreover have "hd ?ps \<in> set ?ps" using True by (cases ?ps) auto
    ultimately show ?thesis using sub by blast
  next
    case False
    with Resolve_returns [OF assms(1,2), of srcPort dstPort] assms(3)
    have "first_best (if ?ps = [] then all r else ?ps) sample c (Some p)"
      by (auto simp: Let_def)
    then show ?thesis using first_best_mem sub by (fastforce split: if_splits)
  qed
qed

section \<open>The abstract registry\<close>

text \<open>
  What the registry promises, without the port index and the running maximum: a registry is the list of
  the parsers registered; the candidates under a port are those that declare it; the best parser is
  the first whose score is positive and not exceeded by any other.
\<close>

definition declaring :: "'s Parser list \<Rightarrow> u16 \<Rightarrow> 's Parser list" where
  "declaring ps port = filter (\<lambda>p. port \<in> set (Ports p)) ps"

definition best_parser :: "'s Parser list \<Rightarrow> bytes \<Rightarrow> bool \<Rightarrow> 's Parser option" where
  "best_parser ps sample c =
     find (\<lambda>p. 0 < score p sample c \<and> (\<forall>q \<in> set ps. score q sample c \<le> score p sample c)) ps"

definition resolve_spec :: "'s Parser list \<Rightarrow> u16 \<Rightarrow> u16 \<Rightarrow> bytes \<Rightarrow> bool \<Rightarrow> 's Parser option" where
  "resolve_spec ps srcPort dstPort sample c =
     (let cs = (if declaring ps dstPort \<noteq> [] then declaring ps dstPort else declaring ps srcPort)
      in case cs of
           [] \<Rightarrow> best_parser ps sample c
         | [p] \<Rightarrow> Some p
         | _ \<Rightarrow> best_parser cs sample c)"

definition registry_parser_ok :: "bytes \<Rightarrow> bool \<Rightarrow> 's Parser \<Rightarrow> bool" where
  "registry_parser_ok sample c p \<longleftrightarrow> distinct (Ports p) \<and> Probe p sample c \<noteq> panic"

lemma find_first: "ps = l @ p # r \<Longrightarrow> P p \<Longrightarrow> (\<And>q. q \<in> set l \<Longrightarrow> \<not> P q) \<Longrightarrow> find P ps = Some p"
  by (induction l arbitrary: ps) auto

lemma first_best_parser: "first_best ps sample c b \<Longrightarrow> b = best_parser ps sample c"
proof (cases b)
  case None
  assume "first_best ps sample c b"
  with None have "\<forall>p \<in> set ps. \<not> 0 < score p sample c" by (auto simp: first_best_def)
  then have "best_parser ps sample c = None" by (auto simp: best_parser_def find_None_iff)
  with None show ?thesis by simp
next
  case (Some p)
  assume "first_best ps sample c b"
  with Some obtain l r where ps: "ps = l @ p # r" "0 < score p sample c"
    "\<forall>q \<in> set l. score q sample c < score p sample c" "\<forall>q \<in> set r. score q sample c \<le> score p sample c"
    by (auto simp: first_best_def)
  have "best_parser ps sample c = Some p"
    unfolding best_parser_def using ps by (intro find_first [OF ps(1)]) fastforce+
  with Some show ?thesis by simp
qed

lemma portParsers_declaring:
  assumes "\<forall>p \<in> set ps. distinct (Ports p)"
  shows "portParsers (fold Register ps NewRegistry) port = declaring ps port"
proof -
  have "concat (map (\<lambda>p. replicate (count_list (Ports p) port) p) ps) = declaring ps port"
    using assms
  proof (induction ps)
    case (Cons p ps)
    have "count_list (Ports p) port = (if port \<in> set (Ports p) then 1 else 0)"
      using Cons.prems by (simp add: count_list_distinct)
    with Cons show ?case by (simp add: declaring_def)
  qed (simp add: declaring_def)
  then show ?thesis
    using registry_wf_build [OF registry_wf_New, of ps] all_build [of ps NewRegistry]
    by (simp add: registry_wf_def NewRegistry_def)
qed

lemma Resolve_spec:
  assumes "\<forall>p \<in> set ps. registry_parser_ok sample c p"
  shows "Resolve (fold Register ps NewRegistry) srcPort dstPort sample c = Some (resolve_spec ps srcPort dstPort sample c)"
proof -
  let ?r = "fold Register ps NewRegistry"
  let ?cs = "if declaring ps dstPort \<noteq> [] then declaring ps dstPort else declaring ps srcPort"
  have all: "all ?r = ps" by (simp add: all_build NewRegistry_def)
  have cs: "port_candidates ?r srcPort dstPort = ?cs"
    using assms by (simp add: port_candidates_def portParsers_declaring registry_parser_ok_def)
  have probes: "\<forall>p \<in> set (all ?r). \<exists>s. Probe p sample c = Some s"
    using assms by (simp add: all registry_parser_ok_def)
  obtain b where b: "Resolve ?r srcPort dstPort sample c = Some b"
    and spec: "if length ?cs = 1 then b = Some (hd ?cs) else first_best (if ?cs = [] then ps else ?cs) sample c b"
    using Resolve_returns [OF registry_wf_build [OF registry_wf_New] probes, of srcPort dstPort]
    unfolding cs Let_def all by blast
  have "b = resolve_spec ps srcPort dstPort sample c"
    using spec first_best_parser unfolding resolve_spec_def Let_def
    by (cases ?cs; cases "tl ?cs") (force simp: first_best_parser)+
  with b show ?thesis by simp
qed

section \<open>Properties\<close>

text \<open>
  Registration builds the port index exactly: after any sequence of \<^verbatim>\<open>Register\<close> calls on a new
  registry, the parsers found under a port are those that declare it, in registration order, once
  per declaration, and the list of all parsers is the sequence of the calls.
\<close>

lemma Register_index:
  "all (fold Register ps NewRegistry) = ps \<and>
   portParsers (fold Register ps NewRegistry) port =
     concat (map (\<lambda>p. replicate (count_list (Ports p) port) p) ps)"
  using registry_wf_build [OF registry_wf_New, of ps] all_build [of ps NewRegistry]
  by (simp add: registry_wf_def NewRegistry_def)

text \<open>
  Resolution is correct and total when the probes return. Let the candidates be the parsers of the
  destination port, or of the source port if there are none. A single candidate is chosen whatever the
  payload; otherwise the choice is the first parser with the highest positive probe score among the
  candidates (among all parsers if there are no candidates), and nil exactly if no score is positive.
  The chosen parser is always a registered one.
\<close>

lemma Resolve_correct:
  assumes "registry_wf r" "\<forall>p \<in> set (all r). \<exists>s. Probe p sample c = Some s"
  shows "\<exists>b. Resolve r srcPort dstPort sample c = Some b \<and>
    (let ps = port_candidates r srcPort dstPort
     in if length ps = 1 then b = Some (hd ps)
        else first_best (if ps = [] then all r else ps) sample c b) \<and>
    set_option b \<subseteq> set (all r)"
  using Resolve_returns [OF assms, of srcPort dstPort] Resolve_registered [OF assms, of srcPort dstPort]
  by fastforce

text \<open>
  C17: The registry implements its specification: however parsers are registered, resolving a connection
  gives exactly what \<open>resolve_spec\<close> says of the list of registered parsers. A single parser that declares the
  destination port (or, if none does, the source port) is chosen whatever the payload; several are
  decided by the first highest positive probe score among them; with none, all parsers are probed.
\<close>

theorem Resolve_refines:
  assumes "\<forall>p \<in> set ps. distinct (Ports p) \<and> Probe p sample c \<noteq> panic"
  shows "Resolve (fold Register ps NewRegistry) srcPort dstPort sample c = Some (resolve_spec ps srcPort dstPort sample c)"
  using assms by (intro Resolve_spec) (simp add: registry_parser_ok_def)

end
