(* ===== verification/Decode.thy ===== *)
theory Decode
  imports Prelude
begin

text \<open>
  The decode stage (\<^verbatim>\<open>internal/decode/decoder.go\<close>) and the packet type of
  \<^verbatim>\<open>internal/capture/capture.go\<close>. gopacket's \<^verbatim>\<open>DecodingLayerParser\<close> is not part of the
  repository: it is the parameter \<open>decodeLayers\<close>, which maps the worker's layer variables and the
  bytes of a packet to the updated variables and either an error or the list of decoded
  layers. The layer variables are reused between packets, as in the source. A slice that the source
  compares with nil (\<^verbatim>\<open>Payload\<close>) is an option.
\<close>

section \<open>Data\<close>

record Packet =
  pkt_Data :: bytes
  pkt_Timestamp :: int
  pkt_CaptureLen :: int
  pkt_OrigLen :: int

record TCPFlags =
  SYN :: bool
  ACK :: bool
  FIN :: bool
  RST :: bool
  PSH :: bool

text \<open>The fields of gopacket's layer structs that the worker reads.\<close>

record TCPLayer =
  tcp_SrcPort :: u16
  tcp_DstPort :: u16
  tcp_Flags :: TCPFlags
  tcp_Payload :: "bytes option"

record Layers =
  lay_ip4 :: "bytes \<times> bytes"
  lay_ip6 :: "bytes \<times> bytes"
  lay_tcp :: TCPLayer
  lay_udp :: "u16 \<times> u16 \<times> bytes option"
  lay_payload :: "bytes option"

datatype LayerType =
  LayerTypeEthernet | LayerTypeIPv4 | LayerTypeIPv6 | LayerTypeTCP | LayerTypeUDP | LayerTypePayload

record DecodedPacket =
  dp_Timestamp :: int
  dp_SrcIP :: bytes
  dp_DstIP :: bytes
  dp_SrcPort :: u16
  dp_DstPort :: u16
  dp_TransProto :: byte
  dp_TCPFlags :: TCPFlags
  dp_Payload :: "bytes option"
  dp_TCP :: "TCPLayer option"
  dp_RawPacket :: bytes

record DecoderConfig =
  dec_Workers :: int
  dec_ChannelBuffer :: int

section \<open>Operations\<close>

definition Decoder_New :: "DecoderConfig \<Rightarrow> DecoderConfig" where
  "Decoder_New cfg =
     (let cfg = (if dec_Workers cfg \<le> 0 then cfg\<lparr>dec_Workers := 1\<rparr> else cfg)
      in if dec_ChannelBuffer cfg \<le> 0 then cfg\<lparr>dec_ChannelBuffer := 4096\<rparr> else cfg)"

text \<open>The composite literal at the start of an iteration, other fields at their zero value.\<close>

definition newDecoded :: "Packet \<Rightarrow> DecodedPacket" where
  "newDecoded pkt =
     \<lparr>dp_Timestamp = pkt_Timestamp pkt, dp_SrcIP = [], dp_DstIP = [], dp_SrcPort = 0, dp_DstPort = 0,
      dp_TransProto = 0, dp_TCPFlags = \<lparr>SYN = False, ACK = False, FIN = False, RST = False, PSH = False\<rparr>,
      dp_Payload = None, dp_TCP = None, dp_RawPacket = pkt_Data pkt\<rparr>"

text \<open>The body of the loop over the decoded layers: the packet, \<^verbatim>\<open>hasIP\<close> and \<^verbatim>\<open>hasTransport\<close>.\<close>

fun apply_layer ::
  "Layers \<Rightarrow> LayerType \<Rightarrow> DecodedPacket \<times> bool \<times> bool \<Rightarrow> DecodedPacket \<times> bool \<times> bool" where
  "apply_layer lay LayerTypeIPv4 (dp, hasIP, hasTransport) =
     (dp\<lparr>dp_SrcIP := fst (lay_ip4 lay), dp_DstIP := snd (lay_ip4 lay)\<rparr>, True, hasTransport)"
| "apply_layer lay LayerTypeIPv6 (dp, hasIP, hasTransport) =
     (dp\<lparr>dp_SrcIP := fst (lay_ip6 lay), dp_DstIP := snd (lay_ip6 lay)\<rparr>, True, hasTransport)"
| "apply_layer lay LayerTypeTCP (dp, hasIP, hasTransport) =
     (dp\<lparr>dp_SrcPort := tcp_SrcPort (lay_tcp lay), dp_DstPort := tcp_DstPort (lay_tcp lay),
         dp_TransProto := 6, dp_TCPFlags := tcp_Flags (lay_tcp lay),
         dp_TCP := Some (lay_tcp lay), dp_Payload := tcp_Payload (lay_tcp lay)\<rparr>, hasIP, True)"
| "apply_layer lay LayerTypeUDP (dp, hasIP, hasTransport) =
     (case lay_udp lay of (sport, dport, payload) \<Rightarrow>
        (dp\<lparr>dp_SrcPort := sport, dp_DstPort := dport, dp_TransProto := 17,
            dp_Payload := payload\<rparr>, hasIP, True))"
| "apply_layer lay LayerTypePayload (dp, hasIP, hasTransport) =
     ((if dp_Payload dp = None then dp\<lparr>dp_Payload := lay_payload lay\<rparr> else dp), hasIP, hasTransport)"
| "apply_layer lay LayerTypeEthernet st = st"

definition decode_packet :: "Layers \<Rightarrow> LayerType list \<Rightarrow> Packet \<Rightarrow> DecodedPacket option" where
  "decode_packet lay decoded pkt =
     (case fold (apply_layer lay) decoded (newDecoded pkt, False, False) of
        (dp, hasIP, hasTransport) \<Rightarrow> if \<not> hasIP \<or> \<not> hasTransport then None else Some dp)"

text \<open>
  One worker, run until its input channel is closed: the packets it forwards, in order.
  The send blocks until the consumer takes the packet. A cancelled context ends the loop after some
  prefix of the input.
\<close>

fun decodeWorker ::
  "(Layers \<Rightarrow> bytes \<Rightarrow> Layers \<times> (error + LayerType list)) \<Rightarrow> Layers \<Rightarrow> Packet list \<Rightarrow>
     DecodedPacket list" where
  "decodeWorker decodeLayers lay [] = []"
| "decodeWorker decodeLayers lay (pkt # pkts) =
     (case decodeLayers lay (pkt_Data pkt) of
        (lay', Inl err) \<Rightarrow> decodeWorker decodeLayers lay' pkts
      | (lay', Inr decoded) \<Rightarrow>
          (case decode_packet lay' decoded pkt of
             None \<Rightarrow> decodeWorker decodeLayers lay' pkts
           | Some dp \<Rightarrow> dp # decodeWorker decodeLayers lay' pkts))"

section \<open>Lemmas\<close>

lemma fold_apply_layer_flags:
  "snd (fold (apply_layer lay) ls (dp, i, t)) =
     (i \<or> LayerTypeIPv4 \<in> set ls \<or> LayerTypeIPv6 \<in> set ls,
      t \<or> LayerTypeTCP \<in> set ls \<or> LayerTypeUDP \<in> set ls)"
proof (induction ls arbitrary: dp i t)
  case (Cons l ls)
  show ?case by (cases l) (auto simp: Cons.IH split: prod.splits)
qed simp

text \<open>What every layer keeps: the time stamp and the raw bytes, and that TCP data marks a TCP packet.\<close>

lemma fold_apply_layer_inv:
  assumes "dp_TransProto dp = 6 \<longrightarrow> dp_TCP dp \<noteq> None" "dp_TransProto dp \<in> {6, 17} \<or> \<not> tr"
    and "fold (apply_layer lay) ls (dp, i, tr) = (dp', i', tr')"
  shows "dp_Timestamp dp' = dp_Timestamp dp \<and> dp_RawPacket dp' = dp_RawPacket dp \<and>
    (dp_TransProto dp' \<in> {6, 17} \<or> \<not> tr') \<and> (dp_TransProto dp' = 6 \<longrightarrow> dp_TCP dp' \<noteq> None) \<and>
    (dp_TCP dp' \<noteq> None \<longleftrightarrow> dp_TCP dp \<noteq> None \<or> LayerTypeTCP \<in> set ls)"
  using assms
proof (induction ls arbitrary: dp i tr)
  case (Cons l ls)
  obtain dp1 i1 t1 where st: "apply_layer lay l (dp, i, tr) = (dp1, i1, t1)"
    using prod_cases3 by blast
  have "dp_TransProto dp1 = 6 \<longrightarrow> dp_TCP dp1 \<noteq> None" "dp_TransProto dp1 \<in> {6, 17} \<or> \<not> t1"
    "dp_Timestamp dp1 = dp_Timestamp dp" "dp_RawPacket dp1 = dp_RawPacket dp"
    "dp_TCP dp1 \<noteq> None \<longleftrightarrow> dp_TCP dp \<noteq> None \<or> l = LayerTypeTCP"
    using st Cons.prems(1,2) by (cases l; auto split: prod.splits if_splits)+
  then show ?case
    using Cons.IH [of dp1 t1 i1] Cons.prems(3) st by auto
qed simp

definition decoded_wf :: "DecodedPacket \<Rightarrow> bool" where
  "decoded_wf dp \<longleftrightarrow> dp_TransProto dp \<in> {6, 17} \<and> (dp_TransProto dp = 6 \<longrightarrow> dp_TCP dp \<noteq> None)"

lemma decode_packet_Some:
  "decode_packet lay ls pkt = Some dp \<Longrightarrow>
     decoded_wf dp \<and> dp_Timestamp dp = pkt_Timestamp pkt \<and> dp_RawPacket dp = pkt_Data pkt \<and>
     (dp_TCP dp \<noteq> None \<longleftrightarrow> LayerTypeTCP \<in> set ls)"
  using fold_apply_layer_inv [of "newDecoded pkt" False lay ls False]
  by (auto simp: decode_packet_def newDecoded_def decoded_wf_def split: prod.splits if_splits)

lemma decode_packet_None_iff:
  "decode_packet lay ls pkt = None \<longleftrightarrow>
     (LayerTypeIPv4 \<notin> set ls \<and> LayerTypeIPv6 \<notin> set ls) \<or> (LayerTypeTCP \<notin> set ls \<and> LayerTypeUDP \<notin> set ls)"
  using fold_apply_layer_flags [of lay ls "newDecoded pkt" False False]
  by (auto simp: decode_packet_def split: prod.splits)

text \<open>What gopacket makes of each packet of a worker's input, the layer variables threaded through.\<close>

fun layer_results ::
  "(Layers \<Rightarrow> bytes \<Rightarrow> Layers \<times> (error + LayerType list)) \<Rightarrow> Layers \<Rightarrow> Packet list \<Rightarrow>
     (Packet \<times> (error + LayerType list)) list" where
  "layer_results decodeLayers lay [] = []"
| "layer_results decodeLayers lay (pkt # pkts) =
     (case decodeLayers lay (pkt_Data pkt) of (lay', r) \<Rightarrow> (pkt, r) # layer_results decodeLayers lay' pkts)"

definition ip_transport :: "error + LayerType list \<Rightarrow> bool" where
  "ip_transport r =
     (case r of
        Inl err \<Rightarrow> False
      | Inr ls \<Rightarrow> (LayerTypeIPv4 \<in> set ls \<or> LayerTypeIPv6 \<in> set ls) \<and> (LayerTypeTCP \<in> set ls \<or> LayerTypeUDP \<in> set ls))"

lemma decodeWorker_forwards:
  "map (\<lambda>dp. (dp_Timestamp dp, dp_RawPacket dp)) (decodeWorker decodeLayers lay pkts) =
     map (\<lambda>(pkt, r). (pkt_Timestamp pkt, pkt_Data pkt)) (filter (ip_transport \<circ> snd) (layer_results decodeLayers lay pkts))"
proof (induction pkts arbitrary: lay)
  case (Cons pkt pkts)
  obtain lay' r where d: "decodeLayers lay (pkt_Data pkt) = (lay', r)" by fastforce
  show ?case
  proof (cases r)
    case (Inl err)
    with d Cons.IH show ?thesis by (simp add: ip_transport_def)
  next
    case (Inr ls)
    show ?thesis
    proof (cases "decode_packet lay' ls pkt")
      case None
      with d Inr Cons.IH decode_packet_None_iff [of lay' ls pkt] show ?thesis by (auto simp: ip_transport_def)
    next
      case (Some dp)
      then have "decode_packet lay' ls pkt \<noteq> None" by simp
      with d Inr Cons.IH decode_packet_None_iff [of lay' ls pkt] decode_packet_Some [OF Some] Some show ?thesis
        by (auto simp: ip_transport_def)
    qed
  qed
qed simp

lemma decodeWorker_wf: "list_all decoded_wf (decodeWorker decodeLayers lay pkts)"
proof (induction pkts arbitrary: lay)
  case (Cons pkt pkts)
  then show ?case using decode_packet_Some by (auto split: prod.splits sum.splits option.splits)
qed simp

section \<open>Properties\<close>

text \<open>
  C34: A decode worker forwards exactly the packets in which gopacket decodes an IP and a transport layer, in
  their order, and drops all others. A forwarded packet keeps its time stamp and raw bytes, is
  marked as TCP or UDP, and holds the TCP header if it is marked as TCP.
\<close>

theorem decodeWorker_exact:
  "map (\<lambda>dp. (dp_Timestamp dp, dp_RawPacket dp)) (decodeWorker decodeLayers lay pkts) =
     map (\<lambda>(pkt, r). (pkt_Timestamp pkt, pkt_Data pkt)) (filter (ip_transport \<circ> snd) (layer_results decodeLayers lay pkts)) \<and>
   list_all (\<lambda>dp. dp_TransProto dp = 6 \<and> (\<exists>tcp. dp_TCP dp = Some tcp) \<or> dp_TransProto dp = 17)
     (decodeWorker decodeLayers lay pkts)"
  using decodeWorker_forwards [of decodeLayers lay pkts] decodeWorker_wf [of decodeLayers lay pkts]
  by (auto simp: decoded_wf_def list_all_iff)

end
