(* ===== verification/Reassembly.thy ===== *)
theory Reassembly
  imports Decode
begin

text \<open>
  The TCP reassembly stage (\<^verbatim>\<open>internal/reassembly/stream.go\<close> and \<^verbatim>\<open>tcp.go\<close>).

  gopacket's reassembly engine is not part of the repository. It is the parameter \<open>engine\<close>: an
  operation of the engine maps the engine's state to a new state and the list of the callbacks
  it makes, in order. A callback creates a stream (\<^verbatim>\<open>streamFactory.New\<close>), delivers ordered
  bytes (\<^verbatim>\<open>ReassembledSG\<close>) or ends a stream (\<^verbatim>\<open>ReassemblyComplete\<close>); the model of the
  handlers is below. The text of an address (\<open>endpointString\<close>) and the hash of a flow (\<open>FastHash\<close>) are
  gopacket's too. All callbacks run under the reassembler's mutex, so they are a sequence.

  The output is a Go channel of fixed capacity with non-blocking sends. \<open>link\<close> holds how many messages
  it buffers and, as a history, every send that was attempted with its outcome.
\<close>

section \<open>Data\<close>

record Flow =
  flow_Src :: bytes
  flow_Dst :: bytes

record gopacket =
  endpointString :: "bytes \<Rightarrow> string"
  FastHash :: "Flow \<Rightarrow> u64"

record StreamMeta =
  sm_SrcIP :: string
  sm_DstIP :: string
  sm_SrcPort :: u16
  sm_DstPort :: u16
  sm_ConnID :: u64

record StreamData =
  sd_Net :: Flow
  sd_Transport :: Flow
  sd_Data :: bytes
  sd_IsClient :: bool
  sd_Timestamp :: int
  sd_ConnMeta :: StreamMeta
  sd_Closed :: bool

record biStream =
  bs_net :: Flow
  bs_transport :: Flow
  bs_connID :: u64
  clientBuf :: bytes
  serverBuf :: bytes

record link =
  capacity :: nat
  buffered :: nat
  attempts :: "(StreamData \<times> bool) list"

definition maxBufferSize :: int where
  "maxBufferSize = 256 * 1024"

section \<open>The stream callbacks\<close>

text \<open>\<^verbatim>\<open>select { case output <- x: default: ... }\<close>\<close>

definition try_send :: "StreamData \<Rightarrow> link \<Rightarrow> link" where
  "try_send x l =
     (if buffered l < capacity l
      then l\<lparr>buffered := buffered l + 1, attempts := attempts l @ [(x, True)]\<rparr>
      else l\<lparr>attempts := attempts l @ [(x, False)]\<rparr>)"

definition stream_New :: "gopacket \<Rightarrow> Flow \<Rightarrow> Flow \<Rightarrow> biStream" where
  "stream_New G netFlow tcpFlow =
     \<lparr>bs_net = netFlow, bs_transport = tcpFlow, bs_connID = FastHash G netFlow XOR FastHash G tcpFlow,
      clientBuf = [], serverBuf = []\<rparr>"

definition raw_port :: "bytes \<Rightarrow> u16 go" where
  "raw_port raw = (if 2 \<le> len raw then be16 raw else Some 0)"

definition extractPorts :: "Flow \<Rightarrow> (u16 \<times> u16) go" where
  "extractPorts f = do { src \<leftarrow> raw_port (flow_Src f); dst \<leftarrow> raw_port (flow_Dst f); Some (src, dst) }"

definition streamMeta :: "gopacket \<Rightarrow> biStream \<Rightarrow> u16 \<times> u16 \<Rightarrow> StreamMeta" where
  "streamMeta G s ports =
     \<lparr>sm_SrcIP = endpointString G (flow_Src (bs_net s)), sm_DstIP = endpointString G (flow_Dst (bs_net s)),
      sm_SrcPort = fst ports, sm_DstPort = snd ports, sm_ConnID = bs_connID s\<rparr>"

definition direction_buf :: "bool \<Rightarrow> biStream \<Rightarrow> bytes" where
  "direction_buf isClient s = (if isClient then clientBuf s else serverBuf s)"

definition set_buf :: "bool \<Rightarrow> bytes \<Rightarrow> biStream \<Rightarrow> biStream" where
  "set_buf isClient b s = (if isClient then s\<lparr>clientBuf := b\<rparr> else s\<lparr>serverBuf := b\<rparr>)"

text \<open>\<open>ts\<close> is the time stamp of the assembler context, absent when the context is nil.\<close>

definition flushDirectionLocked ::
  "gopacket \<Rightarrow> bool \<Rightarrow> int option \<Rightarrow> biStream \<Rightarrow> link \<Rightarrow> (biStream \<times> link) go" where
  "flushDirectionLocked G isClient ts s l =
     (if len (direction_buf isClient s) = 0 then Some (s, l)
      else do {
        let payload = direction_buf isClient s;
        let s = set_buf isClient [] s;
        ports \<leftarrow> extractPorts (bs_transport s);
        let sd = \<lparr>sd_Net = bs_net s, sd_Transport = bs_transport s, sd_Data = payload,
                  sd_IsClient = isClient, sd_Timestamp = case_option 0 id ts,
                  sd_ConnMeta = streamMeta G s ports, sd_Closed = False\<rparr>;
        Some (s, try_send sd l) })"

definition emitCloseLocked :: "gopacket \<Rightarrow> biStream \<Rightarrow> link \<Rightarrow> link go" where
  "emitCloseLocked G s l = do {
     ports \<leftarrow> extractPorts (bs_transport s);
     let msg = \<lparr>sd_Net = bs_net s, sd_Transport = bs_transport s, sd_Data = [], sd_IsClient = False,
                sd_Timestamp = 0, sd_ConnMeta = streamMeta G s ports, sd_Closed = True\<rparr>;
     Some (try_send msg l) }"

definition ReassembledSG ::
  "gopacket \<Rightarrow> bytes \<Rightarrow> bool \<Rightarrow> int option \<Rightarrow> biStream \<Rightarrow> link \<Rightarrow> (biStream \<times> link) go" where
  "ReassembledSG G data isClient ts s l =
     (if len data = 0 then Some (s, l)
      else let s = set_buf isClient (direction_buf isClient s @ data) s
      in if maxBufferSize \<le> len (direction_buf isClient s)
         then flushDirectionLocked G isClient ts s l
         else Some (s, l))"

definition ReassemblyComplete ::
  "gopacket \<Rightarrow> int option \<Rightarrow> biStream \<Rightarrow> link \<Rightarrow> (biStream \<times> link \<times> bool) go" where
  "ReassemblyComplete G ts s l = do {
     (s, l) \<leftarrow> (if 0 < len (clientBuf s) then flushDirectionLocked G True ts s l else Some (s, l));
     (s, l) \<leftarrow> (if 0 < len (serverBuf s) then flushDirectionLocked G False ts s l else Some (s, l));
     l \<leftarrow> emitCloseLocked G s l;
     Some (s, l, False) }"

text \<open>\<^verbatim>\<open>Accept\<close> accepts every packet and, when told where, clears the start flag.\<close>

definition Accept :: "bool option \<Rightarrow> bool option \<times> bool" where
  "Accept start = (map_option (\<lambda>_. False) start, True)"

section \<open>The stage\<close>

datatype callback = NewStream Flow Flow | SG nat bytes bool "int option" | Complete nat "int option"

record 'e engine =
  AssembleWithContext :: "'e \<Rightarrow> Flow \<Rightarrow> TCPLayer \<Rightarrow> int \<Rightarrow> 'e \<times> callback list"
  FlushCloseOlderThan :: "'e \<Rightarrow> int \<Rightarrow> 'e \<times> callback list"
  FlushAll :: "'e \<Rightarrow> 'e \<times> callback list"

record 'e Reassembler =
  engineState :: 'e
  streams :: "biStream list"
  out :: link

record ReassemblyConfig =
  rc_MaxBufferedPagesPerConn :: int
  rc_MaxBufferedPagesTotal :: int
  rc_ConnectionTimeout :: int
  rc_MaxConnectionAge :: int
  rc_FlushInterval :: int
  rc_ChannelBuffer :: int

text \<open>
  A callback names its stream by the position at which it was created. A callback on a stream
  that was never created does nothing; the engine makes none.
\<close>

definition on_stream ::
  "nat \<Rightarrow> (biStream \<Rightarrow> link \<Rightarrow> (biStream \<times> link) go) \<Rightarrow> 'e Reassembler \<Rightarrow> 'e Reassembler go" where
  "on_stream i f r =
     (if i < length (streams r) then do {
        (s, l) \<leftarrow> f (streams r ! i) (out r);
        Some (r\<lparr>streams := (streams r)[i := s], out := l\<rparr>) }
      else Some r)"

fun run_callback :: "gopacket \<Rightarrow> callback \<Rightarrow> 'e Reassembler \<Rightarrow> 'e Reassembler go" where
  "run_callback G (NewStream netFlow tcpFlow) r =
     Some (r\<lparr>streams := streams r @ [stream_New G netFlow tcpFlow]\<rparr>)"
| "run_callback G (SG i data isClient ts) r = on_stream i (ReassembledSG G data isClient ts) r"
| "run_callback G (Complete i ts) r =
     on_stream i (\<lambda>s l. map_option (\<lambda>(s, l, _). (s, l)) (ReassemblyComplete G ts s l)) r"

fun run_callbacks :: "gopacket \<Rightarrow> callback list \<Rightarrow> 'e Reassembler \<Rightarrow> 'e Reassembler go" where
  "run_callbacks G [] r = Some r"
| "run_callbacks G (c # cs) r = Option.bind (run_callback G c r) (run_callbacks G cs)"

text \<open>
  \<open>newAssembler total perConn\<close> is the engine's fresh state; the two arguments are the limits that
  \<^verbatim>\<open>New\<close> sets on it, \<^const>\<open>None\<close> where it leaves the engine's own default.
\<close>

definition Reassembler_New ::
  "ReassemblyConfig \<Rightarrow> (int option \<Rightarrow> int option \<Rightarrow> 'e) \<Rightarrow> 'e Reassembler" where
  "Reassembler_New cfg newAssembler =
     \<lparr>engineState = newAssembler
        (if 0 < rc_MaxBufferedPagesTotal cfg then Some (rc_MaxBufferedPagesTotal cfg) else None)
        (if 0 < rc_MaxBufferedPagesPerConn cfg then Some (rc_MaxBufferedPagesPerConn cfg) else None),
      streams = [],
      out = \<lparr>capacity = nat (if rc_ChannelBuffer cfg \<le> 0 then 4096 else rc_ChannelBuffer cfg),
             buffered = 0, attempts = []\<rparr>\<rparr>"

definition flushInterval :: "ReassemblyConfig \<Rightarrow> int" where
  "flushInterval cfg = (if rc_FlushInterval cfg \<le> 0 then 30 * 10 ^ 9 else rc_FlushInterval cfg)"

definition engine_call ::
  "gopacket \<Rightarrow> ('e \<Rightarrow> 'e \<times> callback list) \<Rightarrow> 'e Reassembler \<Rightarrow> 'e Reassembler go" where
  "engine_call G f r =
     (case f (engineState r) of (e, cs) \<Rightarrow> run_callbacks G cs (r\<lparr>engineState := e\<rparr>))"

definition feedPacket ::
  "gopacket \<Rightarrow> 'e engine \<Rightarrow> DecodedPacket \<Rightarrow> TCPLayer \<Rightarrow> 'e Reassembler \<Rightarrow> 'e Reassembler go" where
  "feedPacket G E pkt tcp r =
     (let netFlow = \<lparr>flow_Src = dp_SrcIP pkt, flow_Dst = dp_DstIP pkt\<rparr>
      in engine_call G (\<lambda>e. AssembleWithContext E e netFlow tcp (dp_Timestamp pkt)) r)"

definition flushOlderThan ::
  "gopacket \<Rightarrow> 'e engine \<Rightarrow> int \<Rightarrow> int \<Rightarrow> 'e Reassembler \<Rightarrow> 'e Reassembler go" where
  "flushOlderThan G E now d r = engine_call G (\<lambda>e. FlushCloseOlderThan E e (now - d)) r"

text \<open>
  What the loop of \<^verbatim>\<open>run\<close> selects, and what the dispatcher does on the other side of the
  channel: a packet arrives, the ticker fires, the consumer takes one message. \<^verbatim>\<open>Stop\<close> flushes.
\<close>

datatype reassembler_event = PacketIn DecodedPacket | Tick int | Consume | StopFlush

fun reassembler_step ::
  "gopacket \<Rightarrow> 'e engine \<Rightarrow> ReassemblyConfig \<Rightarrow> reassembler_event \<Rightarrow> 'e Reassembler \<Rightarrow> 'e Reassembler go" where
  "reassembler_step G E cfg (PacketIn pkt) r =
     (case dp_TCP pkt of None \<Rightarrow> Some r | Some tcp \<Rightarrow> feedPacket G E pkt tcp r)"
| "reassembler_step G E cfg (Tick now) r = flushOlderThan G E now (rc_ConnectionTimeout cfg) r"
| "reassembler_step G E cfg Consume r = Some (r\<lparr>out := (out r)\<lparr>buffered := buffered (out r) - 1\<rparr>\<rparr>)"
| "reassembler_step G E cfg StopFlush r = engine_call G (FlushAll E) r"

fun reassembler_run ::
  "gopacket \<Rightarrow> 'e engine \<Rightarrow> ReassemblyConfig \<Rightarrow> reassembler_event list \<Rightarrow> 'e Reassembler \<Rightarrow>
     'e Reassembler go" where
  "reassembler_run G E cfg [] r = Some r"
| "reassembler_run G E cfg (ev # evs) r =
     Option.bind (reassembler_step G E cfg ev r) (reassembler_run G E cfg evs)"

section \<open>Lemmas: streams\<close>

text \<open>The bytes of one direction in a sequence of send attempts.\<close>

definition attempted :: "bool \<Rightarrow> (StreamData \<times> bool) list \<Rightarrow> bytes" where
  "attempted c xs =
     concat (map (\<lambda>(sd, ok). if sd_IsClient sd = c \<and> \<not> sd_Closed sd then sd_Data sd else []) xs)"

lemma attempted_simps [simp]:
  "attempted c [] = []" "attempted c (xs @ ys) = attempted c xs @ attempted c ys"
  "attempted c (x # xs) =
     (if sd_IsClient (fst x) = c \<and> \<not> sd_Closed (fst x) then sd_Data (fst x) else []) @ attempted c xs"
  by (auto simp: attempted_def split: prod.splits)

lemma buf_simps [simp]:
  "direction_buf c (set_buf c b s) = b"
  "c \<noteq> c' \<Longrightarrow> direction_buf c (set_buf c' b s) = direction_buf c s"
  "bs_net (set_buf c b s) = bs_net s" "bs_transport (set_buf c b s) = bs_transport s"
  "bs_connID (set_buf c b s) = bs_connID s"
  by (auto simp: direction_buf_def set_buf_def)

lemma extractPorts_returns: "\<exists>ports. extractPorts f = Some ports"
  by (auto simp: extractPorts_def raw_port_def go_safe)

lemma try_send_simps:
  "\<exists>ok. attempts (try_send x l) = attempts l @ [(x, ok)]"
  "capacity (try_send x l) = capacity l"
  "buffered l \<le> capacity l \<Longrightarrow> buffered (try_send x l) \<le> capacity l"
  by (auto simp: try_send_def)

text \<open>What a handler keeps of the flows of its stream, and the form of every message.\<close>

definition well_formed_message :: "gopacket \<Rightarrow> StreamData \<Rightarrow> bool" where
  "well_formed_message G sd \<longleftrightarrow>
     (sd_Closed sd \<longleftrightarrow> sd_Data sd = []) \<and>
     sm_ConnID (sd_ConnMeta sd) = FastHash G (sd_Net sd) XOR FastHash G (sd_Transport sd) \<and>
     sm_SrcIP (sd_ConnMeta sd) = endpointString G (flow_Src (sd_Net sd)) \<and>
     sm_DstIP (sd_ConnMeta sd) = endpointString G (flow_Dst (sd_Net sd)) \<and>
     extractPorts (sd_Transport sd) = Some (sm_SrcPort (sd_ConnMeta sd), sm_DstPort (sd_ConnMeta sd))"

definition conn_ok :: "gopacket \<Rightarrow> biStream \<Rightarrow> bool" where
  "conn_ok G s \<longleftrightarrow> bs_connID s = FastHash G (bs_net s) XOR FastHash G (bs_transport s)"

lemma flush_spec:
  "\<exists>s' l' new. flushDirectionLocked G c ts s l = Some (s', l') \<and>
     s' = set_buf c [] s \<and> attempts l' = attempts l @ new \<and> capacity l' = capacity l \<and>
     (buffered l \<le> capacity l \<longrightarrow> buffered l' \<le> capacity l') \<and>
     (\<forall>x \<in> set new. \<not> sd_Closed (fst x) \<and> (conn_ok G s \<longrightarrow> well_formed_message G (fst x))) \<and>
     attempted c new = direction_buf c s \<and> attempted (\<not> c) new = []"
proof (cases "direction_buf c s = []")
  case True
  then have "set_buf c [] s = s"
    by (cases s) (auto simp: set_buf_def direction_buf_def split: if_splits)
  with True show ?thesis by (simp add: flushDirectionLocked_def)
next
  case False
  obtain ports where p: "extractPorts (bs_transport s) = Some ports"
    using extractPorts_returns by blast
  obtain a b where "ports = (a, b)" by (cases ports)
  with False p show ?thesis
    using try_send_simps(1) [of "\<lparr>sd_Net = bs_net s, sd_Transport = bs_transport s,
        sd_Data = direction_buf c s, sd_IsClient = c, sd_Timestamp = case_option 0 id ts,
        sd_ConnMeta = streamMeta G (set_buf c [] s) ports, sd_Closed = False\<rparr>" l]
    by (fastforce simp: flushDirectionLocked_def try_send_simps conn_ok_def well_formed_message_def
        streamMeta_def)
qed

lemma ReassembledSG_spec:
  "\<exists>s' l' new. ReassembledSG G data c ts s l = Some (s', l') \<and> attempts l' = attempts l @ new \<and>
     capacity l' = capacity l \<and> (buffered l \<le> capacity l \<longrightarrow> buffered l' \<le> capacity l') \<and>
     (\<forall>x \<in> set new. \<not> sd_Closed (fst x) \<and> (conn_ok G s \<longrightarrow> well_formed_message G (fst x))) \<and>
     (conn_ok G s \<longrightarrow> conn_ok G s') \<and>
     (\<forall>d. attempted d new @ direction_buf d s' = direction_buf d s @ (if d = c then data else [])) \<and>
     ((\<forall>d. len (direction_buf d s) < maxBufferSize) \<longrightarrow> (\<forall>d. len (direction_buf d s') < maxBufferSize))"
proof -
  let ?s = "set_buf c (direction_buf c s @ data) s"
  have other: "direction_buf d ?s = direction_buf d s" if "d \<noteq> c" for d using that by simp
  show ?thesis
  proof (cases "data \<noteq> [] \<and> maxBufferSize \<le> len (direction_buf c ?s)")
    case True
    from flush_spec [of G c ts ?s l] obtain s' l' new where f:
      "flushDirectionLocked G c ts ?s l = Some (s', l')" "s' = set_buf c [] ?s"
      "attempts l' = attempts l @ new" "capacity l' = capacity l"
      "buffered l \<le> capacity l \<longrightarrow> buffered l' \<le> capacity l'"
      "\<forall>x \<in> set new. \<not> sd_Closed (fst x) \<and> (conn_ok G ?s \<longrightarrow> well_formed_message G (fst x))"
      "attempted c new = direction_buf c ?s" "attempted (\<not> c) new = []"
      by blast
    have "conn_ok G ?s = conn_ok G s" "conn_ok G s' = conn_ok G s" using f(2) by (simp_all add: conn_ok_def)
    moreover have "attempted d new @ direction_buf d s' = direction_buf d s @ (if d = c then data else [])" for d
      using f(2,7,8) by (cases "d = c") (auto simp: other)
    moreover have "len (direction_buf d s') < maxBufferSize" if "\<forall>d. len (direction_buf d s) < maxBufferSize" for d
      using that f(2) by (cases "d = c") (auto simp: maxBufferSize_def)
    moreover have "ReassembledSG G data c ts s l = Some (s', l')"
      using True f(1) by (simp add: ReassembledSG_def)
    ultimately show ?thesis using f(3-6) by auto
  next
    case False
    have "direction_buf d ?s = direction_buf d s @ (if d = c then data else [])" for d
      by (cases "d = c") (auto simp: other)
    with False show ?thesis
      by (auto simp: ReassembledSG_def conn_ok_def set_buf_def intro: exI)
  qed
qed

lemma guarded_flush:
  "(if 0 < len (direction_buf c s) then flushDirectionLocked G c ts s l else Some (s, l)) =
     flushDirectionLocked G c ts s l"
  by (simp add: flushDirectionLocked_def)

lemma ReassemblyComplete_spec:
  "\<exists>s' l' new msg ok. ReassemblyComplete G ts s l = Some (s', l', False) \<and>
     attempts l' = attempts l @ new @ [(msg, ok)] \<and> capacity l' = capacity l \<and>
     (buffered l \<le> capacity l \<longrightarrow> buffered l' \<le> capacity l') \<and>
     (\<forall>x \<in> set new. \<not> sd_Closed (fst x) \<and> (conn_ok G s \<longrightarrow> well_formed_message G (fst x))) \<and>
     sd_Closed msg \<and> sm_ConnID (sd_ConnMeta msg) = bs_connID s \<and>
     (conn_ok G s \<longrightarrow> well_formed_message G msg \<and> conn_ok G s') \<and>
     (\<forall>d. attempted d new = direction_buf d s \<and> direction_buf d s' = [])"
proof -
  from flush_spec [of G True ts s l] obtain s1 l1 new1 where f1:
    "flushDirectionLocked G True ts s l = Some (s1, l1)" "s1 = set_buf True [] s"
    "attempts l1 = attempts l @ new1" "capacity l1 = capacity l"
    "buffered l \<le> capacity l \<longrightarrow> buffered l1 \<le> capacity l1"
    "\<forall>x \<in> set new1. \<not> sd_Closed (fst x) \<and> (conn_ok G s \<longrightarrow> well_formed_message G (fst x))"
    "attempted True new1 = direction_buf True s" "attempted False new1 = []"
    by auto
  from flush_spec [of G False ts s1 l1] obtain s2 l2 new2 where f2:
    "flushDirectionLocked G False ts s1 l1 = Some (s2, l2)" "s2 = set_buf False [] s1"
    "attempts l2 = attempts l1 @ new2" "capacity l2 = capacity l1"
    "buffered l1 \<le> capacity l1 \<longrightarrow> buffered l2 \<le> capacity l2"
    "\<forall>x \<in> set new2. \<not> sd_Closed (fst x) \<and> (conn_ok G s1 \<longrightarrow> well_formed_message G (fst x))"
    "attempted False new2 = direction_buf False s1" "attempted True new2 = []"
    by auto
  have c: "conn_ok G s1 = conn_ok G s" "conn_ok G s2 = conn_ok G s" "bs_connID s2 = bs_connID s"
    using f1(2) f2(2) by (simp_all add: conn_ok_def)
  obtain a b where p: "extractPorts (bs_transport s2) = Some (a, b)"
    using extractPorts_returns [of "bs_transport s2"] by auto
  let ?msg = "\<lparr>sd_Net = bs_net s2, sd_Transport = bs_transport s2, sd_Data = [], sd_IsClient = False,
      sd_Timestamp = 0, sd_ConnMeta = streamMeta G s2 (a, b), sd_Closed = True\<rparr>"
  obtain ok where ok: "attempts (try_send ?msg l2) = attempts l2 @ [(?msg, ok)]"
    using try_send_simps(1) by blast
  have run: "ReassemblyComplete G ts s l = Some (s2, try_send ?msg l2, False)"
    using f1(1) f2(1) guarded_flush [of True s G ts l] guarded_flush [of False s1 G ts l1]
    by (simp add: ReassemblyComplete_def emitCloseLocked_def p direction_buf_def)
  have wf: "conn_ok G s \<longrightarrow> well_formed_message G ?msg"
    using f1(2) f2(2) p by (simp add: well_formed_message_def conn_ok_def streamMeta_def)
  have d: "attempted d (new1 @ new2) = direction_buf d s \<and> direction_buf d s2 = []" for d
    using f1(2,7,8) f2(2,7,8) by (cases d) simp_all
  show ?thesis
    using run ok wf d c f1(3-6) f2(3-6) try_send_simps(2) [of ?msg l2] try_send_simps(3) [of l2 ?msg]
    by (intro exI [of _ s2] exI [of _ "try_send ?msg l2"] exI [of _ "new1 @ new2"] exI [of _ ?msg] exI [of _ ok])
      (auto simp: streamMeta_def try_send_simps(2))
qed

section \<open>The stage keeps what its callbacks keep\<close>

text \<open>
  The contract between the engine and the handlers: an invariant of streams and of the output channel
  that every callback and the consumer keep is an invariant of the whole stage, whatever the
  engine does.
\<close>

locale callback_contract =
  fixes G :: gopacket and I :: "biStream \<Rightarrow> bool" and J :: "link \<Rightarrow> bool"
  assumes new_stream: "I (stream_New G netFlow tcpFlow)"
    and segment: "I s \<Longrightarrow> J l \<Longrightarrow> returns (ReassembledSG G data c ts s l) (\<lambda>(s', l'). I s' \<and> J l')"
    and completed: "I s \<Longrightarrow> J l \<Longrightarrow> returns (ReassemblyComplete G ts s l) (\<lambda>(s', l', _). I s' \<and> J l')"
    and consumed: "J l \<Longrightarrow> J (l\<lparr>buffered := buffered l - 1\<rparr>)"
begin

definition stage_inv :: "'e Reassembler \<Rightarrow> bool" where
  "stage_inv r \<longleftrightarrow> list_all I (streams r) \<and> J (out r)"

lemma on_stream_inv:
  assumes "stage_inv r" "\<And>s l. I s \<Longrightarrow> J l \<Longrightarrow> returns (f s l) (\<lambda>(s', l'). I s' \<and> J l')"
  shows "returns (on_stream i f r) stage_inv"
proof (cases "i < length (streams r)")
  case True
  with assms have "returns (f (streams r ! i) (out r)) (\<lambda>(s', l'). I s' \<and> J l')"
    by (auto simp: stage_inv_def list_all_length)
  from returns_mono [OF this] True assms(1) show ?thesis
    by (auto simp: on_stream_def wp stage_inv_def list_all_length nth_list_update)
qed (use assms in \<open>simp add: on_stream_def wp\<close>)

lemma run_callback_inv: "stage_inv r \<Longrightarrow> returns (run_callback G c r) stage_inv"
proof (cases c)
  case (NewStream netFlow tcpFlow)
  assume "stage_inv r"
  with NewStream new_stream show ?thesis by (simp add: wp stage_inv_def)
next
  case (SG i data d ts)
  assume "stage_inv r"
  with SG segment show ?thesis by (simp add: on_stream_inv)
next
  case (Complete i ts)
  assume "stage_inv r"
  then show ?thesis
    using Complete by (auto simp: wp intro!: on_stream_inv returns_mono [OF completed])
qed

lemma run_callbacks_inv: "stage_inv r \<Longrightarrow> returns (run_callbacks G cs r) stage_inv"
  by (induction cs arbitrary: r) (auto simp: wp intro!: returns_mono [OF run_callback_inv])

lemma engine_call_inv: "stage_inv r \<Longrightarrow> returns (engine_call G f r) stage_inv"
proof -
  assume "stage_inv r"
  then have "stage_inv (r\<lparr>engineState := e\<rparr>)" for e by (simp add: stage_inv_def)
  then show ?thesis by (simp add: engine_call_def run_callbacks_inv split: prod.split)
qed

lemma step_inv: "stage_inv r \<Longrightarrow> returns (reassembler_step G E cfg ev r) stage_inv"
  by (cases ev)
    (auto simp: wp feedPacket_def flushOlderThan_def engine_call_inv split: option.splits
      dest: consumed simp: stage_inv_def [of "r\<lparr>out := _\<rparr>"] stage_inv_def [of r])

lemma run_inv: "stage_inv r \<Longrightarrow> returns (reassembler_run G E cfg evs r) stage_inv"
  by (induction evs arbitrary: r) (auto simp: wp intro!: returns_mono [OF step_inv])

end

definition bounded :: "biStream \<Rightarrow> bool" where
  "bounded s \<longleftrightarrow> len (clientBuf s) < maxBufferSize \<and> len (serverBuf s) < maxBufferSize"

definition room :: "link \<Rightarrow> bool" where
  "room l \<longleftrightarrow> buffered l \<le> capacity l"

lemma bounded_iff: "bounded s \<longleftrightarrow> (\<forall>d. len (direction_buf d s) < maxBufferSize)"
  by (auto simp: bounded_def direction_buf_def)

interpretation memory: callback_contract G bounded room for G
proof
  fix s l data c ts
  assume "bounded s" "room l"
  with ReassembledSG_spec [of G data c ts s l]
  show "returns (ReassembledSG G data c ts s l) (\<lambda>(s', l'). bounded s' \<and> room l')"
    by (auto simp: wp bounded_iff room_def)
next
  fix s l ts
  assume "bounded s" "room l"
  with ReassemblyComplete_spec [of G ts s l]
  show "returns (ReassemblyComplete G ts s l) (\<lambda>(s', l', _). bounded s' \<and> room l')"
    by (auto simp: wp bounded_iff room_def maxBufferSize_def)
qed (simp_all add: bounded_def stream_New_def maxBufferSize_def room_def)

definition messages_ok :: "gopacket \<Rightarrow> link \<Rightarrow> bool" where
  "messages_ok G l \<longleftrightarrow> list_all (\<lambda>x. well_formed_message G (fst x)) (attempts l)"

interpretation messages: callback_contract G "conn_ok G" "messages_ok G" for G
proof
  fix s l data c ts
  assume "conn_ok G s" "messages_ok G l"
  with ReassembledSG_spec [of G data c ts s l]
  show "returns (ReassembledSG G data c ts s l) (\<lambda>(s', l'). conn_ok G s' \<and> messages_ok G l')"
    by (auto simp: wp messages_ok_def list_all_iff)
next
  fix s l ts
  assume "conn_ok G s" "messages_ok G l"
  with ReassemblyComplete_spec [of G ts s l]
  show "returns (ReassemblyComplete G ts s l) (\<lambda>(s', l', _). conn_ok G s' \<and> messages_ok G l')"
    by (auto simp: wp messages_ok_def list_all_iff)
qed (simp_all add: conn_ok_def stream_New_def messages_ok_def)

section \<open>One connection\<close>

text \<open>
  The life of a stream before its completion: segments of either direction, and messages taken by the
  consumer.
\<close>

datatype stream_event = Segment bytes bool "int option" | Taken

fun stream_run ::
  "gopacket \<Rightarrow> stream_event list \<Rightarrow> biStream \<Rightarrow> link \<Rightarrow> (biStream \<times> link) go" where
  "stream_run G [] s l = Some (s, l)"
| "stream_run G (Segment data c ts # evs) s l = do {
     (s, l) \<leftarrow> ReassembledSG G data c ts s l;
     stream_run G evs s l }"
| "stream_run G (Taken # evs) s l = stream_run G evs s (l\<lparr>buffered := buffered l - 1\<rparr>)"

definition segment_bytes :: "bool \<Rightarrow> stream_event list \<Rightarrow> bytes" where
  "segment_bytes d evs =
     concat (map (\<lambda>ev. case ev of Segment data c ts \<Rightarrow> if c = d then data else [] | Taken \<Rightarrow> []) evs)"

text \<open>How many messages the consumer takes in a run.\<close>

definition takes :: "stream_event list \<Rightarrow> nat" where
  "takes evs = length (filter (\<lambda>ev. ev = Taken) evs)"

text \<open>
  The sends on a channel of capacity \<open>n\<close>, seen from their history: one fails only after \<open>n\<close> others have been accepted, and
  the channel accepts no more than \<open>n\<close> messages besides those that were taken (\<open>k\<close> bounds their number).
\<close>

definition sends_ok :: "nat \<Rightarrow> nat \<Rightarrow> (StreamData \<times> bool) list \<Rightarrow> bool" where
  "sends_ok n k xs \<longleftrightarrow>
     (\<forall>i < length xs. snd (xs ! i) \<or> n \<le> length (filter snd (take i xs))) \<and> length (filter snd xs) \<le> n + k"

definition link_inv :: "nat \<Rightarrow> nat \<Rightarrow> link \<Rightarrow> bool" where
  "link_inv n k l \<longleftrightarrow> capacity l = n \<and> buffered l \<le> n \<and> buffered l \<le> length (filter snd (attempts l)) \<and>
     length (filter snd (attempts l)) \<le> buffered l + k \<and> sends_ok n k (attempts l)"

lemma link_inv_send: "link_inv n k l \<Longrightarrow> link_inv n k (try_send x l)"
  by (auto simp: link_inv_def sends_ok_def try_send_def nth_append less_Suc_eq)

lemma link_inv_taken: "link_inv n k l \<Longrightarrow> link_inv n (Suc k) (l\<lparr>buffered := buffered l - 1\<rparr>)"
  by (auto simp: link_inv_def sends_ok_def)

text \<open>The callbacks use the channel through \<open>try_send\<close> only.\<close>

lemma flush_link: "flushDirectionLocked G c ts s l = Some (s', l') \<Longrightarrow> link_inv n k l \<Longrightarrow> link_inv n k l'"
  by (auto simp: flushDirectionLocked_def Let_def bind_eq_Some_conv link_inv_send split: if_splits)

lemma ReassembledSG_link: "ReassembledSG G data c ts s l = Some (s', l') \<Longrightarrow> link_inv n k l \<Longrightarrow> link_inv n k l'"
  by (auto simp: ReassembledSG_def Let_def split: if_splits elim: flush_link)

lemma ReassemblyComplete_link:
  "ReassemblyComplete G ts s l = Some (s', l', b) \<Longrightarrow> link_inv n k l \<Longrightarrow> link_inv n k l'"
  by (auto simp: ReassemblyComplete_def emitCloseLocked_def bind_eq_Some_conv Let_def link_inv_send
      split: if_splits dest!: flush_link [where n = n and k = k])

lemma stream_run_link:
  "stream_run G evs s l = Some (s', l') \<Longrightarrow> link_inv n k l \<Longrightarrow> link_inv n (k + takes evs) l'"
proof (induction G evs s l arbitrary: k rule: stream_run.induct)
  case (2 G data c ts evs s l)
  from "2.prems"(1) obtain s1 l1 where sg: "ReassembledSG G data c ts s l = Some (s1, l1)"
    and run: "stream_run G evs s1 l1 = Some (s', l')" by (auto simp: bind_eq_Some_conv)
  from "2.IH" [OF sg refl run ReassembledSG_link [OF sg "2.prems"(2)]] show ?case by (simp add: takes_def)
next
  case (3 G evs s l)
  from "3.IH" [of "Suc k"] "3.prems" link_inv_taken [of n k l] show ?case by (auto simp: takes_def)
qed (simp add: takes_def)

lemma stream_run_spec:
  "\<exists>s' l' new. stream_run G evs s l = Some (s', l') \<and> attempts l' = attempts l @ new \<and>
     (\<forall>x \<in> set new. \<not> sd_Closed (fst x)) \<and> bs_connID s' = bs_connID s \<and>
     (\<forall>d. attempted d new @ direction_buf d s' = direction_buf d s @ segment_bytes d evs)"
proof (induction evs arbitrary: s l)
  case Nil
  then show ?case by (simp add: segment_bytes_def)
next
  case (Cons ev evs)
  show ?case
  proof (cases ev)
    case (Segment data c ts)
    from ReassembledSG_spec [of G data c ts s l] obtain s1 l1 new1 where sg:
      "ReassembledSG G data c ts s l = Some (s1, l1)" "attempts l1 = attempts l @ new1"
      "\<forall>x \<in> set new1. \<not> sd_Closed (fst x)"
      "\<And>d. attempted d new1 @ direction_buf d s1 = direction_buf d s @ (if d = c then data else [])"
      by blast
    have "bs_connID s1 = bs_connID s"
      using sg(1) flush_spec
      by (auto simp: ReassembledSG_def flushDirectionLocked_def Let_def bind_eq_Some_conv split: if_splits)
    moreover obtain s2 l2 new2 where r:
      "stream_run G evs s1 l1 = Some (s2, l2)" "attempts l2 = attempts l1 @ new2"
      "\<forall>x \<in> set new2. \<not> sd_Closed (fst x)" "bs_connID s2 = bs_connID s1"
      "\<And>d. attempted d new2 @ direction_buf d s2 = direction_buf d s1 @ segment_bytes d evs"
      using Cons.IH [of s1 l1] by blast
    moreover have "attempted d (new1 @ new2) @ direction_buf d s2 =
        direction_buf d s @ segment_bytes d (ev # evs)" for d
    proof -
      have "attempted d (new1 @ new2) @ direction_buf d s2 =
          (attempted d new1 @ direction_buf d s1) @ segment_bytes d evs"
        by (simp add: r(5))
      then show ?thesis by (simp add: sg(4) Segment segment_bytes_def)
    qed
    ultimately show ?thesis using sg Segment by auto
  next
    case Taken
    with Cons.IH [of s "l\<lparr>buffered := buffered l - 1\<rparr>"] show ?thesis
      by (auto simp: segment_bytes_def)
  qed
qed

section \<open>Properties\<close>

definition idle_link :: "nat \<Rightarrow> link" where
  "idle_link n = \<lparr>capacity = n, buffered = 0, attempts = []\<rparr>"

text \<open>The bytes of one direction in the messages that the channel accepted.\<close>

definition delivered :: "bool \<Rightarrow> (StreamData \<times> bool) list \<Rightarrow> bytes" where
  "delivered c xs = attempted c (filter snd xs)"

lemma sends_ok_all: "sends_ok n k xs \<Longrightarrow> length xs \<le> n \<Longrightarrow> filter snd xs = xs"
proof -
  assume a: "sends_ok n k xs" "length xs \<le> n"
  have "snd (xs ! i)" if "i < length xs" for i
  proof (rule ccontr)
    assume "\<not> snd (xs ! i)"
    with a(1) that have "n \<le> length (filter snd (take i xs))" by (auto simp: sends_ok_def)
    also have "\<dots> \<le> length (take i xs)" by (rule length_filter_le)
    finally show False using that a(2) by simp
  qed
  then show ?thesis by (simp add: filter_id_conv all_set_conv_all_nth)
qed

text \<open>
  C7: No byte of a connection is duplicated or reordered, and a byte is lost only with a message that the full channel rejects.
  For every interleaving of segments and of the consumer: at every moment the messages so far, followed by the
  buffer, carry per direction exactly the concatenation of the segments. When the stream completes, the messages
  carry all of it, both buffers are empty, and the close marker with the connection's identifier is the last message and the
  only one. A message is dropped only after \<open>n\<close> others were accepted, where \<open>n\<close> is the capacity of the channel, and at
  most \<open>n\<close> messages more than the consumer takes are accepted. So if there are at most \<open>n\<close> messages, the
  channel has accepted every byte of both directions, in order.
\<close>

theorem stream_conservation:
  "\<exists>s l s' l' msgs close ok.
     stream_run G evs (stream_New G netFlow tcpFlow) (idle_link n) = Some (s, l) \<and>
     attempted True (attempts l) @ clientBuf s = segment_bytes True evs \<and>
     attempted False (attempts l) @ serverBuf s = segment_bytes False evs \<and>
     ReassemblyComplete G ts s l = Some (s', l', False) \<and>
     attempts l' = msgs @ [(close, ok)] \<and>
     attempted True msgs = segment_bytes True evs \<and> attempted False msgs = segment_bytes False evs \<and>
     clientBuf s' = [] \<and> serverBuf s' = [] \<and>
     list_all (\<lambda>x. \<not> sd_Closed (fst x)) msgs \<and> sd_Closed close \<and>
     sm_ConnID (sd_ConnMeta close) = FastHash G netFlow XOR FastHash G tcpFlow \<and>
     (\<forall>i < length (attempts l'). snd (attempts l' ! i) \<or> n \<le> length (filter snd (take i (attempts l')))) \<and>
     length (filter snd (attempts l')) \<le> n + takes evs \<and>
     (length (attempts l') \<le> n \<longrightarrow>
        delivered True (attempts l') = segment_bytes True evs \<and> delivered False (attempts l') = segment_bytes False evs)"
proof -
  let ?s0 = "stream_New G netFlow tcpFlow" and ?l0 = "idle_link n"
  obtain s l new where r: "stream_run G evs ?s0 ?l0 = Some (s, l)" "attempts l = new"
    "\<forall>x \<in> set new. \<not> sd_Closed (fst x)" "bs_connID s = bs_connID ?s0"
    "\<And>d. attempted d new @ direction_buf d s = segment_bytes d evs"
    using stream_run_spec [of G evs ?s0 ?l0]
    by (auto simp: idle_link_def stream_New_def direction_buf_def)
  from ReassemblyComplete_spec [of G ts s l] obtain s' l' new2 msg ok where c:
    "ReassemblyComplete G ts s l = Some (s', l', False)" "attempts l' = (new @ new2) @ [(msg, ok)]"
    "\<forall>x \<in> set new2. \<not> sd_Closed (fst x)" "sd_Closed msg" "sm_ConnID (sd_ConnMeta msg) = bs_connID s"
    "\<And>d. attempted d new2 = direction_buf d s \<and> direction_buf d s' = []"
    using r(2) by auto
  have bytes: "attempted d (new @ new2) = segment_bytes d evs" for d
    using c(6) [of d] r(5) [of d] by simp
  have "link_inv n 0 ?l0" by (simp add: link_inv_def sends_ok_def idle_link_def)
  from ReassemblyComplete_link [OF c(1) stream_run_link [OF r(1) this]]
  have sends: "sends_ok n (takes evs) (attempts l')" by (simp add: link_inv_def)
  have deliv: "delivered d (attempts l') = segment_bytes d evs" if "length (attempts l') \<le> n" for d
    using sends_ok_all [OF sends that] c(4) bytes [of d] by (simp add: delivered_def c(2))
  have bufs: "clientBuf s' = []" "serverBuf s' = []" "attempted True new @ clientBuf s = segment_bytes True evs"
    "attempted False new @ serverBuf s = segment_bytes False evs"
    using c(6) [of True] c(6) [of False] r(5) [of True] r(5) [of False] by (simp_all add: direction_buf_def)
  have "sm_ConnID (sd_ConnMeta msg) = FastHash G netFlow XOR FastHash G tcpFlow"
    using c(5) r(4) by (simp add: stream_New_def)
  then show ?thesis
    using r(1-3) c(1-4) bytes bufs deliv sends
    by (intro exI [of _ s] exI [of _ l] exI [of _ s'] exI [of _ l'] exI [of _ "new @ new2"] exI [of _ msg] exI [of _ ok])
      (auto simp: list_all_iff sends_ok_def)
qed

theorem stream_conservation_witness:
  "\<exists>G netFlow tcpFlow s l s' l'.
     stream_run G [Segment [1, 2] True None, Taken, Segment [3] False (Some 5)] (stream_New G netFlow tcpFlow) (idle_link 3) =
       Some (s, l) \<and> attempted True (attempts l) @ clientBuf s = [1, 2] \<and>
     ReassemblyComplete G None s l = Some (s', l', False) \<and> length (attempts l') \<le> 3 \<and>
     delivered True (attempts l') = [1, 2] \<and> delivered False (attempts l') = [3]"
proof -
  let ?G = "\<lparr>endpointString = (\<lambda>b. []), FastHash = (\<lambda>f. 0)\<rparr>" and ?f = "\<lparr>flow_Src = [], flow_Dst = []\<rparr>"
  let ?evs = "[Segment [1, 2] True None, Taken, Segment [3] False (Some 5)]"
  have three: "length (attempts l') \<le> 3"
    if "stream_run ?G ?evs (stream_New ?G ?f ?f) (idle_link 3) = Some (s, l)" "ReassemblyComplete ?G None s l = Some (s', l', False)"
    for s l s' l'
    using that
    by (auto simp: ReassembledSG_def maxBufferSize_def stream_New_def idle_link_def set_buf_def direction_buf_def
        ReassemblyComplete_def flushDirectionLocked_def emitCloseLocked_def extractPorts_def raw_port_def try_send_def Let_def)
  show ?thesis
    using stream_conservation [of ?G ?evs ?f ?f 3 None] three
    by (simp add: segment_bytes_def) blast
qed

text \<open>
  C12: Whatever the reassembly engine does with packets, timer ticks, the consumer and the final flush, the
  stage never panics, each direction of each stream buffers less than 256 KiB between callbacks, and
  the output channel never holds more than its capacity.
\<close>

theorem reassembler_memory_bounded:
  "\<exists>r. reassembler_run G E cfg evs (Reassembler_New cfg e) = Some r \<and>
     list_all bounded (streams r) \<and> buffered (out r) \<le> capacity (out r)"
proof -
  have "memory.stage_inv (Reassembler_New cfg e)"
    by (simp add: memory.stage_inv_def Reassembler_New_def room_def)
  from returns_ex [OF memory.run_inv [OF this, of G E cfg evs]] show ?thesis
    by (auto simp: memory.stage_inv_def room_def)
qed

text \<open>
  Every message the stage produces is well formed, whatever the engine does: a message carries data
  exactly if it is not a close marker, its addresses and ports are those of its flows, and its
  connection identifier is the exclusive or of the hashes of the network and the transport flow.
\<close>

lemma reassembler_messages_well_formed:
  "\<exists>r. reassembler_run G E cfg evs (Reassembler_New cfg e) = Some r \<and>
     list_all (\<lambda>x. well_formed_message G (fst x)) (attempts (out r))"
proof -
  have "messages.stage_inv G (Reassembler_New cfg e)"
    by (simp add: messages.stage_inv_def Reassembler_New_def messages_ok_def)
  from returns_ex [OF messages.run_inv [OF this, of E cfg evs]] show ?thesis
    by (auto simp: messages.stage_inv_def messages_ok_def)
qed

end
