(* ===== verification/NetIP.thy ===== *)
theory NetIP
  imports GoStrings
begin

text \<open>
  What the program uses of Go's \<^verbatim>\<open>net.IP\<close>: its textual form (\<^verbatim>\<open>IP.String\<close>, the addresses in DNS
  answers and in reassembled streams) and \<^verbatim>\<open>net.ParseIP\<close>, with which the dispatcher turns
  the text back into an address. An address is its byte slice, 4 bytes or 16; the nil
  address, which \<^verbatim>\<open>ParseIP\<close> returns for text that is no address, is the empty slice.
\<close>

section \<open>Textual form\<close>

fun hex_number :: "nat \<Rightarrow> string" where
  "hex_number n = (if n < 16 then [hex_digit n] else hex_number (n div 16) @ [hex_digit (n mod 16)])"

declare hex_number.simps [simp del]

definition dotted :: "bytes \<Rightarrow> string" where
  "dotted ip = Join (map (\<lambda>b. decimal (unat b)) ip) ''.''"

definition v4InV6Prefix :: bytes where
  "v4InV6Prefix = replicate 10 0 @ [0xff, 0xff]"

definition To4 :: "bytes \<Rightarrow> bytes" where
  "To4 ip =
     (if length ip = 4 then ip
      else if length ip = 16 \<and> take 12 ip = v4InV6Prefix then drop 12 ip
      else [])"

definition groups :: "bytes \<Rightarrow> nat list" where
  "groups ip = map (\<lambda>i. 256 * unat (ip ! (2 * i)) + unat (ip ! (2 * i + 1))) [0 ..< 8]"

text \<open>The longest run of at least two zero groups, the first one among equals.\<close>

definition zero_run :: "nat list \<Rightarrow> nat \<Rightarrow> nat" where
  "zero_run gs i = length (takeWhile (\<lambda>g. g = 0) (drop i gs))"

fun best_run :: "nat list \<Rightarrow> nat \<Rightarrow> (nat \<times> nat) option \<Rightarrow> nat list \<Rightarrow> (nat \<times> nat) option" where
  "best_run gs best_len best [] = best"
| "best_run gs best_len best (i # is) =
     (let l = zero_run gs i
      in if 2 \<le> l \<and> best_len < l then best_run gs l (Some (i, l)) is else best_run gs best_len best is)"

definition v6_string :: "bytes \<Rightarrow> string" where
  "v6_string ip =
     (let gs = groups ip
      in case best_run gs 0 None [0 ..< 8] of
           None \<Rightarrow> Join (map hex_number gs) '':''
         | Some (i, l) \<Rightarrow>
             Join (map hex_number (take i gs)) '':'' @ ''::'' @
             Join (map hex_number (drop (i + l) gs)) '':'')"

definition IP_String :: "bytes \<Rightarrow> string" where
  "IP_String ip =
     (if length ip = 0 then ''<nil>''
      else if length ip \<noteq> 4 \<and> length ip \<noteq> 16 then ''?'' @ EncodeToString ip
      else if length (To4 ip) = 4 then dotted (To4 ip)
      else v6_string ip)"

section \<open>Parsing\<close>

text \<open>One decimal field: one to three digits, no leading zero, at most 255.\<close>

definition parse_field :: "string \<Rightarrow> byte option" where
  "parse_field f =
     (if f = [] \<or> 3 < length f \<or> (hd f = CHR ''0'' \<and> 1 < length f) then None
      else case parse_decimal f 0 of
             None \<Rightarrow> None
           | Some n \<Rightarrow> if n \<le> 255 then Some (of_nat n) else None)"

fun parse_fields :: "string list \<Rightarrow> bytes option" where
  "parse_fields [] = Some []"
| "parse_fields (f # fs) =
     (case parse_field f of
        None \<Rightarrow> None
      | Some b \<Rightarrow> map_option (Cons b) (parse_fields fs))"

definition parseIPv4 :: "string \<Rightarrow> bytes option" where
  "parseIPv4 s =
     (let fs = Split s ''.''
      in if length fs = 4 then parse_fields fs else None)"

definition hex_val :: "char \<Rightarrow> nat option" where
  "hex_val c =
     (let n = of_char c :: nat
      in if 48 \<le> n \<and> n \<le> 57 then Some (n - 48)
         else if 97 \<le> n \<and> n \<le> 102 then Some (n - 87)
         else if 65 \<le> n \<and> n \<le> 70 then Some (n - 55)
         else None)"

text \<open>The hexadecimal digits at the front: their value, and the rest of the text.\<close>

fun hex_prefix :: "nat \<Rightarrow> string \<Rightarrow> nat \<times> string" where
  "hex_prefix acc [] = (acc, [])"
| "hex_prefix acc (c # cs) =
     (case hex_val c of None \<Rightarrow> (acc, c # cs) | Some d \<Rightarrow> hex_prefix (16 * acc + d) cs)"

lemma hex_prefix_length: "hex_prefix acc s = (v, r) \<Longrightarrow> length r \<le> length s"
  by (induction s arbitrary: acc) (auto split: option.splits intro: le_SucI)

text \<open>
  The loop of \<^verbatim>\<open>netip.parseIPv6\<close>: \<open>ip\<close> holds the bytes written so far (their number is the
  source's \<open>i\<close>), \<open>ell\<close> the position of the ellipsis. The result is the bytes, the ellipsis
  and the unread text.
\<close>

function v6_loop :: "bytes \<Rightarrow> nat option \<Rightarrow> string \<Rightarrow> (bytes \<times> nat option \<times> string) option" where
  "v6_loop ip ell s =
     (if 16 \<le> length ip then Some (ip, ell, s)
      else let (acc, r) = hex_prefix 0 s; off = length s - length r
      in if off = 0 \<or> 4 < off then None
         else if r \<noteq> [] \<and> hd r = CHR ''.'' then
           (if (ell = None \<and> length ip \<noteq> 12) \<or> 16 < length ip + 4 then None
            else map_option (\<lambda>b. (ip @ b, ell, [])) (parseIPv4 s))
         else let ip' = ip @ [of_nat (acc div 256), of_nat acc]
         in if r = [] then Some (ip', ell, [])
            else if hd r \<noteq> CHR '':'' \<or> length r = 1 then None
            else let s' = tl r
            in if hd s' = CHR '':'' then
                 (if ell \<noteq> None then None
                  else if tl s' = [] then Some (ip', Some (length ip'), [])
                  else v6_loop ip' (Some (length ip')) (tl s'))
               else v6_loop ip' ell s')"
  by pat_completeness auto
termination
  by (relation "measure (\<lambda>(ip, ell, s). 18 - length ip)") auto

declare v6_loop.simps [simp del]

definition v6_finish :: "bytes \<times> nat option \<times> string \<Rightarrow> bytes option" where
  "v6_finish st =
     (case st of (ip, ell, s) \<Rightarrow>
        if s \<noteq> [] then None
        else if length ip < 16 then
          (case ell of
             None \<Rightarrow> None
           | Some k \<Rightarrow> Some (take k ip @ replicate (16 - length ip) 0 @ drop k ip))
        else if ell \<noteq> None then None
        else Some ip)"

definition parseIPv6 :: "string \<Rightarrow> bytes option" where
  "parseIPv6 s =
     (if HasPrefix s ''::'' then
        (if length s = 2 then Some (replicate 16 0)
         else Option.bind (v6_loop [] (Some 0) (drop 2 s)) v6_finish)
      else Option.bind (v6_loop [] None s) v6_finish)"

text \<open>
  \<^verbatim>\<open>netip.ParseAddr\<close> looks for the first of the characters \<^verbatim>\<open>.\<close>, \<^verbatim>\<open>:\<close> and \<^verbatim>\<open>%\<close>;
  \<^verbatim>\<open>net.ParseIP\<close> refuses zones and returns the 16-byte form.
\<close>

fun first_sep :: "string \<Rightarrow> char option" where
  "first_sep [] = None"
| "first_sep (c # cs) = (if c \<in> set ''.:%'' then Some c else first_sep cs)"

definition ParseIP :: "string \<Rightarrow> bytes" where
  "ParseIP s =
     (case first_sep s of
        None \<Rightarrow> []
      | Some c \<Rightarrow>
          if c = CHR ''.'' then (case parseIPv4 s of None \<Rightarrow> [] | Some b \<Rightarrow> v4InV6Prefix @ b)
          else if c = CHR '':'' \<and> CHR ''%'' \<notin> set s then
            (case parseIPv6 s of None \<Rightarrow> [] | Some b \<Rightarrow> b)
          else [])"

section \<open>Lemmas\<close>

lemma digit_no_sep: "c \<in> set (decimal n) \<Longrightarrow> c \<notin> set ''.:%''"
  by (auto dest!: decimal_chars dest: arg_cong [where f = "of_char :: char \<Rightarrow> nat"])

lemma decimal_leading_zero: "decimal n = digit_char 0 # cs \<Longrightarrow> cs = []"
proof (induction n arbitrary: cs rule: decimal.induct)
  case (1 n)
  show ?case
  proof (cases "n < 10")
    case True
    with "1.prems" show ?thesis by (simp add: decimal.simps)
  next
    case False
    obtain d ds where h: "decimal (n div 10) = digit_char d # ds" "d < 10" using decimal_hd by blast
    have "decimal n = (digit_char d # ds) @ [digit_char (n mod 10)]"
      using False h by (subst decimal.simps) simp
    with "1.prems" have "digit_char d = digit_char 0" by simp
    with h "1.IH" [OF False] have "ds = []" by simp
    with h \<open>digit_char d = digit_char 0\<close> have "parse_decimal [digit_char 0] 0 = Some (n div 10)"
      using parse_decimal_decimal [of "n div 10"] by simp
    then have "n div 10 = 0" by simp
    with False show ?thesis by simp
  qed
qed

lemma parse_field_decimal: "parse_field (decimal (unat b)) = Some b"
proof -
  have n: "unat b < 256" by (rule unat_byte_less)
  then have "length (decimal (unat b)) \<le> 3"
    using length_decimal [of 0 "unat b"] length_decimal [of 1 "unat b"] length_decimal [of 2 "unat b"]
    by (cases "unat b = 0"; cases "unat b < 10"; cases "unat b < 100")
      (simp_all add: decimal.simps [of 0])
  moreover obtain d ds where h: "decimal (unat b) = digit_char d # ds" "d < 10" using decimal_hd by blast
  moreover have "digit_char d \<noteq> CHR ''0'' \<or> ds = []"
    using h decimal_leading_zero [of "unat b" ds] by auto
  ultimately show ?thesis
    using parse_decimal_decimal [of "unat b"] n by (auto simp: parse_field_def)
qed

lemma parse_fields_decimal: "parse_fields (map (\<lambda>b. decimal (unat b)) ip) = Some ip"
  by (induction ip) (auto simp: parse_field_decimal)

lemma first_sep_digits: "first_sep (decimal n @ c # r) = first_sep (c # r)"
proof -
  have "first_sep (ds @ r') = first_sep r'" if "\<forall>d \<in> set ds. d \<notin> set ''.:%''" for ds r'
    using that by (induction ds) auto
  then show ?thesis using digit_no_sep by blast
qed

lemma ParseIP_String_v4:
  assumes "length ip = 4"
  shows "ParseIP (IP_String ip) = v4InV6Prefix @ ip"
proof -
  have ds: "\<forall>x \<in> set (map (\<lambda>b. decimal (unat b)) ip). CHR ''.'' \<notin> set x"
    using digit_no_sep by auto
  have "IP_String ip = dotted ip" using assms by (simp add: IP_String_def To4_def)
  moreover have "Split (dotted ip) ''.'' = map (\<lambda>b. decimal (unat b)) ip"
    unfolding dotted_def using ds assms by (intro Split_Join) auto
  then have "parseIPv4 (dotted ip) = Some ip"
    using assms by (simp add: parseIPv4_def parse_fields_decimal)
  moreover have "first_sep (dotted ip) = Some (CHR ''.'')"
    using assms by (cases ip rule: list.exhaust; cases "tl ip") (auto simp: dotted_def Join_Cons first_sep_digits)
  ultimately show ?thesis by (simp add: ParseIP_def)
qed

end
