(* ===== verification/Dispatch.thy ===== *)
theory Dispatch
  imports Registry Reassembly NetIP
begin

text \<open>
  The dispatcher (\<^verbatim>\<open>internal/dispatch/dispatcher.go\<close>). Its two loops take reassembled TCP data and
  decoded UDP packets from their channels; the only state they share is that of the parsers
  and the output channel, so a run is a sequence of handler calls (\<open>job\<close>), in any interleaving.
  The output is the history of the events sent. A blocking send races with the cancellation
  of the context: \<open>sends i\<close> says whether the \<open>i\<close>-th send of the handler goes through.
  \<open>now\<close> is the wall clock the parser reads.
\<close>

record 's Dispatcher =
  parserState :: 's
  emitted :: "ProtocolEvent list"

text \<open>\<^verbatim>\<open>for _, ev := range events { select { case output <- ev: case <-ctx.Done(): return } }\<close>\<close>

fun emit :: "(nat \<Rightarrow> bool) \<Rightarrow> nat \<Rightarrow> ProtocolEvent list \<Rightarrow> ProtocolEvent list" where
  "emit sends i [] = []"
| "emit sends i (ev # evs) = (if sends i then ev # emit sends (i + 1) evs else [])"

definition parse_and_emit ::
  "int \<Rightarrow> (nat \<Rightarrow> bool) \<Rightarrow> 's Parser \<Rightarrow> bytes \<Rightarrow> bytes \<Rightarrow> ConnMeta \<Rightarrow> bool \<Rightarrow> 's Dispatcher \<Rightarrow>
     's Dispatcher go" where
  "parse_and_emit now sends p data spare meta isFromClient d = do {
     (st, r) \<leftarrow> Parse p now (parserState d) data spare meta isFromClient;
     case r of
       Inl err \<Rightarrow> Some (d\<lparr>parserState := st\<rparr>)
     | Inr events \<Rightarrow> Some (d\<lparr>parserState := st, emitted := emitted d @ emit sends 0 events\<rparr>) }"

definition tcpMeta :: "StreamData \<Rightarrow> ConnMeta" where
  "tcpMeta sd =
     (let m = sd_ConnMeta sd
      in \<lparr>cm_SrcIP = ParseIP (sm_SrcIP m), cm_DstIP = ParseIP (sm_DstIP m),
          cm_SrcPort = sm_SrcPort m, cm_DstPort = sm_DstPort m, cm_ConnID = sm_ConnID m\<rparr>)"

text \<open>The data of a stream chunk was made by \<^verbatim>\<open>make([]byte, n)\<close> and has no spare capacity.\<close>

definition handleTCP ::
  "'s Registry \<Rightarrow> int \<Rightarrow> (nat \<Rightarrow> bool) \<Rightarrow> StreamData \<Rightarrow> 's Dispatcher \<Rightarrow> 's Dispatcher go" where
  "handleTCP registry now sends sd d =
     (if sd_Closed sd then
        Some (d\<lparr>parserState := NotifyClose registry (sm_ConnID (sd_ConnMeta sd)) (parserState d)\<rparr>)
      else if len (sd_Data sd) = 0 then Some d
      else do {
        p \<leftarrow> Resolve registry (sm_SrcPort (sd_ConnMeta sd)) (sm_DstPort (sd_ConnMeta sd)) (sd_Data sd)
               (sd_IsClient sd);
        case p of
          None \<Rightarrow> Some d
        | Some p \<Rightarrow> parse_and_emit now sends p (sd_Data sd) [] (tcpMeta sd) (sd_IsClient sd) d })"

definition udpMeta :: "DecodedPacket \<Rightarrow> ConnMeta" where
  "udpMeta pkt =
     \<lparr>cm_SrcIP = dp_SrcIP pkt, cm_DstIP = dp_DstIP pkt, cm_SrcPort = dp_SrcPort pkt,
      cm_DstPort = dp_DstPort pkt, cm_ConnID = 0\<rparr>"

text \<open>\<open>spare\<close> is what follows the payload in the captured frame.\<close>

definition handleUDP ::
  "'s Registry \<Rightarrow> int \<Rightarrow> (nat \<Rightarrow> bool) \<Rightarrow> bytes \<Rightarrow> DecodedPacket \<Rightarrow> 's Dispatcher \<Rightarrow> 's Dispatcher go" where
  "handleUDP registry now sends spare pkt d =
     (let payload = case_option [] id (dp_Payload pkt)
      in if len payload = 0 then Some d
         else do {
           p \<leftarrow> Resolve registry (dp_SrcPort pkt) (dp_DstPort pkt) payload True;
           case p of
             None \<Rightarrow> Some d
           | Some p \<Rightarrow> parse_and_emit now sends p payload spare (udpMeta pkt) True d })"

datatype job = TCPJob StreamData | UDPJob bytes DecodedPacket

fun run_job :: "'s Registry \<Rightarrow> int \<times> (nat \<Rightarrow> bool) \<times> job \<Rightarrow> 's Dispatcher \<Rightarrow> 's Dispatcher go" where
  "run_job registry (now, sends, TCPJob sd) d = handleTCP registry now sends sd d"
| "run_job registry (now, sends, UDPJob spare pkt) d = handleUDP registry now sends spare pkt d"

fun dispatch_run ::
  "'s Registry \<Rightarrow> (int \<times> (nat \<Rightarrow> bool) \<times> job) list \<Rightarrow> 's Dispatcher \<Rightarrow> 's Dispatcher go" where
  "dispatch_run registry [] d = Some d"
| "dispatch_run registry (j # js) d = Option.bind (run_job registry j d) (dispatch_run registry js)"

fun job_meta :: "job \<Rightarrow> ConnMeta" where
  "job_meta (TCPJob sd) = tcpMeta sd"
| "job_meta (UDPJob spare pkt) = udpMeta pkt"

text \<open>The parser that a job resolves to; a close marker or an empty payload resolves to none.\<close>

fun job_resolve :: "'s Registry \<Rightarrow> job \<Rightarrow> 's Parser option go" where
  "job_resolve registry (TCPJob sd) =
     (if sd_Closed sd \<or> sd_Data sd = [] then Some None
      else Resolve registry (sm_SrcPort (sd_ConnMeta sd)) (sm_DstPort (sd_ConnMeta sd)) (sd_Data sd)
             (sd_IsClient sd))"
| "job_resolve registry (UDPJob spare pkt) =
     (let payload = case_option [] id (dp_Payload pkt)
      in if payload = [] then Some None else Resolve registry (dp_SrcPort pkt) (dp_DstPort pkt) payload True)"

lemma parse_and_emit_returns:
  assumes "safe_parser p"
  shows "\<exists>d'. parse_and_emit now sends p data spare meta c d = Some d'"
proof -
  obtain st r where "Parse p now (parserState d) data spare meta c = Some (st, r)"
    using safe_parser.parse_returns [OF assms, of now "parserState d" data spare meta c] by force
  then show ?thesis by (cases r) (simp_all add: parse_and_emit_def)
qed

section \<open>The registry the dispatcher relies on\<close>

text \<open>
  The dispatcher's contract with its registry: it is well formed and all its parsers keep the
  contract of \<open>parser_contract\<close>. The locale gives the lemmas about handlers and runs: resolution always
  returns a registered parser or none, the events of a run belong to its jobs, and a run can only panic
  in a parser that some job resolves to.
\<close>

locale parser_registry =
  fixes registry :: "'s Registry"
  assumes registry_ok: "registry_wf registry"
    and parsers_ok: "p \<in> set (all registry) \<Longrightarrow> parser_contract p"
begin

lemma probes_return: "\<forall>p \<in> set (all registry). \<exists>s. Probe p sample c = Some s"
  using parsers_ok parser_contract.probe_range by blast

lemma emit_subset: "set (emit sends i evs) \<subseteq> set evs"
  by (induction evs arbitrary: i) auto

text \<open>What holds of every event that a registered parser returns holds of every event emitted.\<close>

definition parsed :: "(int \<Rightarrow> ConnMeta \<Rightarrow> ProtocolEvent \<Rightarrow> bool) \<Rightarrow> bool" where
  "parsed Q \<longleftrightarrow> (\<forall>p \<in> set (all registry). \<forall>now st data spare meta c st' evs.
     Parse p now st data spare meta c = Some (st', Inr evs) \<longrightarrow> (\<forall>e \<in> set evs. Q now meta e))"

lemma parse_and_emit_all:
  assumes "parsed Q" "p \<in> set (all registry)" "parse_and_emit now sends p data spare meta c d = Some d'"
  shows "\<exists>new. emitted d' = emitted d @ new \<and> (\<forall>e \<in> set new. Q now meta e)"
proof -
  obtain st r where pr: "Parse p now (parserState d) data spare meta c = Some (st, r)"
    using assms(3) by (auto simp: parse_and_emit_def bind_eq_Some_conv)
  show ?thesis
  proof (cases r)
    case (Inl err)
    with assms(3) pr show ?thesis by (auto simp: parse_and_emit_def)
  next
    case (Inr evs)
    have "\<forall>e \<in> set evs. Q now meta e" using assms(1,2) pr Inr unfolding parsed_def by blast
    then have "\<forall>e \<in> set (emit sends 0 evs). Q now meta e" using emit_subset [of sends 0 evs] by blast
    with assms(3) pr Inr show ?thesis by (auto simp: parse_and_emit_def)
  qed
qed

lemma job_all:
  assumes "parsed Q" "run_job registry (now, sends, j) d = Some d'"
  shows "\<exists>new. emitted d' = emitted d @ new \<and> (\<forall>e \<in> set new. Q now (job_meta j) e)"
proof (cases j)
  case (TCPJob sd)
  with assms(2) show ?thesis
    by (auto simp: handleTCP_def bind_eq_Some_conv split: if_splits option.splits
        dest!: Resolve_registered [OF registry_ok probes_return] intro: parse_and_emit_all [OF assms(1)])
next
  case (UDPJob spare pkt)
  with assms(2) show ?thesis
    by (auto simp: handleUDP_def Let_def bind_eq_Some_conv split: if_splits option.splits
        dest!: Resolve_registered [OF registry_ok probes_return] intro: parse_and_emit_all [OF assms(1)])
qed

lemma run_all:
  assumes "parsed Q" "dispatch_run registry js d = Some d'"
  shows "\<exists>new. emitted d' = emitted d @ new \<and> (\<forall>e \<in> set new. \<exists>j \<in> set js. Q (fst j) (job_meta (snd (snd j))) e)"
  using assms(2)
proof (induction js arbitrary: d)
  case (Cons j js)
  obtain now sends jb where j: "j = (now, sends, jb)" using prod_cases3 by blast
  from Cons.prems obtain d1 where d1: "run_job registry j d = Some d1" "dispatch_run registry js d1 = Some d'"
    by (auto simp: bind_eq_Some_conv)
  from job_all [OF assms(1) d1(1) [unfolded j]] Cons.IH [OF d1(2)] show ?case
    using j by fastforce
qed simp

lemma parsed_tagged: "parsed (\<lambda>now meta e. \<exists>p \<in> set (all registry). tagged (Name p) meta e)"
  unfolding parsed_def using parser_contract.parse_tagged [OF parsers_ok] by blast

lemmas run_tagged = run_all [OF parsed_tagged]

lemma resolve_returns:
  "\<exists>b. Resolve registry sp dp sample c = Some b \<and> (\<forall>p. b = Some p \<longrightarrow> p \<in> set (all registry))"
  using Resolve_returns [OF registry_ok probes_return] Resolve_registered [OF registry_ok probes_return]
  by blast

lemma job_returns:
  assumes "\<And>p. job_resolve registry (snd (snd j)) = Some (Some p) \<Longrightarrow> p \<in> set (all registry) \<Longrightarrow> safe_parser p"
  shows "\<exists>d'. run_job registry j d = Some d'"
proof -
  obtain now sends jb where j: "j = (now, sends, jb)" using prod_cases3 by blast
  show ?thesis
  proof (cases jb)
    case (TCPJob sd)
    obtain b where "Resolve registry (sm_SrcPort (sd_ConnMeta sd)) (sm_DstPort (sd_ConnMeta sd)) (sd_Data sd)
        (sd_IsClient sd) = Some b" "\<forall>p. b = Some p \<longrightarrow> p \<in> set (all registry)"
      using resolve_returns by blast
    then show ?thesis using j TCPJob assms by (cases b) (auto simp: handleTCP_def parse_and_emit_returns)
  next
    case (UDPJob spare pkt)
    obtain b where "Resolve registry (dp_SrcPort pkt) (dp_DstPort pkt) (case_option [] id (dp_Payload pkt)) True
        = Some b" "\<forall>p. b = Some p \<longrightarrow> p \<in> set (all registry)"
      using resolve_returns by blast
    then show ?thesis using j UDPJob assms by (cases b) (auto simp: handleUDP_def Let_def parse_and_emit_returns)
  qed
qed

lemma run_returns:
  assumes "\<And>j p. j \<in> set js \<Longrightarrow> job_resolve registry (snd (snd j)) = Some (Some p) \<Longrightarrow>
             p \<in> set (all registry) \<Longrightarrow> safe_parser p"
  shows "\<exists>d'. dispatch_run registry js d = Some d'"
  using assms
proof (induction js arbitrary: d)
  case (Cons j js)
  obtain d1 where "run_job registry j d = Some d1" using job_returns [of j] Cons.prems by fastforce
  moreover have "\<exists>d'. dispatch_run registry js d1 = Some d'"
    by (rule Cons.IH) (use Cons.prems in auto)
  ultimately show ?case by simp
qed simp

end

end
