(* ===== verification/Config.thy ===== *)
theory Config
  imports GoStrings
begin

text \<open>
  The configuration (\<^verbatim>\<open>internal/config/config.go\<close>): the structs, the defaults, loading and
  validation. Durations are nanoseconds. The viper library that reads the file and overlays it
  on the defaults is the parameter \<open>viper\<close>: a file reads to some parsed document \<open>'d\<close> or fails,
  and unmarshalling a document into a configuration gives an updated configuration or fails.
\<close>

record FanoutConfig =
  fo_Enabled :: bool
  fo_GroupID :: int
  fo_Type :: string
  fo_Size :: int

record CaptureConfig =
  cap_Interface :: string
  cap_Mode :: string
  cap_NumQueues :: int
  cap_BufferSize :: int
  cap_SnapLength :: int
  cap_BPFFilter :: string
  cap_Fanout :: FanoutConfig

record DecodeConfig =
  dc_Workers :: int
  dc_ChannelBuffer :: int

record ReassemblySection =
  rs_MaxBufferedPagesPerConn :: int
  rs_MaxBufferedPagesTotal :: int
  rs_ConnectionTimeout :: int
  rs_MaxConnectionAge :: int
  rs_FlushInterval :: int

record HTTPConfig =
  hc_MaxBodyCapture :: int
  hc_CaptureHeaders :: bool

record TLSConfig =
  tc_ExtractJA3 :: bool
  tc_ExtractCertificates :: bool

record DBConfig =
  dbc_MaxQueryLength :: int

record ProtocolsConfig =
  pc_Enabled :: "string list"
  pc_HTTP :: HTTPConfig
  pc_TLS :: TLSConfig
  pc_DB :: DBConfig

record KafkaSection =
  ks_Brokers :: "string list"
  ks_Topic :: string
  ks_BatchSize :: int
  ks_BatchTimeout :: int
  ks_Compression :: string
  ks_RequiredAcks :: int
  ks_NumWorkers :: int
  ks_MaxMessageBytes :: int

record MetricsConfig =
  mc_Enabled :: bool
  mc_Listen :: string
  mc_Path :: string

record LoggingConfig =
  lc_Level :: string
  lc_Format :: string
  lc_Output :: string

record RuntimeConfig =
  rt_GOMAXPROCS :: int

record Config =
  cfg_Capture :: CaptureConfig
  cfg_Decode :: DecodeConfig
  cfg_Reassembly :: ReassemblySection
  cfg_Protocols :: ProtocolsConfig
  cfg_Kafka :: KafkaSection
  cfg_Metrics :: MetricsConfig
  cfg_Logging :: LoggingConfig
  cfg_Runtime :: RuntimeConfig

definition Second :: int where
  "Second = 10 ^ 9"

definition Defaults :: Config where
  "Defaults =
     \<lparr>cfg_Capture = \<lparr>cap_Interface = ''eth0'', cap_Mode = ''afpacket'', cap_NumQueues = 1,
        cap_BufferSize = 4 * 1024 * 1024, cap_SnapLength = 9000, cap_BPFFilter = [],
        cap_Fanout = \<lparr>fo_Enabled = False, fo_GroupID = 1, fo_Type = ''hash'', fo_Size = 4\<rparr>\<rparr>,
      cfg_Decode = \<lparr>dc_Workers = 4, dc_ChannelBuffer = 4096\<rparr>,
      cfg_Reassembly = \<lparr>rs_MaxBufferedPagesPerConn = 256, rs_MaxBufferedPagesTotal = 65536,
        rs_ConnectionTimeout = 2 * 60 * Second, rs_MaxConnectionAge = 10 * 60 * Second,
        rs_FlushInterval = 30 * Second\<rparr>,
      cfg_Protocols = \<lparr>pc_Enabled = [''http'', ''dns'', ''tls''],
        pc_HTTP = \<lparr>hc_MaxBodyCapture = 65536, hc_CaptureHeaders = True\<rparr>,
        pc_TLS = \<lparr>tc_ExtractJA3 = True, tc_ExtractCertificates = False\<rparr>,
        pc_DB = \<lparr>dbc_MaxQueryLength = 4096\<rparr>\<rparr>,
      cfg_Kafka = \<lparr>ks_Brokers = [''localhost:9092''], ks_Topic = ''netcap-events'',
        ks_BatchSize = 100, ks_BatchTimeout = 500 * 10 ^ 6, ks_Compression = ''lz4'',
        ks_RequiredAcks = 1, ks_NumWorkers = 2, ks_MaxMessageBytes = 1048576\<rparr>,
      cfg_Metrics = \<lparr>mc_Enabled = True, mc_Listen = '':9090'', mc_Path = ''/metrics''\<rparr>,
      cfg_Logging = \<lparr>lc_Level = ''info'', lc_Format = ''json'', lc_Output = ''stderr''\<rparr>,
      cfg_Runtime = \<lparr>rt_GOMAXPROCS = 0\<rparr>\<rparr>"

text \<open>A nil error is \<^const>\<open>None\<close>.\<close>

definition Validate :: "Config \<Rightarrow> error option" where
  "Validate c =
     (let errs = [];
          errs = (if cap_Interface (cfg_Capture c) = [] then errs @ [''capture.interface is required''] else errs);
          errs = (if cap_SnapLength (cfg_Capture c) \<le> 0
                  then errs @ [''capture.snap_length must be positive''] else errs);
          errs = (if dc_Workers (cfg_Decode c) \<le> 0 then errs @ [''decode.workers must be positive''] else errs);
          errs = (if len (ks_Brokers (cfg_Kafka c)) = 0
                  then errs @ [''kafka.brokers must not be empty''] else errs);
          errs = (if ks_Topic (cfg_Kafka c) = [] then errs @ [''kafka.topic is required''] else errs)
      in if 0 < len errs then Some (''config validation failed: '' @ Join errs ''; '') else None)"

record 'd viper =
  ReadInConfig :: "string \<Rightarrow> error + 'd"
  Unmarshal :: "'d \<Rightarrow> Config \<Rightarrow> error + Config"

definition Load :: "'d viper \<Rightarrow> string \<Rightarrow> error + Config" where
  "Load v path =
     (let cfg = Defaults
      in case ReadInConfig v path of
           Inl err \<Rightarrow> Inl (''read config '' @ path @ '': '' @ err)
         | Inr doc \<Rightarrow>
             (case Unmarshal v doc cfg of
                Inl err \<Rightarrow> Inl (''unmarshal config: '' @ err)
              | Inr cfg \<Rightarrow>
                  (case Validate cfg of
                     Some err \<Rightarrow> Inl (''validate config: '' @ err)
                   | None \<Rightarrow> Inr cfg)))"

section \<open>Lemmas\<close>

text \<open>The requirements on a configuration, each with the message that reports its violation.\<close>

definition requirements :: "(string \<times> (Config \<Rightarrow> bool)) list" where
  "requirements =
     [(''capture.interface is required'', \<lambda>c. cap_Interface (cfg_Capture c) \<noteq> []),
      (''capture.snap_length must be positive'', \<lambda>c. 0 < cap_SnapLength (cfg_Capture c)),
      (''decode.workers must be positive'', \<lambda>c. 0 < dc_Workers (cfg_Decode c)),
      (''kafka.brokers must not be empty'', \<lambda>c. ks_Brokers (cfg_Kafka c) \<noteq> []),
      (''kafka.topic is required'', \<lambda>c. ks_Topic (cfg_Kafka c) \<noteq> [])]"

definition violated :: "Config \<Rightarrow> string list" where
  "violated c = map fst (filter (\<lambda>(msg, ok). \<not> ok c) requirements)"

definition valid_config :: "Config \<Rightarrow> bool" where
  "valid_config c \<longleftrightarrow> (\<forall>(msg, ok) \<in> set requirements. ok c)"

lemma violated_Nil_iff: "violated c = [] \<longleftrightarrow> valid_config c"
  by (auto simp: violated_def valid_config_def filter_empty_conv)

lemma Validate_violated:
  "Validate c = (if violated c = [] then None
                 else Some (''config validation failed: '' @ Join (violated c) ''; ''))"
  by (simp add: Validate_def violated_def requirements_def Let_def not_less)

lemma violated_clean: "m \<in> set (violated c) \<Longrightarrow> CHR '';'' \<notin> set m"
  by (auto simp: violated_def requirements_def split: if_splits)

lemma Defaults_valid: "valid_config Defaults"
  by (simp add: valid_config_def requirements_def Defaults_def)

section \<open>Properties\<close>

text \<open>
  Validation reports exactly the violated requirements. \<^verbatim>\<open>Validate\<close> returns nil exactly if the
  interface and the topic are named, the snap length and the number of workers are positive and
  there is a broker; otherwise the error text after its fixed prefix, split at the separator, is the
  list of the messages of the violated requirements, in order.
\<close>

lemma Validate_correct:
  "case Validate c of
     None \<Rightarrow> valid_config c
   | Some err \<Rightarrow> \<not> valid_config c \<and>
       (\<exists>report. err = ''config validation failed: '' @ report \<and> Split report ''; '' = violated c)"
proof -
  have "Split (Join (violated c) ''; '') ''; '' = violated c" if "violated c \<noteq> []"
    using that by (intro Split_Join) (auto dest: violated_clean)
  then show ?thesis
    by (simp add: Validate_violated violated_Nil_iff [symmetric])
qed

text \<open>
  Loading succeeds with a configuration exactly if the file can be read, unmarshalling it over the
  defaults gives that configuration, and it is valid. In particular every configuration the
  program runs with is valid.
\<close>

lemma Load_Inr_iff:
  "Load v path = Inr c \<longleftrightarrow>
     (\<exists>doc. ReadInConfig v path = Inr doc \<and> Unmarshal v doc Defaults = Inr c \<and> valid_config c)"
  by (auto simp: Load_def Validate_violated violated_Nil_iff split: sum.splits if_splits)

end
