(* ===== verification/Mysql.thy ===== *)
theory Mysql
  imports Protocol
begin

text \<open>
  The MySQL parser (\<^verbatim>\<open>internal/protocol/mysql/parser.go\<close>). \<open>mysql_next\<close> is one iteration of
  the loop of \<^verbatim>\<open>Parse\<close>; the loop itself is \<open>frame_loop\<close>. Every index and slice of the source is
  a checked access, so the interpretation of \<open>safe_framing\<close> shows that no input makes the
  parser panic. The round-trip lemma runs the parser on packets written by the encoder
  \<open>mysql_packet\<close> of the documented wire format.
\<close>

definition comQuery :: byte where "comQuery = 0x03"
definition comStmtPrepare :: byte where "comStmtPrepare = 0x16"
definition okMarker :: byte where "okMarker = 0x00"
definition errMarker :: byte where "errMarker = 0xff"

definition mysql_extractString :: "int \<Rightarrow> bytes \<Rightarrow> string go" where
  "mysql_extractString maxq b =
     (let s = string_of b
      in if 0 < maxq \<and> maxq < len s then go_upto s maxq else Some s)"

definition mysql_decodeCommand :: "int \<Rightarrow> int \<Rightarrow> bytes \<Rightarrow> ConnMeta \<Rightarrow> ProtocolEvent option go" where
  "mysql_decodeCommand maxq now payload meta = do {
     cmd \<leftarrow> go_index payload 0;
     if cmd = comQuery \<or> cmd = comStmtPrepare then do {
       rest \<leftarrow> go_from payload 1;
       stmt \<leftarrow> mysql_extractString maxq rest;
       let opName = (if cmd = comQuery then ''COM_QUERY'' else ''COM_STMT_PREPARE'');
       let ev = fillMeta (NewEvent now ''mysql'' DirectionRequest) meta;
       Some (Some (ev\<lparr>ev_DBDetail := Some (zeroDBDetail\<lparr>db_System := ''mysql'',
         db_Operation := opName, db_Statement := stmt\<rparr>)\<rparr>)) }
     else Some None }"

definition mysql_decodeResponse :: "int \<Rightarrow> bytes \<Rightarrow> ConnMeta \<Rightarrow> ProtocolEvent option go" where
  "mysql_decodeResponse now payload meta = do {
     marker \<leftarrow> go_index payload 0;
     let ev = fillMeta (NewEvent now ''mysql'' DirectionResponse) meta;
     if marker = okMarker then
       Some (Some (ev\<lparr>ev_DBDetail := Some (zeroDBDetail\<lparr>db_System := ''mysql'',
         db_Operation := ''OK''\<rparr>)\<rparr>))
     else if marker = errMarker then
       if len payload < 3 then Some None
       else do {
         codeBytes \<leftarrow> go_slice payload 1 3;
         errCode \<leftarrow> le16 codeBytes;
         rest \<leftarrow> go_from payload 3;
         hash \<leftarrow> (if 0 < len rest then do { r0 \<leftarrow> go_index rest 0; Some (r0 = 35) } else Some False);
         msg \<leftarrow> (if hash \<and> 6 < len rest then go_from rest 6 else Some rest);
         Some (Some (ev\<lparr>ev_DBDetail := Some (zeroDBDetail\<lparr>db_System := ''mysql'',
           db_Operation := ''ERR'', db_ErrorCode := uint errCode, db_ErrorMsg := string_of msg\<rparr>)\<rparr>)) }
     else Some None }"

definition mysql_decodePacket ::
  "int \<Rightarrow> int \<Rightarrow> bytes \<Rightarrow> ConnMeta \<Rightarrow> bool \<Rightarrow> ProtocolEvent option go" where
  "mysql_decodePacket maxq now payload meta isFromClient =
     (if len payload = 0 then Some None
      else if isFromClient then mysql_decodeCommand maxq now payload meta
      else mysql_decodeResponse now payload meta)"

definition mysql_next ::
  "int \<Rightarrow> int \<Rightarrow> ConnMeta \<Rightarrow> bool \<Rightarrow> bytes \<Rightarrow> (ProtocolEvent list \<times> int) option go" where
  "mysql_next maxq now meta isFromClient data =
     (if len data < 4 then Some None
      else do {
        payloadLen \<leftarrow> le24 data;
        let packetLen = 4 + payloadLen;
        if packetLen > len data \<or> payloadLen = 0 then Some None
        else do {
          payload \<leftarrow> go_slice data 4 packetLen;
          ev \<leftarrow> mysql_decodePacket maxq now payload meta isFromClient;
          Some (Some (opt_list ev, packetLen)) } })"

definition mysql_Parse :: "int \<Rightarrow> int \<Rightarrow> bytes \<Rightarrow> ConnMeta \<Rightarrow> bool \<Rightarrow> parse_result go" where
  "mysql_Parse maxq now data meta isFromClient =
     map_option Inr (frame_loop (mysql_next maxq now meta isFromClient) data)"

definition mysql_Probe :: "bytes \<Rightarrow> bool \<Rightarrow> int go" where
  "mysql_Probe data isFromClient =
     (if len data < 5 then Some 0
      else do {
        d3 \<leftarrow> go_index data 3;
        d4 \<leftarrow> go_index data 4;
        payloadLen \<leftarrow> le24 data;
        Some (if \<not> isFromClient \<and> d3 = 0x00 \<and> d4 = 0x0a then 90
              else if 0 < payloadLen \<and> payloadLen + 4 \<le> len data \<and>
                      (d4 = comQuery \<or> d4 = comStmtPrepare) then 70
              else 0) })"

definition mysql_parser :: "int \<Rightarrow> 's Parser" where
  "mysql_parser maxq =
     \<lparr>Name = ''mysql'', Ports = [3306, 33060], Probe = mysql_Probe,
      Parse = stateless (\<lambda>now data spare meta isFromClient. mysql_Parse maxq now data meta isFromClient),
      OnConnClose = None\<rparr>"

text \<open>The wire format: a packet is a 24-bit length, a sequence number and the payload.\<close>

definition mysql_packet :: "byte \<Rightarrow> bytes \<Rightarrow> bytes" where
  "mysql_packet sq payload = put_le24 (length payload) @ [sq] @ payload"

text \<open>
  The event of a packet of the client by the command byte: a query (0x03) and a statement to prepare (0x16) are reported with
  their text, all other commands, and the handshake response, are not.
\<close>

definition mysql_statement_event :: "int \<Rightarrow> int \<Rightarrow> ConnMeta \<Rightarrow> string \<Rightarrow> string \<Rightarrow> ProtocolEvent" where
  "mysql_statement_event maxq now meta op sql =
     (fillMeta (NewEvent now ''mysql'' DirectionRequest) meta)\<lparr>ev_DBDetail :=
        Some (zeroDBDetail\<lparr>db_System := ''mysql'', db_Operation := op,
          db_Statement := (if 0 < maxq then take (nat maxq) sql else sql)\<rparr>)\<rparr>"

fun mysql_request_event :: "int \<Rightarrow> int \<Rightarrow> ConnMeta \<Rightarrow> bytes \<Rightarrow> ProtocolEvent option" where
  "mysql_request_event maxq now meta [] = None"
| "mysql_request_event maxq now meta (cmd # sql) =
     (if cmd = 0x03 then Some (mysql_statement_event maxq now meta ''COM_QUERY'' (string_of sql))
      else if cmd = 0x16 then Some (mysql_statement_event maxq now meta ''COM_STMT_PREPARE'' (string_of sql))
      else None)"

section \<open>Lemmas\<close>

lemma mysql_extractString_eq:
  "mysql_extractString maxq b = Some (if 0 < maxq then take (nat maxq) (string_of b) else string_of b)"
  by (auto simp: mysql_extractString_def go_safe Let_def)

definition mysql_event_ok :: "int \<Rightarrow> ConnMeta \<Rightarrow> ProtocolEvent \<Rightarrow> bool" where
  "mysql_event_ok maxq meta e \<longleftrightarrow> tagged ''mysql'' meta e \<and>
     (\<exists>d. ev_DBDetail e = Some d \<and> (0 < maxq \<longrightarrow> len (db_Statement d) \<le> maxq))"

lemma mysql_decodePacket_ok:
  "returns (mysql_decodePacket maxq now payload meta c)
     (\<lambda>ev. \<forall>e. ev = Some e \<longrightarrow> mysql_event_ok maxq meta e)"
  by (auto simp: mysql_decodePacket_def mysql_decodeCommand_def mysql_decodeResponse_def
      mysql_extractString_eq mysql_event_ok_def zeroDBDetail_def wp intro!: returns_binary)

lemma mysql_next_ok:
  "returns (mysql_next maxq now meta c d)
     (\<lambda>r. \<forall>es n. r = Some (es, n) \<longrightarrow> (\<forall>e \<in> set es. mysql_event_ok maxq meta e))"
  by (auto simp: mysql_next_def wp intro!: returns_binary returns_mono [OF mysql_decodePacket_ok])

lemma mysql_next_cases:
  assumes "mysql_next maxq now meta c d = Some (Some (es, n))"
  shows "\<exists>payload ev. 4 < n \<and> n \<le> len d \<and> le24 d = Some (n - 4) \<and> go_slice d 4 n = Some payload \<and>
    mysql_decodePacket maxq now payload meta c = Some ev \<and> es = opt_list ev"
  using assms le24_nonneg [of d]
  by (auto simp: mysql_next_def bind_eq_Some_conv Let_def split: if_splits)

interpretation mysql_frames: safe_framing "mysql_next maxq now meta c" for maxq now meta c
proof
  fix d es n and r :: bytes
  assume "mysql_next maxq now meta c d = Some (Some (es, n))"
  from mysql_next_cases [OF this] obtain payload ev where
    n: "4 < n" "n \<le> len d" and l: "le24 d = Some (n - 4)" and p: "go_slice d 4 n = Some payload"
    and e: "mysql_decodePacket maxq now payload meta c = Some ev" "es = opt_list ev"
    by blast
  from n show "0 < n \<and> n \<le> len d" by simp
  from n l p e show "mysql_next maxq now meta c (take (nat n) d @ r) = Some (Some (es, n))"
    by (simp add: mysql_next_def go_local)
qed (rule returns_not_panic [OF mysql_next_ok])

lemma mysql_Parse_ok:
  "returns (mysql_Parse maxq now data meta c)
     (\<lambda>r. \<exists>evs. r = Inr evs \<and> (\<forall>e \<in> set evs. mysql_event_ok maxq meta e))"
  using mysql_frames.loop_ok [OF mysql_next_ok] by (simp add: mysql_Parse_def wp)

interpretation mysql_iface: safe_parser "mysql_parser maxq" for maxq
  by (rule stateless_safe)
    (auto simp: mysql_parser_def mysql_Probe_def mysql_event_ok_def wp
      intro!: returns_binary returns_mono [OF mysql_Parse_ok])

lemma mysql_next_packet:
  assumes "payload \<noteq> []" "length payload < 2 ^ 24"
  shows "mysql_next maxq now meta True (mysql_packet sq payload) =
    Some (Some (opt_list (mysql_request_event maxq now meta payload), len (mysql_packet sq payload)))"
proof -
  obtain cmd sql where p: "payload = cmd # sql" using assms(1) by (cases payload) auto
  show ?thesis
    using assms(2) le24_put [of "Suc (length sql)" "sq # cmd # sql"]
    by (simp add: p mysql_next_def mysql_packet_def mysql_decodePacket_def mysql_decodeCommand_def comQuery_def comStmtPrepare_def
        mysql_extractString_eq mysql_statement_event_def go_safe put_le24_def Let_def)
qed

text \<open>A packet that has not arrived completely.\<close>

lemma mysql_next_incomplete:
  assumes "strict_prefix d (mysql_packet sq p)" "length p < 2 ^ 24"
  shows "mysql_next maxq now meta c d = Some None"
proof (cases "4 \<le> length d")
  case True
  obtain r where r: "mysql_packet sq p = d @ r" "r \<noteq> []" using assms(1) by (auto simp: strict_prefix_def prefix_def)
  have "take 3 d = put_le24 (length p)"
    using arg_cong [OF r(1), of "take 3"] True by (simp add: mysql_packet_def put_le24_def)
  then obtain x where x: "d = put_le24 (length p) @ x" by (metis append_take_drop_id)
  have "length d < 4 + length p" using arg_cong [OF r(1), of length] r(2) by (cases r) (simp_all add: mysql_packet_def put_le24_def)
  then show ?thesis
    using le24_put [OF assms(2), of x] True by (simp add: mysql_next_def x)
qed (simp add: mysql_next_def)

lemma mysql_incomplete:
  "strict_prefix d (mysql_packet sq p) \<Longrightarrow> length p < 2 ^ 24 \<Longrightarrow> mysql_Parse maxq now d meta c = Some (Inr [])"
  by (simp add: mysql_Parse_def frame_loop.simps mysql_next_incomplete)

section \<open>Properties\<close>

text \<open>
  The MySQL parser never panics and never reports an error: on every byte string it returns a
  list of events, each a MySQL event of the connection whose database detail has a statement no
  longer than the configured limit.
\<close>

lemma mysql_Parse_total:
  "\<exists>evs. mysql_Parse maxq now data meta c = Some (Inr evs) \<and> list_all (mysql_event_ok maxq meta) evs"
  using returns_ex [OF mysql_Parse_ok [of maxq now data meta c]] by (auto simp: list_all_iff)

text \<open>
  The packets of a client, followed by an incomplete packet, decode to one event per query and prepared statement,
  in order, with the SQL text cut to the limit, and to nothing for the other packets.
\<close>

lemma mysql_commands_roundtrip:
  assumes "\<forall>q \<in> set ps. snd q \<noteq> [] \<and> length (snd q) < 2 ^ 24"
    and "strict_prefix partial (mysql_packet sq p)" "length p < 2 ^ 24"
  shows "mysql_Parse maxq now (concat (map (\<lambda>(sq, payload). mysql_packet sq payload) ps) @ partial) meta True =
    Some (Inr (List.map_filter (\<lambda>(sq, payload). mysql_request_event maxq now meta payload) ps))"
proof -
  let ?next = "mysql_next maxq now meta True"
  let ?p = "\<lambda>(sq, payload). mysql_packet sq payload"
  have "\<forall>m \<in> set (map ?p ps). \<exists>es. ?next m = Some (Some (es, len m))"
    using assms(1) mysql_next_packet by fastforce
  from mysql_frames.loop_messages [OF this, of partial]
  have "frame_loop ?next (concat (map ?p ps) @ partial) =
      Some (concat (map (frame_events ?next) (map ?p ps)))"
    using mysql_next_incomplete [OF assms(2,3)] by (simp add: frame_loop.simps [of _ partial])
  also have "concat (map (frame_events ?next) (map ?p ps)) =
      List.map_filter (\<lambda>(sq, payload). mysql_request_event maxq now meta payload) ps"
    using assms(1)
    by (induction ps) (auto simp: frame_events_def mysql_next_packet map_filter_def opt_list_def split: option.splits)
  finally show ?thesis by (simp add: mysql_Parse_def)
qed

end
