(* ===== verification/Postgres.thy ===== *)
theory Postgres
  imports Protocol
begin

text \<open>
  The PostgreSQL parser (\<^verbatim>\<open>internal/protocol/postgres/parser.go\<close>). \<open>pg_next\<close> is one iteration
  of the message loop, \<open>pg_skip_startup\<close> the code before the loop that steps over a startup
  message, \<open>pg_error_fields\<close> the loop of \<^verbatim>\<open>decodeErrorResponse\<close>.
\<close>

fun nullTermIdx :: "bytes \<Rightarrow> int" where
  "nullTermIdx [] = -1"
| "nullTermIdx (c # cs) =
     (if c = 0 then 0 else (let r = nullTermIdx cs in if r < 0 then -1 else r + 1))"

definition cstring :: "bytes \<Rightarrow> string go" where
  "cstring b =
     (let idx = nullTermIdx b
      in if idx < 0 then Some (string_of b) else do { h \<leftarrow> go_upto b idx; Some (string_of h) })"

definition pg_truncate :: "int \<Rightarrow> string \<Rightarrow> string go" where
  "pg_truncate maxq s = (if 0 < maxq \<and> maxq < len s then go_upto s maxq else Some s)"

definition pg_decodeSimpleQuery :: "int \<Rightarrow> int \<Rightarrow> bytes \<Rightarrow> ConnMeta \<Rightarrow> ProtocolEvent option go" where
  "pg_decodeSimpleQuery maxq now payload meta = do {
     sql \<leftarrow> cstring payload;
     let ev = fillMeta (NewEvent now ''postgres'' DirectionRequest) meta;
     stmt \<leftarrow> pg_truncate maxq sql;
     Some (Some (ev\<lparr>ev_DBDetail := Some (zeroDBDetail\<lparr>db_System := ''postgres'',
       db_Operation := ''SimpleQuery'', db_Statement := stmt\<rparr>)\<rparr>)) }"

definition pg_decodeParse :: "int \<Rightarrow> int \<Rightarrow> bytes \<Rightarrow> ConnMeta \<Rightarrow> ProtocolEvent option go" where
  "pg_decodeParse maxq now payload meta =
     (let idx = nullTermIdx payload
      in if idx < 0 then Some None
         else do {
           rest \<leftarrow> go_from payload (idx + 1);
           sql \<leftarrow> cstring rest;
           let ev = fillMeta (NewEvent now ''postgres'' DirectionRequest) meta;
           stmt \<leftarrow> pg_truncate maxq sql;
           Some (Some (ev\<lparr>ev_DBDetail := Some (zeroDBDetail\<lparr>db_System := ''postgres'',
             db_Operation := ''Parse'', db_Statement := stmt\<rparr>)\<rparr>)) })"

record pg_error =
  pg_severity :: string
  pg_code :: string
  pg_msg :: string

definition pg_set_field :: "byte \<Rightarrow> string \<Rightarrow> pg_error \<Rightarrow> pg_error" where
  "pg_set_field fieldType val e =
     (if fieldType = 83 then e\<lparr>pg_severity := val\<rparr>
      else if fieldType = 67 then e\<lparr>pg_code := val\<rparr>
      else if fieldType = 77 then e\<lparr>pg_msg := val\<rparr>
      else e)"

function pg_error_fields :: "bytes \<Rightarrow> pg_error \<Rightarrow> pg_error go" where
  "pg_error_fields payload e =
     (if len payload = 0 then Some e
      else do {
        fieldType \<leftarrow> go_index payload 0;
        rest \<leftarrow> go_from payload 1;
        if fieldType = 0 then Some e
        else do {
          val \<leftarrow> cstring rest;
          let advance = len val + 1;
          if advance > len rest then Some e
          else do {
            rest' \<leftarrow> go_from rest advance;
            pg_error_fields rest' (pg_set_field fieldType val e) } } })"
  by pat_completeness auto
termination
  by (relation "measure (\<lambda>(payload, e). length payload)")
    (auto simp: go_from_def go_slice_def split: if_splits)

declare pg_error_fields.simps [simp del]

definition pg_decodeErrorResponse :: "int \<Rightarrow> bytes \<Rightarrow> ConnMeta \<Rightarrow> ProtocolEvent option go" where
  "pg_decodeErrorResponse now payload meta = do {
     f \<leftarrow> pg_error_fields payload \<lparr>pg_severity = [], pg_code = [], pg_msg = []\<rparr>;
     let ev = fillMeta (NewEvent now ''postgres'' DirectionResponse) meta;
     Some (Some (ev\<lparr>ev_DBDetail := Some (zeroDBDetail\<lparr>db_System := ''postgres'',
       db_Operation := ''ErrorResponse'',
       db_ErrorMsg := pg_severity f @ '' '' @ pg_code f @ '': '' @ pg_msg f\<rparr>)\<rparr>)) }"

definition pg_decodeMessage ::
  "int \<Rightarrow> int \<Rightarrow> byte \<Rightarrow> bytes \<Rightarrow> ConnMeta \<Rightarrow> bool \<Rightarrow> ProtocolEvent option go" where
  "pg_decodeMessage maxq now tag payload meta isFromClient =
     (if tag = 81 then pg_decodeSimpleQuery maxq now payload meta
      else if tag = 80 then pg_decodeParse maxq now payload meta
      else if tag = 69 then
        (if \<not> isFromClient then pg_decodeErrorResponse now payload meta else Some None)
      else Some None)"

definition pg_next ::
  "int \<Rightarrow> int \<Rightarrow> ConnMeta \<Rightarrow> bool \<Rightarrow> bytes \<Rightarrow> (ProtocolEvent list \<times> int) option go" where
  "pg_next maxq now meta isFromClient data =
     (if len data < 5 then Some None
      else do {
        tag \<leftarrow> go_index data 0;
        lenBytes \<leftarrow> go_slice data 1 5;
        l \<leftarrow> be32 lenBytes;
        let msgLen = uint l;
        let totalLen = 1 + msgLen;
        if msgLen < 4 \<or> totalLen > len data then Some None
        else do {
          payload \<leftarrow> go_slice data 5 totalLen;
          ev \<leftarrow> pg_decodeMessage maxq now tag payload meta isFromClient;
          Some (Some (opt_list ev, totalLen)) } })"

definition pg_skip_startup :: "bytes \<Rightarrow> bool \<Rightarrow> bytes go" where
  "pg_skip_startup data isFromClient =
     (if isFromClient \<and> 8 \<le> len data then do {
        vb \<leftarrow> go_slice data 4 8;
        version \<leftarrow> be32 vb;
        if version = 0x00030000 then do {
          lb \<leftarrow> go_slice data 0 4;
          l \<leftarrow> be32 lb;
          let msgLen = uint l;
          if 0 < msgLen \<and> msgLen \<le> len data then go_from data msgLen else Some data }
        else Some data }
      else Some data)"

definition pg_Parse :: "int \<Rightarrow> int \<Rightarrow> bytes \<Rightarrow> ConnMeta \<Rightarrow> bool \<Rightarrow> parse_result go" where
  "pg_Parse maxq now data meta isFromClient = do {
     rest \<leftarrow> pg_skip_startup data isFromClient;
     events \<leftarrow> frame_loop (pg_next maxq now meta isFromClient) rest;
     Some (Inr events) }"

definition pg_Probe :: "bytes \<Rightarrow> bool \<Rightarrow> int go" where
  "pg_Probe data isFromClient =
     (if len data < 8 then Some 0
      else do {
        vb \<leftarrow> go_slice data 4 8;
        version \<leftarrow> be32 vb;
        if isFromClient \<and> version = 0x00030000 then Some 90
        else do {
          tag \<leftarrow> go_index data 0;
          if tag \<in> set [81, 80, 69, 82, 84, 67, 90] \<and> 5 \<le> len data then do {
            lb \<leftarrow> go_slice data 1 5;
            l \<leftarrow> be32 lb;
            let msgLen = uint l;
            Some (if 4 \<le> msgLen \<and> msgLen + 1 \<le> len data then 80 else 0) }
          else Some 0 } })"

definition pg_parser :: "int \<Rightarrow> 's Parser" where
  "pg_parser maxq =
     \<lparr>Name = ''postgres'', Ports = [5432], Probe = pg_Probe,
      Parse = stateless (\<lambda>now data spare meta isFromClient. pg_Parse maxq now data meta isFromClient),
      OnConnClose = None\<rparr>"

text \<open>The wire format of the messages the round-trip lemmas use.\<close>

definition pg_message :: "byte \<Rightarrow> bytes \<Rightarrow> bytes" where
  "pg_message tag body = [tag] @ put_be32 (of_nat (4 + length body)) @ body"

definition pg_startup :: "bytes \<Rightarrow> bytes" where
  "pg_startup params = put_be32 (of_nat (8 + length params)) @ put_be32 0x00030000 @ params"

text \<open>
  The event of a message of the client by its tag: a simple query (\<^verbatim>\<open>Q\<close>) holds the statement up to the terminating zero, a
  Parse message (\<^verbatim>\<open>P\<close>) a name and the statement, each zero-terminated. Other messages (passwords, Bind, Execute,
  Sync, Terminate and so on) are not reported.
\<close>

definition zero_terminated :: "bytes \<Rightarrow> string" where
  "zero_terminated b = string_of (takeWhile (\<lambda>c. c \<noteq> 0) b)"

definition pg_statement_event :: "int \<Rightarrow> int \<Rightarrow> ConnMeta \<Rightarrow> string \<Rightarrow> string \<Rightarrow> ProtocolEvent" where
  "pg_statement_event maxq now meta op sql =
     (fillMeta (NewEvent now ''postgres'' DirectionRequest) meta)\<lparr>ev_DBDetail :=
        Some (zeroDBDetail\<lparr>db_System := ''postgres'', db_Operation := op,
          db_Statement := (if 0 < maxq then take (nat maxq) sql else sql)\<rparr>)\<rparr>"

definition pg_request_event :: "int \<Rightarrow> int \<Rightarrow> ConnMeta \<Rightarrow> byte \<times> bytes \<Rightarrow> ProtocolEvent option" where
  "pg_request_event maxq now meta m =
     (case m of (tag, body) \<Rightarrow>
        if tag = of_char CHR ''Q'' then Some (pg_statement_event maxq now meta ''SimpleQuery'' (zero_terminated body))
        else if tag = of_char CHR ''P'' \<and> 0 \<in> set body then
          Some (pg_statement_event maxq now meta ''Parse'' (zero_terminated (tl (dropWhile (\<lambda>c. c \<noteq> 0) body))))
        else None)"

section \<open>Lemmas\<close>

lemma nullTermIdx_range: "-1 \<le> nullTermIdx b \<and> nullTermIdx b < len b"
  by (induction b) (auto simp: Let_def)

lemma nullTermIdx_append: "0 \<notin> set a \<Longrightarrow> nullTermIdx (a @ 0 # r) = len a"
  by (induction a) (auto simp: Let_def)

lemma cstring_ok: "returns (cstring b) (\<lambda>s. length s \<le> length b)"
  using nullTermIdx_range [of b] by (auto simp: cstring_def wp)

lemma cstring_append: "0 \<notin> set a \<Longrightarrow> cstring (a @ 0 # r) = Some (string_of a)"
  by (simp add: cstring_def nullTermIdx_append go_safe Let_def)

lemma pg_truncate_eq: "pg_truncate maxq s = Some (if 0 < maxq then take (nat maxq) s else s)"
  by (auto simp: pg_truncate_def go_safe)

lemma pg_error_fields_ok: "returns (pg_error_fields payload e) (\<lambda>_. True)"
proof (induction payload e rule: pg_error_fields.induct)
  case (1 payload e)
  show ?case
    by (subst pg_error_fields.simps)
      (auto simp: wp go_safe Let_def intro!: returns_mono [OF cstring_ok] intro: "1.IH")
qed

definition pg_event_ok :: "int \<Rightarrow> ConnMeta \<Rightarrow> ProtocolEvent \<Rightarrow> bool" where
  "pg_event_ok maxq meta e \<longleftrightarrow> tagged ''postgres'' meta e \<and>
     (\<exists>d. ev_DBDetail e = Some d \<and> (0 < maxq \<longrightarrow> len (db_Statement d) \<le> maxq))"

lemma pg_decodeMessage_ok:
  "returns (pg_decodeMessage maxq now tag payload meta c)
     (\<lambda>ev. \<forall>e. ev = Some e \<longrightarrow> pg_event_ok maxq meta e)"
  using nullTermIdx_range [of payload]
  by (auto simp: pg_decodeMessage_def pg_decodeSimpleQuery_def pg_decodeParse_def
      pg_decodeErrorResponse_def pg_truncate_eq pg_event_ok_def zeroDBDetail_def wp
      intro!: returns_mono [OF cstring_ok] returns_mono [OF pg_error_fields_ok])

lemma pg_next_ok:
  "returns (pg_next maxq now meta c d)
     (\<lambda>r. \<forall>es n. r = Some (es, n) \<longrightarrow> (\<forall>e \<in> set es. pg_event_ok maxq meta e))"
  by (auto simp: pg_next_def wp intro!: returns_binary returns_mono [OF pg_decodeMessage_ok])

lemma pg_next_cases:
  assumes "pg_next maxq now meta c d = Some (Some (es, n))"
  shows "\<exists>tag lb l payload ev. 5 \<le> n \<and> n \<le> len d \<and> go_index d 0 = Some tag \<and>
    go_slice d 1 5 = Some lb \<and> be32 lb = Some l \<and> n = 1 + uint l \<and> go_slice d 5 n = Some payload \<and>
    pg_decodeMessage maxq now tag payload meta c = Some ev \<and> es = opt_list ev"
  using assms by (auto simp: pg_next_def bind_eq_Some_conv Let_def split: if_splits)

interpretation pg_frames: safe_framing "pg_next maxq now meta c" for maxq now meta c
proof
  fix d es n and r :: bytes
  assume "pg_next maxq now meta c d = Some (Some (es, n))"
  from pg_next_cases [OF this] obtain tag lb l payload ev where
    n: "5 \<le> n" "n \<le> len d" and t: "go_index d 0 = Some tag" and
    l: "go_slice d 1 5 = Some lb" "be32 lb = Some l" "n = 1 + uint l" and
    p: "go_slice d 5 n = Some payload" and
    e: "pg_decodeMessage maxq now tag payload meta c = Some ev" "es = opt_list ev"
    by blast
  from n show "0 < n \<and> n \<le> len d" by simp
  have "pg_next maxq now meta c (take (nat n) d @ r) = pg_next maxq now meta c d"
    using n t l p by (simp add: pg_next_def go_local)
  then show "pg_next maxq now meta c (take (nat n) d @ r) = Some (Some (es, n))"
    using \<open>pg_next maxq now meta c d = Some (Some (es, n))\<close> by simp
qed (rule returns_not_panic [OF pg_next_ok])

lemma pg_skip_startup_ok: "returns (pg_skip_startup data c) (\<lambda>r. suffix r data)"
  by (auto simp: pg_skip_startup_def wp suffix_drop intro!: returns_binary)

lemma pg_Parse_ok:
  "returns (pg_Parse maxq now data meta c)
     (\<lambda>r. \<exists>evs. r = Inr evs \<and> (\<forall>e \<in> set evs. pg_event_ok maxq meta e))"
  using pg_frames.loop_ok [OF pg_next_ok]
  by (auto simp: pg_Parse_def wp intro!: returns_mono [OF pg_skip_startup_ok])

interpretation pg_iface: safe_parser "pg_parser maxq" for maxq
  by (rule stateless_safe)
    (auto simp: pg_parser_def pg_Probe_def pg_event_ok_def wp
      intro!: returns_binary returns_mono [OF pg_Parse_ok])

lemma uint_of_nat_u32: "n < 2 ^ 32 \<Longrightarrow> uint (of_nat n :: u32) = int n"
  by (simp add: unsigned_of_nat take_bit_nat_eq_self)

lemma nullTermIdx_eq: "nullTermIdx b = (if 0 \<in> set b then len (takeWhile (\<lambda>c. c \<noteq> 0) b) else -1)"
  by (induction b) (auto simp: Let_def)

lemma cstring_eq: "cstring b = Some (zero_terminated b)"
proof (cases "0 \<in> set b")
  case True
  let ?h = "takeWhile (\<lambda>c. c \<noteq> 0) b"
  have "go_upto b (len ?h) = Some ?h"
    using length_takeWhile_le [of "\<lambda>c. c \<noteq> 0" b]
    by (simp add: go_upto_def go_slice_def) (rule takeWhile_eq_take [symmetric])
  with True show ?thesis by (simp add: cstring_def nullTermIdx_eq zero_terminated_def Let_def)
next
  case False
  then have "zero_terminated b = string_of b"
    unfolding zero_terminated_def by (intro arg_cong [where f = string_of]) (auto simp: takeWhile_eq_all_conv)
  with False show ?thesis by (simp add: cstring_def nullTermIdx_eq Let_def)
qed

lemma pg_decodeMessage_eq: "pg_decodeMessage maxq now tag body meta True = Some (pg_request_event maxq now meta (tag, body))"
proof -
  have rest: "go_from body (len (takeWhile (\<lambda>c. c \<noteq> 0) body) + 1) = Some (tl (dropWhile (\<lambda>c. c \<noteq> 0) body))" if "0 \<in> set body"
  proof -
    have "dropWhile (\<lambda>c. c \<noteq> 0) body \<noteq> []" using that by (simp add: dropWhile_eq_Nil_conv)
    then obtain x r where d: "dropWhile (\<lambda>c. c \<noteq> 0) body = x # r" by (cases "dropWhile (\<lambda>c. c \<noteq> 0) body") auto
    then have "body = (takeWhile (\<lambda>c. c \<noteq> 0) body @ [x]) @ r" by (metis append.assoc append_Cons append_Nil takeWhile_dropWhile_id)
    then show ?thesis using go_from_append [of "takeWhile (\<lambda>c. c \<noteq> 0) body @ [x]" r] d by (metis length_append_singleton list.sel(3) of_nat_Suc add.commute)
  qed
  show ?thesis
    by (auto simp: pg_decodeMessage_def pg_decodeSimpleQuery_def pg_decodeParse_def cstring_eq pg_truncate_eq nullTermIdx_eq
        rest pg_request_event_def pg_statement_event_def Let_def)
qed

lemma length_pg_message [simp]: "length (pg_message tag body) = 5 + length body"
  by (simp add: pg_message_def put_be32_def)

lemma pg_message_fields:
  assumes "length body + 4 < 2 ^ 32"
  shows "go_index (pg_message tag body @ r) 0 = Some tag"
    "\<exists>lb. go_slice (pg_message tag body @ r) 1 5 = Some lb \<and> be32 lb = Some (of_nat (4 + length body))"
    "uint (of_nat (4 + length body) :: u32) = 4 + len body"
    "go_slice (pg_message tag body @ r) 5 (5 + len body) = Some body"
proof -
  let ?l = "put_be32 (of_nat (4 + length body))"
  have n: "length ?l = 4" by (simp add: put_be32_def)
  have "go_slice ([tag] @ ?l @ body @ r) 1 5 = Some ?l"
    using go_slice_append [of "[tag]" ?l "body @ r"] n by simp
  then show "\<exists>lb. go_slice (pg_message tag body @ r) 1 5 = Some lb \<and> be32 lb = Some (of_nat (4 + length body))"
    using be32_put [of _ "[]"] by (simp add: pg_message_def)
  show "uint (of_nat (4 + length body) :: u32) = 4 + len body"
    using assms by (subst uint_of_nat_u32) auto
  show "go_slice (pg_message tag body @ r) 5 (5 + len body) = Some body"
    using go_slice_append [of "[tag] @ ?l" body r] n by (simp add: pg_message_def)
  show "go_index (pg_message tag body @ r) 0 = Some tag" by (simp add: pg_message_def go_index_def)
qed

lemma pg_next_message:
  assumes "length body + 4 < 2 ^ 32"
  shows "pg_next maxq now meta True (pg_message tag body) =
    Some (Some (opt_list (pg_request_event maxq now meta (tag, body)), len (pg_message tag body)))"
  using pg_message_fields(1,2,4) [OF assms, of tag "[]"] pg_message_fields(3) [OF assms]
  by (auto simp: pg_next_def pg_decodeMessage_eq simp del: of_nat_add)

text \<open>A message that has not arrived completely.\<close>

lemma pg_next_incomplete:
  assumes "strict_prefix d (pg_message tag body)" "length body + 4 < 2 ^ 32"
  shows "pg_next maxq now meta c d = Some None"
proof (cases "5 \<le> length d")
  case True
  obtain r where r: "pg_message tag body = d @ r" "r \<noteq> []" using assms(1) by (auto simp: strict_prefix_def prefix_def)
  have l: "length d < 5 + length body" using arg_cong [OF r(1), of length] r(2) by (cases r) simp_all
  have "go_slice d 1 5 = go_slice (pg_message tag body) 1 5" "go_index d 0 = go_index (pg_message tag body) 0"
    using True by (simp add: r(1) go_slice_def, cases d) (simp_all add: r(1) go_index_def)
  then show ?thesis
    using pg_message_fields(1,2) [OF assms(2), of tag "[]"] pg_message_fields(3) [OF assms(2)] True l by (auto simp: pg_next_def simp del: of_nat_add)
qed (simp add: pg_next_def)

lemma pg_skip_startup_message:
  assumes "length params + 8 < 2 ^ 31"
  shows "pg_skip_startup (pg_startup params @ r) True = Some r"
proof -
  let ?l = "put_be32 (of_nat (8 + length params))" and ?v = "put_be32 0x00030000"
  have n: "length ?l = 4" "length ?v = 4" by (simp_all add: put_be32_def)
  have d: "pg_startup params @ r = ?l @ ?v @ params @ r" by (simp add: pg_startup_def)
  have "go_slice (pg_startup params @ r) 4 8 = Some ?v"
    using go_slice_append [of ?l ?v "params @ r"] n by (simp add: d)
  moreover have "go_slice (pg_startup params @ r) 0 4 = Some ?l"
    using go_slice_append [of "[]" ?l "?v @ params @ r"] n by (simp add: d)
  moreover have "be32 ?v = Some 0x00030000" "be32 ?l = Some (of_nat (8 + length params))"
    using be32_put [of _ "[]"] by simp_all
  moreover have "uint (of_nat (8 + length params) :: u32) = 8 + len params"
    using assms by (subst uint_of_nat_u32) auto
  moreover have "go_from (pg_startup params @ r) (8 + len params) = Some r"
    using n by (simp add: go_from_Some d nat_add_distrib)
  moreover have "len (pg_startup params @ r) = 8 + len params + len r"
    using n by (simp add: d)
  ultimately show ?thesis
    by (simp add: pg_skip_startup_def del: length_append of_nat_add)
qed

section \<open>Properties\<close>

text \<open>
  A client's startup message is skipped, and the messages that follow, the last perhaps incomplete, decode
  to one event per simple query and Parse message, in order, with the SQL text cut to the configured limit, and to nothing
  for the other messages.
\<close>

lemma pg_session_roundtrip:
  assumes "length params + 8 < 2 ^ 31" "\<forall>m \<in> set ms. length (snd m) + 4 < 2 ^ 32"
    and "strict_prefix partial (pg_message tag body)" "length body + 4 < 2 ^ 32"
  shows "pg_Parse maxq now (pg_startup params @ concat (map (\<lambda>(tag, body). pg_message tag body) ms) @ partial) meta True =
    Some (Inr (List.map_filter (pg_request_event maxq now meta) ms))"
proof -
  let ?next = "pg_next maxq now meta True"
  let ?p = "\<lambda>(tag, body). pg_message tag body"
  have "\<forall>m \<in> set (map ?p ms). \<exists>es. ?next m = Some (Some (es, len m))"
    using assms(2) pg_next_message by fastforce
  from pg_frames.loop_messages [OF this, of partial]
  have "frame_loop ?next (concat (map ?p ms) @ partial) = Some (concat (map (frame_events ?next) (map ?p ms)))"
    using pg_next_incomplete [OF assms(3,4)] by (simp add: frame_loop.simps [of _ partial])
  also have "concat (map (frame_events ?next) (map ?p ms)) = List.map_filter (pg_request_event maxq now meta) ms"
    using assms(2)
    by (induction ms) (auto simp: frame_events_def pg_next_message map_filter_def opt_list_def split: option.splits)
  finally show ?thesis
    by (simp add: pg_Parse_def pg_skip_startup_message [OF assms(1)])
qed

text \<open>
  A client that asks for TLS first sends an SSLRequest of eight bytes, which the parser does not know. It reads
  the first five as the header of a message of 2052 bytes, so that of a connection that goes on in plain text it reports nothing
  as long as that many bytes have not arrived.
\<close>

lemma pg_ssl_request_blocks:
  assumes "length r < 2045"
  shows "pg_Parse maxq now (put_be32 8 @ put_be32 80877103 @ r) meta True = Some (Inr [])"
proof -
  have d: "put_be32 8 @ put_be32 80877103 @ r = [0, 0, 0, 8, 4, 210, 22, 47] @ r"
    by (simp add: put_be32_def drop_bit_eq_div)
  show ?thesis
    using assms
    by (simp add: d pg_Parse_def pg_skip_startup_def frame_loop.simps pg_next_def go_slice_def go_index_def be32_def Let_def)
qed

text \<open>
  The PostgreSQL parser never panics and never reports an error: on every byte string it returns
  a list of events, each a PostgreSQL event of the connection whose database detail has a statement
  no longer than the configured limit.
\<close>

lemma pg_Parse_total:
  "\<exists>evs. pg_Parse maxq now data meta c = Some (Inr evs) \<and> list_all (pg_event_ok maxq meta) evs"
  using returns_ex [OF pg_Parse_ok [of maxq now data meta c]] by (auto simp: list_all_iff)

end
