(* ===== verification/Mongodb.thy ===== *)
theory Mongodb
  imports Protocol
begin

text \<open>
  The MongoDB parser (\<^verbatim>\<open>internal/protocol/mongodb/parser.go\<close>). \<open>mongo_next\<close> is one iteration
  of the message loop; \<open>extractFirstKey\<close> reads the command name and the collection from the
  first element of a BSON document.
\<close>

definition headerSize :: int where "headerSize = 16"
definition opReply :: u32 where "opReply = 1"
definition opMsg :: u32 where "opMsg = 2013"
definition opQuery :: u32 where "opQuery = 2004"
definition opCompressed :: u32 where "opCompressed = 2012"

text \<open>
  \<^verbatim>\<open>for i, b := range data { if b == 0 { return string(data[:i]) } } return ""\<close>: the bytes
  before the first zero byte, and nothing when there is none.
\<close>

fun readCString_from :: "bytes \<Rightarrow> bytes \<Rightarrow> string" where
  "readCString_from seen [] = []"
| "readCString_from seen (b # bs) =
     (if b = 0 then string_of seen else readCString_from (seen @ [b]) bs)"

definition readCString :: "bytes \<Rightarrow> string" where
  "readCString data = readCString_from [] data"

definition extractFirstKey :: "bytes \<Rightarrow> (string \<times> string) go" where
  "extractFirstKey data =
     (if len data < 5 then Some ([], [])
      else do {
        db \<leftarrow> go_slice data 0 4;
        d \<leftarrow> le32 db;
        let docLen = uint d;
        if docLen < 5 \<or> docLen > len data then Some ([], [])
        else do {
          elem \<leftarrow> go_from data 4;
          if len elem < 2 then Some ([], [])
          else do {
            elemType \<leftarrow> go_index elem 0;
            elem \<leftarrow> go_from elem 1;
            let key = readCString elem;
            if key = [] then Some ([], [])
            else do {
              let valStart = len key + 1;
              if valStart \<ge> len elem then Some (key, [])
              else do {
                valData \<leftarrow> go_from elem valStart;
                if elemType = 0x02 \<and> 4 \<le> len valData then do {
                  sb \<leftarrow> go_slice valData 0 4;
                  sl \<leftarrow> le32 sb;
                  let strLen = uint sl;
                  if 0 < strLen \<and> strLen - 1 \<le> len valData - 4 then do {
                    v \<leftarrow> go_slice valData 4 (4 + strLen - 1);
                    Some (key, string_of v) }
                  else Some (key, []) }
                else Some (key, []) } } } } })"

definition mongo_decodeOpMsg ::
  "int \<Rightarrow> bytes \<Rightarrow> ConnMeta \<Rightarrow> bool \<Rightarrow> ProtocolEvent option go" where
  "mongo_decodeOpMsg now body meta isFromClient =
     (if len body < 5 then Some None
      else do {
        sectionData \<leftarrow> go_from body 4;
        if len sectionData < 1 then Some None
        else do {
          kind \<leftarrow> go_index sectionData 0;
          if kind \<noteq> 0 then Some None
          else do {
            bsonDoc \<leftarrow> go_from sectionData 1;
            (cmdName, collection) \<leftarrow> extractFirstKey bsonDoc;
            if cmdName = [] then Some None
            else
              (let ev = fillMeta (NewEvent now ''mongodb'' (sideDirection isFromClient)) meta
               in Some (Some (ev\<lparr>ev_DBDetail := Some (zeroDBDetail\<lparr>db_System := ''mongodb'',
                    db_Operation := cmdName, db_Table := collection\<rparr>)\<rparr>))) } } })"

definition mongo_decodeOpQuery :: "int \<Rightarrow> bytes \<Rightarrow> ConnMeta \<Rightarrow> ProtocolEvent option go" where
  "mongo_decodeOpQuery now body meta =
     (if len body < 4 then Some None
      else do {
        rest \<leftarrow> go_from body 4;
        let collName = readCString rest;
        if collName = [] then Some None
        else
          (let ev = fillMeta (NewEvent now ''mongodb'' DirectionRequest) meta
           in Some (Some (ev\<lparr>ev_DBDetail := Some (zeroDBDetail\<lparr>db_System := ''mongodb'',
                db_Operation := ''query'', db_Table := collName\<rparr>)\<rparr>))) })"

definition mongo_decodeMessage ::
  "int \<Rightarrow> u32 \<Rightarrow> bytes \<Rightarrow> ConnMeta \<Rightarrow> bool \<Rightarrow> ProtocolEvent option go" where
  "mongo_decodeMessage now opCode body meta isFromClient =
     (if opCode = opMsg then mongo_decodeOpMsg now body meta isFromClient
      else if opCode = opQuery then mongo_decodeOpQuery now body meta
      else Some None)"

definition mongo_next ::
  "int \<Rightarrow> ConnMeta \<Rightarrow> bool \<Rightarrow> bytes \<Rightarrow> (ProtocolEvent list \<times> int) option go" where
  "mongo_next now meta isFromClient data =
     (if len data < headerSize then Some None
      else do {
        lb \<leftarrow> go_slice data 0 4;
        l \<leftarrow> le32 lb;
        let msgLen = uint l;
        if msgLen < headerSize \<or> msgLen > len data then Some None
        else do {
          ob \<leftarrow> go_slice data 12 16;
          opCode \<leftarrow> le32 ob;
          body \<leftarrow> go_slice data headerSize msgLen;
          ev \<leftarrow> mongo_decodeMessage now opCode body meta isFromClient;
          Some (Some (opt_list ev, msgLen)) } })"

definition mongo_Parse :: "int \<Rightarrow> bytes \<Rightarrow> ConnMeta \<Rightarrow> bool \<Rightarrow> parse_result go" where
  "mongo_Parse now data meta isFromClient =
     map_option Inr (frame_loop (mongo_next now meta isFromClient) data)"

definition mongo_Probe :: "bytes \<Rightarrow> bool \<Rightarrow> int go" where
  "mongo_Probe data isFromClient =
     (if len data < headerSize then Some 0
      else do {
        lb \<leftarrow> go_slice data 0 4;
        msgLen \<leftarrow> le32 lb;
        ob \<leftarrow> go_slice data 12 16;
        opCode \<leftarrow> le32 ob;
        Some (if msgLen < 16 \<or> msgLen > 48 * 1024 * 1024 then 0
              else if opCode = opMsg then 90
              else if opCode = opQuery \<or> opCode = opReply \<or> opCode = opCompressed then 75
              else 0) })"

text \<open>The length limit of \<^verbatim>\<open>NewParser\<close> is stored but no method of the parser reads it.\<close>

definition mongo_parser :: "int \<Rightarrow> 's Parser" where
  "mongo_parser maxq =
     \<lparr>Name = ''mongodb'', Ports = [27017, 27018, 27019], Probe = mongo_Probe,
      Parse = stateless (\<lambda>now data spare meta isFromClient. mongo_Parse now data meta isFromClient),
      OnConnClose = None\<rparr>"

section \<open>Lemmas\<close>

lemma readCString_from_append:
  "0 \<notin> set a \<Longrightarrow> readCString_from seen (a @ 0 # r) = string_of (seen @ a)"
  by (induction a arbitrary: seen) auto

lemma readCString_append: "0 \<notin> set a \<Longrightarrow> readCString (a @ 0 # r) = string_of a"
  by (simp add: readCString_def readCString_from_append)

lemma readCString_from_none: "0 \<notin> set b \<Longrightarrow> readCString_from seen b = []"
  by (induction b arbitrary: seen) auto

text \<open>The key is the part before the first zero byte, and that byte exists.\<close>

lemma readCString_split:
  "readCString b \<noteq> [] \<Longrightarrow> \<exists>a r. b = a @ 0 # r \<and> 0 \<notin> set a \<and> readCString b = string_of a"
proof (cases "0 \<in> set b")
  case True
  then obtain a r where "b = a @ 0 # r" "0 \<notin> set a" by (blast dest: split_list_first)
  then show ?thesis using readCString_append by blast
qed (simp add: readCString_def readCString_from_none)

lemma extractFirstKey_ok: "returns (extractFirstKey data) (\<lambda>_. True)"
proof -
  have "len (readCString e) + 1 \<le> len e" if "readCString e \<noteq> []" for e
    using readCString_split [OF that] by force
  then show ?thesis
    by (auto simp: extractFirstKey_def wp intro!: returns_binary)
qed

lemma mongo_decodeMessage_ok:
  "returns (mongo_decodeMessage now opCode body meta c)
     (\<lambda>ev. \<forall>e. ev = Some e \<longrightarrow> tagged ''mongodb'' meta e)"
  by (auto simp: mongo_decodeMessage_def mongo_decodeOpMsg_def mongo_decodeOpQuery_def wp
      intro!: returns_mono [OF extractFirstKey_ok])

lemma mongo_next_ok:
  "returns (mongo_next now meta c d)
     (\<lambda>r. \<forall>es n. r = Some (es, n) \<longrightarrow> (\<forall>e \<in> set es. tagged ''mongodb'' meta e))"
  by (auto simp: mongo_next_def headerSize_def wp
      intro!: returns_binary returns_mono [OF mongo_decodeMessage_ok])

lemma mongo_next_cases:
  assumes "mongo_next now meta c d = Some (Some (es, n))"
  shows "\<exists>lb l ob opCode body ev. 16 \<le> n \<and> n \<le> len d \<and> go_slice d 0 4 = Some lb \<and>
    le32 lb = Some l \<and> uint l = n \<and> go_slice d 12 16 = Some ob \<and> le32 ob = Some opCode \<and>
    go_slice d 16 n = Some body \<and> mongo_decodeMessage now opCode body meta c = Some ev \<and>
    es = opt_list ev"
  using assms by (auto simp: mongo_next_def headerSize_def bind_eq_Some_conv Let_def split: if_splits)

interpretation mongo_frames: safe_framing "mongo_next now meta c" for now meta c
proof
  fix d es n and r :: bytes
  assume nx: "mongo_next now meta c d = Some (Some (es, n))"
  from mongo_next_cases [OF nx] obtain lb l ob opCode body ev where
    n: "16 \<le> n" "n \<le> len d" and l: "go_slice d 0 4 = Some lb" "le32 lb = Some l" "uint l = n"
    and b: "go_slice d 12 16 = Some ob" "go_slice d 16 n = Some body"
    by blast
  from n show "0 < n \<and> n \<le> len d" by simp
  have "mongo_next now meta c (take (nat n) d @ r) = mongo_next now meta c d"
    using n l b by (simp add: mongo_next_def headerSize_def go_local)
  with nx show "mongo_next now meta c (take (nat n) d @ r) = Some (Some (es, n))" by simp
qed (rule returns_not_panic [OF mongo_next_ok])

lemma mongo_Parse_ok:
  "returns (mongo_Parse now data meta c)
     (\<lambda>r. \<exists>evs. r = Inr evs \<and> (\<forall>e \<in> set evs. tagged ''mongodb'' meta e))"
  using mongo_frames.loop_ok [OF mongo_next_ok] by (simp add: mongo_Parse_def wp)

interpretation mongo_iface: safe_parser "mongo_parser maxq" for maxq
  by (rule stateless_safe)
    (auto simp: mongo_parser_def mongo_Probe_def headerSize_def wp
      intro!: returns_binary returns_mono [OF mongo_Parse_ok])

section \<open>Properties\<close>

text \<open>
  C29: The MongoDB parser never panics and never reports an error, every event it returns is a MongoDB
  event of the connection, and data that arrives later never changes what was already decoded: the
  events of a longer buffer extend those of a shorter one.
\<close>

theorem mongo_Parse_incremental:
  "\<exists>evs more. mongo_Parse now data meta c = Some (Inr evs) \<and> list_all (tagged ''mongodb'' meta) evs \<and>
     mongo_Parse now (data @ later) meta c = Some (Inr (evs @ more))"
proof -
  obtain evs where "mongo_Parse now data meta c = Some (Inr evs)" "list_all (tagged ''mongodb'' meta) evs"
    using returns_ex [OF mongo_Parse_ok [of now data meta c]] by (auto simp: list_all_iff)
  then show ?thesis
    using mongo_frames.loop_extends by (fastforce simp: mongo_Parse_def)
qed

end
