(* ===== verification/Mqtt.thy ===== *)
theory Mqtt
  imports Protocol
begin

text \<open>
  The MQTT parser (\<^verbatim>\<open>internal/protocol/mqtt/parser.go\<close>). \<open>decodeRemainingLength\<close> is the
  variable-length integer of the fixed header, \<open>mqtt_next\<close> one iteration of the packet loop.
\<close>

definition pktNames :: "byte \<rightharpoonup> string" where
  "pktNames = map_of [(1, ''CONNECT''), (2, ''CONNACK''), (3, ''PUBLISH''), (4, ''PUBACK''),
     (5, ''PUBREC''), (6, ''PUBREL''), (7, ''PUBCOMP''), (8, ''SUBSCRIBE''),
     (9, ''SUBACK''), (10, ''UNSUBSCRIBE''), (11, ''UNSUBACK''),
     (12, ''PINGREQ''), (13, ''PINGRESP''), (14, ''DISCONNECT'')]"

definition pktCONNECT :: byte where "pktCONNECT = 1"
definition pktPUBLISH :: byte where "pktPUBLISH = 3"

text \<open>
  The loop \<^verbatim>\<open>for i := 0; i < 4 && i < len(data); i++\<close>. The first argument counts the
  iterations that remain, so that \<open>i = 4 - n\<close>.
\<close>

fun remaining_loop :: "nat \<Rightarrow> bytes \<Rightarrow> int \<Rightarrow> int \<Rightarrow> int \<Rightarrow> (int \<times> int) go" where
  "remaining_loop 0 data i multiplier val = Some (0, -1)"
| "remaining_loop (Suc n) data i multiplier val =
     (if i < len data then do {
        b \<leftarrow> go_index data i;
        let val' = val + uint (b AND 0x7F) * multiplier;
        if b AND 0x80 = 0 then Some (val', i + 1)
        else remaining_loop n data (i + 1) (multiplier * 128) val' }
      else Some (0, -1))"

definition decodeRemainingLength :: "bytes \<Rightarrow> (int \<times> int) go" where
  "decodeRemainingLength data = remaining_loop 4 data 0 1 0"

definition extractConnectClientID :: "bytes \<Rightarrow> string go" where
  "extractConnectClientID payload =
     (if len payload < 10 then Some []
      else do {
        pb \<leftarrow> go_slice payload 0 2;
        pl \<leftarrow> be16 pb;
        let protoNameLen = uint pl;
        let offset = 2 + protoNameLen + 1 + 1 + 2;
        if offset + 2 > len payload then Some []
        else do {
          cb \<leftarrow> go_slice payload offset (offset + 2);
          cl \<leftarrow> be16 cb;
          let clientIDLen = uint cl;
          let offset = offset + 2;
          if offset + clientIDLen > len payload then Some []
          else do {
            v \<leftarrow> go_slice payload offset (offset + clientIDLen);
            Some (string_of v) } } })"

definition extractPublishTopic :: "byte \<Rightarrow> bytes \<Rightarrow> string go" where
  "extractPublishTopic firstByte payload =
     (if len payload < 2 then Some []
      else do {
        tb \<leftarrow> go_slice payload 0 2;
        tl \<leftarrow> be16 tb;
        let topicLen = uint tl;
        if 2 + topicLen > len payload then Some []
        else do {
          v \<leftarrow> go_slice payload 2 (2 + topicLen);
          Some (string_of v) } })"

text \<open>The body of the loop once a complete packet is in the buffer.\<close>

definition mqtt_event ::
  "int \<Rightarrow> ConnMeta \<Rightarrow> bool \<Rightarrow> byte \<Rightarrow> byte \<Rightarrow> bytes \<Rightarrow> ProtocolEvent go" where
  "mqtt_event now meta isFromClient first pktType payload = do {
     let ev = fillMeta (NewEvent now ''mqtt'' (sideDirection isFromClient)) meta;
     let md = [''packet_type'' \<mapsto> case_option [] id (pktNames pktType)];
     if pktType = pktCONNECT then do {
       clientID \<leftarrow> extractConnectClientID payload;
       Some (ev\<lparr>ev_Metadata := (if clientID \<noteq> [] then md(''client_id'' \<mapsto> clientID) else md)\<rparr>) }
     else if pktType = pktPUBLISH then do {
       topic \<leftarrow> extractPublishTopic first payload;
       Some (ev\<lparr>ev_Metadata := (if topic \<noteq> [] then md(''topic'' \<mapsto> topic) else md)\<rparr>) }
     else Some (ev\<lparr>ev_Metadata := md\<rparr>) }"

definition mqtt_next ::
  "int \<Rightarrow> ConnMeta \<Rightarrow> bool \<Rightarrow> bytes \<Rightarrow> (ProtocolEvent list \<times> int) option go" where
  "mqtt_next now meta isFromClient data =
     (if len data < 2 then Some None
      else do {
        first \<leftarrow> go_index data 0;
        let pktType = drop_bit 4 first;
        if pktType < 1 \<or> pktType > 14 then Some None
        else do {
          tl \<leftarrow> go_from data 1;
          (remLen, lenBytes) \<leftarrow> decodeRemainingLength tl;
          if lenBytes \<le> 0 then Some None
          else do {
            let headerSz = 1 + lenBytes;
            let totalSize = headerSz + remLen;
            if totalSize > len data then Some None
            else do {
              payload \<leftarrow> go_slice data headerSz totalSize;
              ev \<leftarrow> mqtt_event now meta isFromClient first pktType payload;
              Some (Some ([ev], totalSize)) } } } })"

definition mqtt_Parse :: "int \<Rightarrow> bytes \<Rightarrow> ConnMeta \<Rightarrow> bool \<Rightarrow> parse_result go" where
  "mqtt_Parse now data meta isFromClient =
     map_option Inr (frame_loop (mqtt_next now meta isFromClient) data)"

definition mqtt_Probe :: "bytes \<Rightarrow> bool \<Rightarrow> int go" where
  "mqtt_Probe data isFromClient =
     (if len data < 2 then Some 0
      else do {
        first \<leftarrow> go_index data 0;
        let pktType = drop_bit 4 first;
        if pktType < 1 \<or> pktType > 14 then Some 0
        else do {
          tl \<leftarrow> go_from data 1;
          (v, n) \<leftarrow> decodeRemainingLength tl;
          Some (if n \<le> 0 then 0 else if pktType = pktCONNECT \<and> isFromClient then 95 else 70) } })"

definition mqtt_parser :: "'s Parser" where
  "mqtt_parser =
     \<lparr>Name = ''mqtt'', Ports = [1883, 8883], Probe = mqtt_Probe,
      Parse = stateless (\<lambda>now data spare meta isFromClient. mqtt_Parse now data meta isFromClient),
      OnConnClose = None\<rparr>"

text \<open>The encoder of the MQTT standard: seven bits per byte, the top bit set on all but the last.\<close>

fun encodeRemainingLength :: "nat \<Rightarrow> bytes" where
  "encodeRemainingLength n =
     (if n < 128 then [of_nat n]
      else (of_nat (n mod 128) OR 0x80) # encodeRemainingLength (n div 128))"

declare encodeRemainingLength.simps [simp del]

section \<open>Lemmas\<close>

lemma remaining_loop_ok:
  assumes "0 \<le> i" "0 \<le> val" "0 \<le> multiplier"
  shows "returns (remaining_loop n data i multiplier val)
     (\<lambda>(v, k). (k = -1 \<and> v = 0) \<or>
        (i < k \<and> k \<le> i + int n \<and> k \<le> len data \<and> val \<le> v \<and>
         v \<le> val + 127 * multiplier * (\<Sum>j<n. 128 ^ j)))"
  using assms
proof (induction n data i multiplier val rule: remaining_loop.induct)
  case (1 data i multiplier val)
  then show ?case by (simp add: wp)
next
  case (2 n data i multiplier val)
  let ?b = "data ! nat i"
  let ?v = "val + uint (?b AND 0x7F) * multiplier"
  have "uint (?b AND 0x7F) \<le> 127"
    using word_and_le1 [of ?b "0x7F"] by (simp add: word_le_def)
  then have b: "uint (?b AND 0x7F) * multiplier \<le> 127 * multiplier"
    using "2.prems"(3) by (rule mult_right_mono)
  have nn: "0 \<le> uint (?b AND 0x7F) * multiplier"
    using "2.prems"(3) by simp
  have geo: "(\<Sum>j<Suc n. (128::int) ^ j) = 1 + 128 * (\<Sum>j<n. 128 ^ j)"
    by (simp only: sum.lessThan_Suc_shift) (simp add: sum_distrib_left)
  have pos: "0 \<le> (\<Sum>j<n. (128::int) ^ j)"
    by (rule sum_nonneg) simp
  have step: "?v + 127 * (multiplier * 128) * S \<le> val + 127 * multiplier * (1 + 128 * S)"
    "127 * multiplier \<le> 127 * multiplier * (1 + 128 * S)" if "0 \<le> S" for S
    using b that "2.prems"(3) by (simp_all add: algebra_simps)
  show ?case
  proof (cases "i < len data")
    case True
    have IH: "returns (remaining_loop n data (i + 1) (multiplier * 128) ?v)
       (\<lambda>(v, k). (k = -1 \<and> v = 0) \<or>
          (i + 1 < k \<and> k \<le> i + 1 + int n \<and> k \<le> len data \<and> ?v \<le> v \<and>
           v \<le> ?v + 127 * (multiplier * 128) * (\<Sum>j<n. 128 ^ j)))" if "?b AND 0x80 \<noteq> 0"
      using "2.IH" [OF True _ refl] "2.prems" True that by (simp add: go_safe)
    show ?thesis
      using True "2.prems" b nn step [OF pos]
      unfolding remaining_loop.simps geo
      by (auto simp: wp intro!: returns_mono [OF IH])
  next
    case False
    then show ?thesis by (simp add: wp)
  qed
qed

lemma remaining_loop_range:
  "remaining_loop n data i mul val = Some (v, k) \<Longrightarrow> i < k \<or> k = -1"
proof (induction n data i mul val rule: remaining_loop.induct)
  case (2 n data i mul val)
  from "2.prems" show ?case
    by (auto simp: bind_eq_Some_conv Let_def split: if_splits dest!: "2.IH")
qed simp

lemma decodeRemainingLength_ok:
  "returns (decodeRemainingLength data)
     (\<lambda>(v, k). (k = -1 \<and> v = 0) \<or> (0 < k \<and> k \<le> 4 \<and> k \<le> len data \<and> 0 \<le> v \<and> v \<le> 268435455))"
  unfolding decodeRemainingLength_def
  by (rule returns_mono [OF remaining_loop_ok]) (auto simp: eval_nat_numeral)

lemma extract_ok:
  "returns (extractConnectClientID payload) (\<lambda>_. True)"
  "returns (extractPublishTopic b payload) (\<lambda>_. True)"
  by (auto simp: extractConnectClientID_def extractPublishTopic_def wp intro!: returns_binary)

lemma mqtt_event_ok: "returns (mqtt_event now meta c b t payload) (tagged ''mqtt'' meta)"
  by (auto simp: mqtt_event_def wp intro!: returns_mono [OF extract_ok(1)] returns_mono [OF extract_ok(2)])

lemma mqtt_next_ok:
  "returns (mqtt_next now meta c d)
     (\<lambda>r. \<forall>es n. r = Some (es, n) \<longrightarrow> (\<forall>e \<in> set es. tagged ''mqtt'' meta e))"
  by (auto simp: mqtt_next_def wp
      intro!: returns_mono [OF decodeRemainingLength_ok] returns_mono [OF mqtt_event_ok])

lemma remaining_loop_local:
  "0 \<le> i \<Longrightarrow> remaining_loop m d i mul val = Some (v, k) \<Longrightarrow> 0 < k \<Longrightarrow> k \<le> n \<Longrightarrow> n \<le> len d \<Longrightarrow>
     remaining_loop m (take (nat n) d @ r) i mul val = Some (v, k)"
proof (induction m d i mul val rule: remaining_loop.induct)
  case (2 m data i mul val)
  have "i < k \<or> k = -1"
    using remaining_loop_range "2.prems" by blast
  with "2.prems" have i: "i < k" by simp
  then have "go_index (take (nat n) data @ r) i = go_index data i" "i < len data"
    using "2.prems" by (simp_all add: go_local)
  with "2" i show ?case
    by (auto simp: bind_eq_Some_conv Let_def go_index_eq_Some split: if_splits)
qed simp

lemma decodeRemainingLength_local:
  assumes "decodeRemainingLength (drop 1 d) = Some (v, k)" "0 < k" "k + 1 \<le> n" "n \<le> len d"
  shows "decodeRemainingLength (drop 1 (take (nat n) d @ r)) = Some (v, k)"
proof -
  have "drop 1 (take (nat n) d @ r) = take (nat (n - 1)) (drop 1 d) @ r"
    using assms by (simp add: drop_take nat_diff_distrib)
  then show ?thesis
    using remaining_loop_local [of 0 4 "drop 1 d" 1 0 v k "n - 1" r] assms
    by (simp add: decodeRemainingLength_def)
qed

lemma mqtt_next_cases:
  assumes "mqtt_next now meta c d = Some (Some (es, n))"
  shows "\<exists>first remLen lenBytes payload ev. 2 \<le> len d \<and> go_index d 0 = Some first \<and>
    decodeRemainingLength (drop 1 d) = Some (remLen, lenBytes) \<and> 0 < lenBytes \<and> 0 \<le> remLen \<and>
    n = 1 + lenBytes + remLen \<and> n \<le> len d \<and> go_slice d (1 + lenBytes) n = Some payload \<and>
    \<not> (drop_bit 4 first < 1 \<or> drop_bit 4 first > 14) \<and>
    mqtt_event now meta c first (drop_bit 4 first) payload = Some ev \<and> es = [ev]"
proof -
  have d: "2 \<le> len d"
    using assms by (auto simp: mqtt_next_def split: if_splits)
  then have "go_from d 1 = Some (drop 1 d)"
    by (intro go_from_Some [THEN trans]) auto
  then show ?thesis
    using assms d returnsD [OF decodeRemainingLength_ok, of "drop 1 d"]
    by (fastforce simp: mqtt_next_def bind_eq_Some_conv Let_def split: if_splits)
qed

interpretation mqtt_frames: safe_framing "mqtt_next now meta c" for now meta c
proof
  fix d es n and r :: bytes
  assume nx: "mqtt_next now meta c d = Some (Some (es, n))"
  from mqtt_next_cases [OF nx] obtain first remLen lenBytes payload ev where
    f: "2 \<le> len d" "go_index d 0 = Some first"
    and l: "decodeRemainingLength (drop 1 d) = Some (remLen, lenBytes)" "0 < lenBytes" "0 \<le> remLen"
    and n: "1 + lenBytes + remLen = n" "n \<le> len d"
    and p: "go_slice d (1 + lenBytes) n = Some payload"
    and t: "\<not> (drop_bit 4 first < 1 \<or> drop_bit 4 first > 14)"
    and e: "mqtt_event now meta c first (drop_bit 4 first) payload = Some ev" "es = [ev]"
    by blast
  show "0 < n \<and> n \<le> len d" using l n by simp
  have "go_from (take (nat n) d @ r) 1 = Some (drop 1 (take (nat n) d @ r))"
    using l n by (simp add: go_safe)
  moreover have "decodeRemainingLength (drop 1 (take (nat n) d @ r)) = Some (remLen, lenBytes)"
    using l n by (intro decodeRemainingLength_local) auto
  ultimately show "mqtt_next now meta c (take (nat n) d @ r) = Some (Some (es, n))"
    using f l n p t e by (simp add: mqtt_next_def go_local)
qed (rule returns_not_panic [OF mqtt_next_ok])

lemma mqtt_Parse_ok:
  "returns (mqtt_Parse now data meta c)
     (\<lambda>r. \<exists>evs. r = Inr evs \<and> (\<forall>e \<in> set evs. tagged ''mqtt'' meta e))"
  using mqtt_frames.loop_ok [OF mqtt_next_ok] by (simp add: mqtt_Parse_def wp)

interpretation mqtt_iface: safe_parser mqtt_parser
  by (rule stateless_safe)
    (auto simp: mqtt_parser_def mqtt_Probe_def wp
      intro!: returns_mono [OF decodeRemainingLength_ok] returns_mono [OF mqtt_Parse_ok])

lemma encoded_byte:
  assumes "n < 128"
  shows "uint ((of_nat n :: byte) AND 0x7F) = int n" "(of_nat n :: byte) AND 0x80 = 0"
    "uint ((of_nat n OR 0x80 :: byte) AND 0x7F) = int n" "(of_nat n OR 0x80 :: byte) AND 0x80 \<noteq> 0"
proof -
  have m: "(0x7F :: byte) = mask 7" by (simp add: mask_eq_exp_minus_1)
  have low: "take_bit 7 (of_nat n :: byte) = of_nat n"
    using assms by (simp add: word_unat_eq_iff unsigned_take_bit_eq unsigned_of_nat take_bit_nat_eq_self)
  then have b: "\<not> bit (of_nat n :: byte) 7" by (metis bit_take_bit_iff less_irrefl)
  have v: "uint (of_nat n :: byte) = int n" using assms by (simp add: unsigned_of_nat take_bit_nat_eq_self)
  show "uint ((of_nat n :: byte) AND 0x7F) = int n"
    by (simp only: m take_bit_eq_mask [symmetric] low v)
  show "(of_nat n :: byte) AND 0x80 = 0"
    using b and_exp_eq_0_iff_not_bit [of "of_nat n :: byte" 7] by simp
  have "(of_nat n OR 0x80 :: byte) AND 0x7F = of_nat n AND 0x7F"
    by (simp add: bit.conj_disj_distrib2)
  then show "uint ((of_nat n OR 0x80 :: byte) AND 0x7F) = int n"
    by (simp only: m take_bit_eq_mask [symmetric] low v)
  have "bit (of_nat n OR 0x80 :: byte) 7" by (simp add: bit_or_iff)
  then show "(of_nat n OR 0x80 :: byte) AND 0x80 \<noteq> 0"
    using and_exp_eq_0_iff_not_bit [of "of_nat n OR 0x80 :: byte" 7] by simp
qed

lemma remaining_loop_encode:
  "0 < k \<Longrightarrow> n < 128 ^ k \<Longrightarrow> remaining_loop k (pre @ encodeRemainingLength n @ r) (len pre) mul val =
     Some (val + int n * mul, len pre + len (encodeRemainingLength n))"
proof (induction k arbitrary: n pre mul val)
  case (Suc k)
  let ?q = "n div 128"
  show ?case
  proof (cases "n < 128")
    case True
    then show ?thesis by (simp add: encodeRemainingLength.simps [of n] go_index_def encoded_byte)
  next
    case False
    let ?b = "of_nat (n mod 128) OR 0x80 :: byte"
    have e: "encodeRemainingLength n = ?b # encodeRemainingLength ?q"
      using False by (subst encodeRemainingLength.simps) simp
    have q: "?q < 128 ^ k" using Suc.prems by (simp add: less_mult_imp_div_less mult.commute)
    have "0 < k" using q False by (cases k) auto
    from Suc.IH [OF this q, of "pre @ [?b]" "mul * 128" "val + int (n mod 128) * mul"]
    have IH: "remaining_loop k (pre @ ?b # encodeRemainingLength ?q @ r) (len pre + 1) (mul * 128)
        (val + int (n mod 128) * mul) =
      Some (val + int (n mod 128) * mul + int ?q * (mul * 128), len pre + 1 + len (encodeRemainingLength ?q))"
      by (simp add: add.commute [of 1])
    have "int n = int (n mod 128) + 128 * int ?q"
      using mult_div_mod_eq [of 128 n] by linarith
    then have "val + int (n mod 128) * mul + int ?q * (mul * 128) = val + int n * mul"
      by (simp add: algebra_simps)
    then show ?thesis
      using IH encoded_byte [of "n mod 128"] by (simp add: e go_index_def)
  qed
qed simp

section \<open>Properties\<close>

text \<open>
  C30: The variable-length integer of the MQTT fixed header round-trips: whatever length below
  \<open>128 ^ 4\<close> a sender encodes, the decoder reads back, and it consumes exactly the bytes of the encoding.
\<close>

theorem remaining_length_roundtrip:
  assumes "n < 128 ^ 4"
  shows "decodeRemainingLength (encodeRemainingLength n @ r) =
    Some (int n, len (encodeRemainingLength n))"
  using remaining_loop_encode [OF _ assms, of "[]" r 1 0] by (simp add: decodeRemainingLength_def)

theorem remaining_length_roundtrip_witness:
  "decodeRemainingLength (encodeRemainingLength 321 @ [7]) = Some (321, len (encodeRemainingLength 321))"
  using remaining_length_roundtrip [of 321 "[7]"] by simp

text \<open>
  C31: The MQTT parser never panics and never reports an error, and each event it returns belongs to
  the connection; the decoded length of a packet is either rejected or at most 268435455 in at most
  four bytes of the buffer.
\<close>

theorem mqtt_Parse_total:
  "(\<exists>evs. mqtt_Parse now data meta c = Some (Inr evs) \<and> list_all (tagged ''mqtt'' meta) evs) \<and>
   (\<exists>v k. decodeRemainingLength data = Some (v, k) \<and>
      (k = -1 \<and> v = 0 \<or> 0 < k \<and> k \<le> 4 \<and> k \<le> len data \<and> 0 \<le> v \<and> v \<le> 268435455))"
  using returns_ex [OF mqtt_Parse_ok [of now data meta c]] returns_ex [OF decodeRemainingLength_ok [of data]]
  by (fastforce simp: list_all_iff)

end
