(* ===== verification/Redis.thy ===== *)
theory Redis
  imports Protocol
begin

text \<open>
  The Redis parser (\<^verbatim>\<open>internal/protocol/redis/parser.go\<close>). \<open>readRESPValue\<close> is recursive
  through nested arrays; \<open>resp_skip\<close> is the loop over their elements. The length of a bulk
  string comes from \<^verbatim>\<open>strconv.Atoi\<close> and ranges over all of \<^verbatim>\<open>int\<close>, so the additions to it are
  taken at 64 bits (\<open>wrap64\<close>); a length close to the maximum wraps the end position to a negative
  number, passes the bounds test of the source and makes the slice expression panic.
\<close>

definition readLine :: "bytes \<Rightarrow> (bytes \<times> int) go" where
  "readLine data =
     (let idx = Index data CRLF
      in if idx < 0 then Some ([], -1)
         else do { l \<leftarrow> go_upto data idx; Some (l, idx + 2) })"

lemma readLine_pos: "readLine data = Some (line, pos) \<Longrightarrow> pos = -1 \<or> 2 \<le> pos \<and> pos \<le> len data"
  using Index_le [of data CRLF] by (auto simp: readLine_def Let_def bind_eq_Some_conv split: if_splits)

text \<open>The value and the number of bytes consumed; \<open>([], 0)\<close> is the source's parse failure.\<close>

function readRESPValue :: "bytes \<Rightarrow> (string \<times> int) go"
  and resp_skip :: "int \<Rightarrow> bytes \<Rightarrow> int \<Rightarrow> int option go" where
  "readRESPValue data =
     (if len data = 0 then Some ([], 0)
      else do {
        first \<leftarrow> go_index data 0;
        (line, pos) \<leftarrow> readLine data;
        if pos < 0 then Some ([], 0)
        else if first = 43 \<or> first = 45 \<or> first = 58 then do {
          rest \<leftarrow> go_from line 1;
          Some (string_of rest, pos) }
        else if first = 36 then do {
          digits \<leftarrow> go_from line 1;
          case Atoi (string_of digits) of
            None \<Rightarrow> Some ([], 0)
          | Some l \<Rightarrow>
              if l < 0 then Some (''(nil)'', pos)
              else do {
                let endPos = wrap64 (pos + l + 2);
                if endPos > len data then Some ([], 0)
                else do {
                  v \<leftarrow> go_slice data pos (wrap64 (pos + l));
                  Some (string_of v, endPos) } } }
        else if first = 42 then do {
          digits \<leftarrow> go_from line 1;
          case Atoi (string_of digits) of
            None \<Rightarrow> Some ([], 0)
          | Some count \<Rightarrow>
              if count < 0 then Some ([], 0)
              else do {
                r \<leftarrow> resp_skip count data pos;
                case r of None \<Rightarrow> Some ([], 0) | Some cursor \<Rightarrow> Some (''(array)'', cursor) } }
        else Some (string_of line, pos) })"
| "resp_skip count data cursor =
     (if count \<le> 0 then Some (Some cursor)
      else do {
        rest \<leftarrow> go_from data cursor;
        (v, n) \<leftarrow> readRESPValue rest;
        if n \<le> 0 then Some None else resp_skip (count - 1) data (cursor + n) })"
  by pat_completeness auto
termination
proof (relation "measure (\<lambda>x. case x of Inl data \<Rightarrow> length data
                                  | Inr (count, data, cursor) \<Rightarrow> nat (len data + 1 - cursor))")
qed (auto simp: go_from_def go_slice_def split: if_splits dest: readLine_pos)

declare readRESPValue.simps [simp del] resp_skip.simps [simp del]

text \<open>The loop of \<^verbatim>\<open>decodeArray\<close> that collects the arguments of a command.\<close>

function redis_args :: "int \<Rightarrow> bytes \<Rightarrow> int \<Rightarrow> string list \<Rightarrow> (string list \<times> int) option go" where
  "redis_args count data cursor args =
     (if count \<le> 0 then Some (Some (args, cursor))
      else do {
        rest \<leftarrow> go_from data cursor;
        (v, n) \<leftarrow> readRESPValue rest;
        if n \<le> 0 then Some None else redis_args (count - 1) data (cursor + n) (args @ [v]) })"
  by pat_completeness auto
termination
  by (relation "measure (\<lambda>(count, data, cursor, args). nat count)") auto

declare redis_args.simps [simp del]

text \<open>What \<^verbatim>\<open>decodeArray\<close> returns once the loop has ended (\<^const>\<open>None\<close>: an element was unreadable).\<close>

definition redis_array_event ::
  "unicode \<Rightarrow> int \<Rightarrow> int \<Rightarrow> ConnMeta \<Rightarrow> bool \<Rightarrow> (string list \<times> int) option \<Rightarrow>
     (ProtocolEvent option \<times> int) go" where
  "redis_array_event U maxq now meta isFromClient r =
     (case r of
        None \<Rightarrow> Some (None, 0)
      | Some (args, cursor) \<Rightarrow>
          if len args = 0 then Some (None, cursor)
          else do {
            arg0 \<leftarrow> go_index args 0;
            let cmdName = ToUpper U arg0;
            let fullCmd = Join args '' '';
            stmt \<leftarrow> (if 0 < maxq \<and> maxq < len fullCmd then go_upto fullCmd maxq else Some fullCmd);
            let ev = fillMeta (NewEvent now ''redis'' (sideDirection isFromClient)) meta;
            Some (Some (ev\<lparr>ev_DBDetail := Some (zeroDBDetail\<lparr>db_System := ''redis'',
              db_Operation := cmdName, db_Statement := stmt\<rparr>)\<rparr>), cursor) })"

definition redis_decodeArray ::
  "unicode \<Rightarrow> int \<Rightarrow> int \<Rightarrow> bytes \<Rightarrow> ConnMeta \<Rightarrow> bool \<Rightarrow> (ProtocolEvent option \<times> int) go" where
  "redis_decodeArray U maxq now data meta isFromClient = do {
     (line, pos) \<leftarrow> readLine data;
     if pos < 0 then Some (None, 0)
     else do {
       digits \<leftarrow> go_from line 1;
       case Atoi (string_of digits) of
         None \<Rightarrow> Some (None, 0)
       | Some count \<Rightarrow>
           if count < 0 then Some (None, 0)
           else do {
             r \<leftarrow> redis_args count data pos [];
             redis_array_event U maxq now meta isFromClient r } } }"

definition redis_decodeError :: "int \<Rightarrow> bytes \<Rightarrow> ConnMeta \<Rightarrow> (ProtocolEvent option \<times> int) go" where
  "redis_decodeError now data meta = do {
     (line, pos) \<leftarrow> readLine data;
     if pos < 0 then Some (None, 0)
     else do {
       msg \<leftarrow> go_from line 1;
       let ev = fillMeta (NewEvent now ''redis'' DirectionResponse) meta;
       Some (Some (ev\<lparr>ev_DBDetail := Some (zeroDBDetail\<lparr>db_System := ''redis'',
         db_Operation := ''ERR'', db_ErrorMsg := string_of msg\<rparr>)\<rparr>), pos) } }"

definition redis_decodeOne ::
  "unicode \<Rightarrow> int \<Rightarrow> int \<Rightarrow> bytes \<Rightarrow> ConnMeta \<Rightarrow> bool \<Rightarrow> (ProtocolEvent option \<times> int) go" where
  "redis_decodeOne U maxq now data meta isFromClient =
     (if len data = 0 then Some (None, 0)
      else do {
        first \<leftarrow> go_index data 0;
        if first = 42 then redis_decodeArray U maxq now data meta isFromClient
        else if first = 45 then redis_decodeError now data meta
        else do { (v, n) \<leftarrow> readRESPValue data; Some (None, n) } })"

definition redis_next ::
  "unicode \<Rightarrow> int \<Rightarrow> int \<Rightarrow> ConnMeta \<Rightarrow> bool \<Rightarrow> bytes \<Rightarrow> (ProtocolEvent list \<times> int) option go" where
  "redis_next U maxq now meta isFromClient data =
     (if len data > 0 then do {
        (ev, consumed) \<leftarrow> redis_decodeOne U maxq now data meta isFromClient;
        if consumed \<le> 0 then Some None else Some (Some (opt_list ev, consumed)) }
      else Some None)"

definition redis_Parse ::
  "unicode \<Rightarrow> int \<Rightarrow> int \<Rightarrow> bytes \<Rightarrow> ConnMeta \<Rightarrow> bool \<Rightarrow> parse_result go" where
  "redis_Parse U maxq now data meta isFromClient =
     map_option Inr (frame_loop (redis_next U maxq now meta isFromClient) data)"

definition redis_Probe :: "bytes \<Rightarrow> bool \<Rightarrow> int go" where
  "redis_Probe data isFromClient =
     (if len data < 3 then Some 0
      else do {
        first \<leftarrow> go_index data 0;
        if first \<in> set [42, 36, 43, 45, 58] then do {
          h \<leftarrow> go_upto data (min (len data) 64);
          Some (if Contains h CRLF then 85 else 50) }
        else Some 0 })"

definition redis_parser :: "unicode \<Rightarrow> int \<Rightarrow> 's Parser" where
  "redis_parser U maxq =
     \<lparr>Name = ''redis'', Ports = [6379, 6380], Probe = redis_Probe,
      Parse = stateless (\<lambda>now data spare meta isFromClient. redis_Parse U maxq now data meta isFromClient),
      OnConnClose = None\<rparr>"

text \<open>The RESP encoding of a command: an array of bulk strings.\<close>

definition resp_bulk :: "bytes \<Rightarrow> bytes" where
  "resp_bulk a = [36] @ bytes_of (Itoa (len a)) @ CRLF @ a @ CRLF"

definition resp_command :: "bytes list \<Rightarrow> bytes" where
  "resp_command args = [42] @ bytes_of (Itoa (len args)) @ CRLF @ concat (map resp_bulk args)"

section \<open>Lemmas: bytes consumed\<close>

lemma readLine_ok: "returns (readLine data) (\<lambda>(l, pos). pos = -1 \<or>
    2 \<le> pos \<and> pos \<le> len data \<and> l = take (nat (pos - 2)) data)"
  using Index_range [of data CRLF] by (auto simp: readLine_def wp)

lemma readLine_line:
  assumes "readLine data = Some (line, pos)" "0 \<le> pos" "data \<noteq> []" "data ! 0 \<noteq> 13"
  shows "line \<noteq> [] \<and> 3 \<le> pos"
proof -
  have "Index data CRLF \<noteq> 0"
  proof
    assume "Index data CRLF = 0"
    then have "prefix CRLF data"
      using Index_found [of data CRLF] by (metis append_Nil nat_zero_as_int order_refl prefixI take_0)
    with assms(4) show False by (auto simp: prefix_def)
  qed
  with assms Index_le [of data CRLF] show ?thesis
    by (auto simp: readLine_def Let_def bind_eq_Some_conv go_upto_def go_slice_def split: if_splits)
qed

lemma readLine_local:
  assumes "readLine d = Some (line, pos)" "0 \<le> pos" "pos \<le> n" "n \<le> len d"
  shows "readLine (take (nat n) d @ r) = Some (line, pos)"
proof -
  from assms have i: "0 \<le> Index d CRLF" "pos = Index d CRLF + 2"
    by (auto simp: readLine_def Let_def bind_eq_Some_conv split: if_splits)
  have "Index (take (nat n) d @ r) CRLF = Index d CRLF"
    using i assms by (intro Index_local) auto
  with i assms show ?thesis
    by (auto simp: readLine_def Let_def go_upto_def go_local)
qed

text \<open>
  The induction rule of the two functions without their guards: a value may use the loop from
  any positive cursor, the loop may use values behind its cursor and itself further on.
\<close>

lemma resp_induct:
  fixes Q :: "int \<Rightarrow> bytes \<Rightarrow> int \<Rightarrow> bool"
  assumes val: "\<And>data. (\<And>count cursor. 0 < cursor \<Longrightarrow> Q count data cursor) \<Longrightarrow> P data"
    and skip: "\<And>count data cursor. 0 < cursor \<Longrightarrow>
       (cursor \<le> len data \<Longrightarrow> P (drop (nat cursor) data)) \<Longrightarrow>
       (\<And>n. 0 < n \<Longrightarrow> 0 < count \<Longrightarrow> Q (count - 1) data (cursor + n)) \<Longrightarrow> Q count data cursor"
  shows "(\<forall>data. P data) \<and> (\<forall>count data cursor. 0 < cursor \<longrightarrow> Q count data cursor)"
proof -
  have loop: "Q count data cursor"
    if "0 < cursor" and P: "\<And>d. length d < length data \<Longrightarrow> P d" for data and count cursor :: int
    using that(1)
  proof (induction "nat count" arbitrary: count cursor rule: less_induct)
    case less
    show ?case
    proof (rule skip [OF less.prems])
      show "P (drop (nat cursor) data)" if "cursor \<le> len data"
        using that less.prems by (intro P) auto
      show "Q (count - 1) data (cursor + n)" if "0 < n" "0 < count" for n
        using that less.prems by (intro less.hyps) auto
    qed
  qed
  have all: "P data" for data
  proof (induction "length data" arbitrary: data rule: less_induct)
    case less
    show ?case
      by (rule val, rule loop) (use less in auto)
  qed
  have "Q count data cursor" if "0 < cursor" for count data cursor
    using that all by (rule loop)
  with all show ?thesis by blast
qed

lemma resp_bound:
  "(\<forall>data. upon_return (readRESPValue data) (\<lambda>(v, n). n \<le> len data)) \<and>
   (\<forall>count data cursor. 0 < cursor \<longrightarrow> cursor \<le> len data \<longrightarrow>
      upon_return (resp_skip count data cursor)
        (\<lambda>r. \<forall>c. r = Some c \<longrightarrow> cursor \<le> c \<and> c \<le> len data))"
proof (rule resp_induct)
  fix data
  assume Q: "0 < cursor \<Longrightarrow> cursor \<le> len data \<longrightarrow> upon_return (resp_skip count data cursor)
     (\<lambda>r. \<forall>c. r = Some c \<longrightarrow> cursor \<le> c \<and> c \<le> len data)" for count cursor
  show "upon_return (readRESPValue data) (\<lambda>(v, n). n \<le> len data)"
    by (subst readRESPValue.simps)
      (auto simp: wlp intro!: upon_return_mono [OF returns_upon [OF readLine_ok]]
        upon_return_mono [OF Q [rule_format]])
next
  fix count cursor :: int and data
  assume c: "0 < cursor"
    and P: "cursor \<le> len data \<Longrightarrow> upon_return (readRESPValue (drop (nat cursor) data))
        (\<lambda>(v, n). n \<le> len (drop (nat cursor) data))"
    and Q: "0 < n \<Longrightarrow> 0 < count \<Longrightarrow> cursor + n \<le> len data \<longrightarrow>
      upon_return (resp_skip (count - 1) data (cursor + n))
        (\<lambda>r. \<forall>c. r = Some c \<longrightarrow> cursor + n \<le> c \<and> c \<le> len data)" for n
  show "cursor \<le> len data \<longrightarrow> upon_return (resp_skip count data cursor)
     (\<lambda>r. \<forall>c. r = Some c \<longrightarrow> cursor \<le> c \<and> c \<le> len data)"
    by (subst resp_skip.simps)
      (use c in \<open>auto simp: wlp intro!: upon_return_mono [OF P] upon_return_mono [OF Q [rule_format]]\<close>)
qed

lemma readRESPValue_le: "readRESPValue data = Some (v, n) \<Longrightarrow> n \<le> len data"
  using resp_bound [THEN conjunct1] by (fastforce dest: upon_returnD)

lemma resp_skip_le:
  "resp_skip count data cursor = Some (Some c) \<Longrightarrow> 0 < cursor \<Longrightarrow> cursor \<le> len data \<Longrightarrow>
     cursor \<le> c \<and> c \<le> len data"
  using resp_bound [THEN conjunct2] by (fastforce dest: upon_returnD)

section \<open>Lemmas: a value depends only on its own bytes\<close>

text \<open>How a successful read came about, one disjunct per case of the source's switch.\<close>

definition resp_shape :: "bytes \<Rightarrow> string \<Rightarrow> int \<Rightarrow> bool" where
  "resp_shape data v n \<longleftrightarrow>
     (\<exists>line pos. data \<noteq> [] \<and> readLine data = Some (line, pos) \<and> 0 \<le> pos \<and> pos \<le> n \<and> n \<le> len data \<and>
        (data ! 0 \<noteq> 13 \<longrightarrow> line \<noteq> []) \<and>
        (if data ! 0 = 43 \<or> data ! 0 = 45 \<or> data ! 0 = 58 then n = pos \<and> v = string_of (tl line)
         else if data ! 0 = 36 then
           (case Atoi (string_of (tl line)) of
              None \<Rightarrow> False
            | Some l \<Rightarrow>
                if l < 0 then v = ''(nil)'' \<and> n = pos
                else n = wrap64 (pos + l + 2) \<and> pos \<le> n - 2 \<and>
                     v = string_of (take (nat (n - 2 - pos)) (drop (nat pos) data)))
         else if data ! 0 = 42 then
           (case Atoi (string_of (tl line)) of
              None \<Rightarrow> False
            | Some count \<Rightarrow> 0 \<le> count \<and> resp_skip count data pos = Some (Some n) \<and> v = ''(array)'')
         else n = pos \<and> v = string_of line))"

lemma readRESPValue_shape:
  assumes "readRESPValue data = Some (v, n)" "0 < n"
  shows "resp_shape data v n"
proof -
  have "upon_return (readRESPValue data) (\<lambda>(v, n). 0 < n \<longrightarrow> resp_shape data v n)"
  proof (cases "data = []")
    case True
    then show ?thesis by (subst readRESPValue.simps) (simp add: wlp)
  next
    case False
    obtain line pos where rl: "readLine data = Some (line, pos)"
      using returns_ex [OF readLine_ok [of data]] by auto
    have d: "pos = -1 \<or> 2 \<le> pos \<and> pos \<le> len data" using readLine_pos [OF rl] .
    have l: "0 \<le> pos \<Longrightarrow> data ! 0 \<noteq> 13 \<Longrightarrow> line \<noteq> []"
      using readLine_line [OF rl] False by blast
    show ?thesis
      using False rl d l resp_skip_le [of _ data pos] wrap64_add_pos
      by (subst readRESPValue.simps)
        (auto simp: wlp resp_shape_def drop_Suc intro!: upon_returnI)
  qed
  with assms show ?thesis by (auto dest: upon_returnD)
qed

lemma shape_readRESPValue:
  assumes "resp_shape data v n" "0 < n"
  shows "readRESPValue data = Some (v, n)"
  using assms wrap64_add_pos
  by (subst readRESPValue.simps)
    (auto simp: resp_shape_def go_safe drop_Suc Let_def split: option.splits if_splits)

definition skip_local :: "int \<Rightarrow> bytes \<Rightarrow> int \<Rightarrow> bool" where
  "skip_local count data cursor \<longleftrightarrow>
     (\<forall>c m r. resp_skip count data cursor = Some (Some c) \<longrightarrow> c \<le> m \<longrightarrow> m \<le> len data \<longrightarrow>
        resp_skip count (take (nat m) data @ r) cursor = Some (Some c))"

definition value_local :: "bytes \<Rightarrow> bool" where
  "value_local data \<longleftrightarrow>
     (\<forall>v n m r. readRESPValue data = Some (v, n) \<longrightarrow> 0 < n \<longrightarrow> n \<le> m \<longrightarrow> m \<le> len data \<longrightarrow>
        readRESPValue (take (nat m) data @ r) = Some (v, n))"

lemma shape_local:
  assumes "resp_shape data v n" "0 < n" "n \<le> m" "m \<le> len data"
    and "\<And>count cursor. 0 < cursor \<Longrightarrow> skip_local count data cursor"
  shows "resp_shape (take (nat m) data @ r) v n"
proof -
  from assms(1) obtain line pos where rl: "readLine data = Some (line, pos)" "0 \<le> pos" "pos \<le> n"
    and d: "data \<noteq> []"
    by (auto simp: resp_shape_def)
  have p: "0 < pos" using readLine_pos [OF rl(1)] rl(2) by auto
  have "readLine (take (nat m) data @ r) = Some (line, pos)"
    using rl assms by (intro readLine_local) auto
  moreover have "(take (nat m) data @ r) ! 0 = data ! 0" "take (nat m) data @ r \<noteq> []"
    using assms d by (auto simp: nth_append)
  moreover have "resp_skip count (take (nat m) data @ r) pos = Some (Some n)"
    if "resp_skip count data pos = Some (Some n)" for count
    using assms(5) [OF p, of count] that assms(3,4) by (simp add: skip_local_def)
  moreover have "take (nat (n - 2 - pos)) (drop (nat pos) (take (nat m) data @ r)) =
      take (nat (n - 2 - pos)) (drop (nat pos) data)" if "pos \<le> n - 2"
    using that rl assms go_slice_local [of "n - 2" m data r pos] by (auto simp: go_slice_def split: if_splits)
  ultimately show ?thesis
    using assms rl by (auto simp: resp_shape_def split: option.splits if_splits)
qed

lemma resp_local:
  "(\<forall>data. value_local data) \<and> (\<forall>count data cursor. 0 < cursor \<longrightarrow> skip_local count data cursor)"
proof (rule resp_induct)
  fix data
  assume "0 < cursor \<Longrightarrow> skip_local count data cursor" for count cursor
  then show "value_local data"
    by (auto simp: value_local_def intro!: shape_readRESPValue shape_local
        dest: readRESPValue_shape)
next
  fix count cursor :: int and data
  assume c: "0 < cursor"
    and P: "cursor \<le> len data \<Longrightarrow> value_local (drop (nat cursor) data)"
    and Q: "0 < n \<Longrightarrow> 0 < count \<Longrightarrow> skip_local (count - 1) data (cursor + n)" for n
  show "skip_local count data cursor"
    unfolding skip_local_def
  proof (intro allI impI)
    fix c' m r
    assume sk: "resp_skip count data cursor = Some (Some c')" and m: "c' \<le> m" "m \<le> len data"
    show "resp_skip count (take (nat m) data @ r) cursor = Some (Some c')"
    proof (cases "count \<le> 0")
      case True
      with sk show ?thesis by (simp add: resp_skip.simps)
    next
      case False
      with sk obtain v n where cur: "cursor \<le> len data"
        and val: "readRESPValue (drop (nat cursor) data) = Some (v, n)" "0 < n"
        and rec: "resp_skip (count - 1) data (cursor + n) = Some (Some c')"
        by (subst (asm) resp_skip.simps)
          (auto simp: bind_eq_Some_conv go_from_def go_slice_def split: if_splits)
      have n: "cursor + n \<le> len data"
        using readRESPValue_le [OF val(1)] cur c by simp
      then have c': "cursor + n \<le> c'"
        using resp_skip_le [OF rec] c val by simp
      have "readRESPValue (take (nat (m - cursor)) (drop (nat cursor) data) @ r) = Some (v, n)"
        using P [OF cur] val c' m cur c by (simp add: value_local_def)
      moreover have "resp_skip (count - 1) (take (nat m) data @ r) (cursor + n) = Some (Some c')"
        using Q [OF val(2)] False rec m by (simp add: skip_local_def)
      ultimately show ?thesis
        using False c c' m val(2) cur
        by (subst resp_skip.simps) (simp add: go_from_local)
    qed
  qed
qed

lemma readRESPValue_local:
  "readRESPValue data = Some (v, n) \<Longrightarrow> 0 < n \<Longrightarrow> n \<le> m \<Longrightarrow> m \<le> len data \<Longrightarrow>
     readRESPValue (take (nat m) data @ r) = Some (v, n)"
  using resp_local by (simp add: value_local_def)

lemma redis_args_step:
  assumes "redis_args count data cursor args = Some (Some (as, c))" "0 < count" "0 < cursor"
  obtains v n where "cursor \<le> len data" "readRESPValue (drop (nat cursor) data) = Some (v, n)" "0 < n"
    "cursor + n \<le> len data" "redis_args (count - 1) data (cursor + n) (args @ [v]) = Some (Some (as, c))"
proof -
  from assms obtain v n where *: "cursor \<le> len data"
    "readRESPValue (drop (nat cursor) data) = Some (v, n)" "0 < n"
    "redis_args (count - 1) data (cursor + n) (args @ [v]) = Some (Some (as, c))"
    by (subst (asm) redis_args.simps)
      (auto simp: bind_eq_Some_conv go_from_def go_slice_def split: if_splits)
  moreover have "cursor + n \<le> len data"
    using readRESPValue_le [OF *(2)] *(1) assms(3) by simp
  ultimately show thesis using that by blast
qed

lemma redis_args_done: "count \<le> 0 \<Longrightarrow> redis_args count data cursor args = Some (Some (args, cursor))"
  by (simp add: redis_args.simps)

lemma redis_args_le:
  "redis_args count data cursor args = Some (Some (as, c)) \<Longrightarrow> 0 < cursor \<Longrightarrow> cursor \<le> len data \<Longrightarrow>
     cursor \<le> c \<and> c \<le> len data"
proof (induction "nat count" arbitrary: count cursor args rule: less_induct)
  case less
  show ?case
  proof (cases "0 < count")
    case True
    from redis_args_step [OF less.prems(1) True less.prems(2)] obtain v n where
      "0 < n" "cursor + n \<le> len data"
      "redis_args (count - 1) data (cursor + n) (args @ [v]) = Some (Some (as, c))"
      by blast
    with less.hyps [of "count - 1" "cursor + n" "args @ [v]"] less.prems True show ?thesis by auto
  next
    case False
    with less.prems show ?thesis by (simp add: redis_args_done)
  qed
qed

lemma redis_args_local:
  "redis_args count data cursor args = Some (Some (as, c)) \<Longrightarrow> 0 < cursor \<Longrightarrow> cursor \<le> len data \<Longrightarrow>
     c \<le> m \<Longrightarrow> m \<le> len data \<Longrightarrow>
     redis_args count (take (nat m) data @ r) cursor args = Some (Some (as, c))"
proof (induction "nat count" arbitrary: count cursor args rule: less_induct)
  case less
  show ?case
  proof (cases "0 < count")
    case True
    from redis_args_step [OF less.prems(1) True less.prems(2)] obtain v n where
      v: "readRESPValue (drop (nat cursor) data) = Some (v, n)" and n: "0 < n" "cursor + n \<le> len data"
      and rec: "redis_args (count - 1) data (cursor + n) (args @ [v]) = Some (Some (as, c))"
      by blast
    have cn: "cursor + n \<le> c"
      using redis_args_le [OF rec] less.prems n by simp
    have "readRESPValue (take (nat (m - cursor)) (drop (nat cursor) data) @ r) = Some (v, n)"
      using v n cn less.prems by (intro readRESPValue_local) auto
    moreover have "redis_args (count - 1) (take (nat m) data @ r) (cursor + n) (args @ [v]) =
        Some (Some (as, c))"
      using less.hyps [OF _ rec] less.prems n True by simp
    ultimately show ?thesis
      using True n cn less.prems by (subst redis_args.simps) (simp add: go_from_local)
  next
    case False
    with less.prems show ?thesis by (simp add: redis_args_done)
  qed
qed

section \<open>Interpretations\<close>

definition redis_event_ok :: "int \<Rightarrow> ConnMeta \<Rightarrow> ProtocolEvent \<Rightarrow> bool" where
  "redis_event_ok maxq meta e \<longleftrightarrow> tagged ''redis'' meta e \<and>
     (\<exists>d. ev_DBDetail e = Some d \<and> (0 < maxq \<longrightarrow> len (db_Statement d) \<le> maxq))"

lemma redis_array_event_ok:
  "returns (redis_array_event U maxq now meta c r)
     (\<lambda>(ev, n). (r = None \<and> n = 0 \<or> (\<exists>as. r = Some (as, n))) \<and>
        (\<forall>e. ev = Some e \<longrightarrow> redis_event_ok maxq meta e))"
  by (auto simp: redis_array_event_def wp redis_event_ok_def zeroDBDetail_def split: option.splits)

lemma redis_decodeOne_ok:
  "upon_return (redis_decodeOne U maxq now data meta c)
     (\<lambda>(ev, n). n \<le> len data \<and> (\<forall>e. ev = Some e \<longrightarrow> redis_event_ok maxq meta e))"
proof -
  have args: "upon_return (redis_args count data pos []) (\<lambda>r. \<forall>as c. r = Some (as, c) \<longrightarrow> c \<le> len data)"
    if "2 \<le> pos" "pos \<le> len data" for count pos
    using that by (auto intro!: upon_returnI dest: redis_args_le)
  show ?thesis
    by (auto simp: redis_decodeOne_def redis_decodeArray_def redis_decodeError_def wlp redis_event_ok_def
        zeroDBDetail_def intro!: upon_return_mono [OF returns_upon [OF readLine_ok]]
        upon_return_mono [OF args] upon_return_mono [OF resp_bound [THEN conjunct1, rule_format]]
        upon_return_mono [OF returns_upon [OF redis_array_event_ok]])
qed

lemma redis_decodeOne_local:
  assumes "redis_decodeOne U maxq now d meta c = Some (ev, n)" "0 < n" "n \<le> len d"
  shows "redis_decodeOne U maxq now (take (nat n) d @ r) meta c = Some (ev, n)"
proof -
  let ?t = "take (nat n) d @ r"
  have ne: "d \<noteq> []" using assms by auto
  then have first: "go_index ?t 0 = go_index d 0" "?t \<noteq> []"
    using assms by (auto simp: go_index_local)
  have g0: "go_index d 0 = Some (d ! 0)" using ne by (simp add: go_safe)
  obtain line pos where rl: "readLine d = Some (line, pos)"
    using returns_ex [OF readLine_ok [of d]] by auto
  have rlt: "readLine ?t = Some (line, pos)" if "0 \<le> pos" "pos \<le> n"
    using rl that assms by (intro readLine_local)
  have pos: "0 \<le> pos \<Longrightarrow> 0 < pos \<and> pos \<le> len d" using readLine_pos [OF rl] by auto
  consider (arr) "d ! 0 = 42" | (err) "d ! 0 = 45" | (other) "d ! 0 \<noteq> 42" "d ! 0 \<noteq> 45" by blast
  then show ?thesis
  proof cases
    case arr
    let ?ev = "redis_array_event U maxq now meta c"
    from arr assms ne rl g0 obtain digits count r' where
      pos0: "0 \<le> pos" and a: "go_from line 1 = Some digits" "Atoi (string_of digits) = Some count"
      "0 \<le> count" "redis_args count d pos [] = Some r'" "?ev r' = Some (ev, n)"
      by (auto simp: redis_decodeOne_def redis_decodeArray_def bind_eq_Some_conv
          split: if_split_asm option.split_asm)
    from upon_returnD [OF returns_upon [OF redis_array_event_ok] a(5)] assms(2) obtain as where
      r': "r' = Some (as, n)" by auto
    have "pos \<le> n" using redis_args_le a(4) r' pos [OF pos0] by blast
    moreover have "redis_args count ?t pos [] = Some (Some (as, n))"
      using a(4) r' pos [OF pos0] assms(3) by (intro redis_args_local) auto
    ultimately show ?thesis
      using arr first g0 rlt pos0 a r' assms ne by (auto simp: redis_decodeOne_def redis_decodeArray_def)
  next
    case err
    with assms ne rl first g0 rlt show ?thesis
      by (auto simp: redis_decodeOne_def redis_decodeError_def bind_eq_Some_conv split: if_split_asm)
  next
    case other
    with assms ne first g0 show ?thesis
      by (auto simp: redis_decodeOne_def bind_eq_Some_conv intro: readRESPValue_local)
  qed
qed

lemma redis_next_cases:
  assumes "redis_next U maxq now meta c d = Some (Some (es, n))"
  shows "\<exists>ev. d \<noteq> [] \<and> redis_decodeOne U maxq now d meta c = Some (ev, n) \<and> 0 < n \<and> n \<le> len d \<and>
    es = opt_list ev \<and> (\<forall>e. ev = Some e \<longrightarrow> redis_event_ok maxq meta e)"
  using assms upon_returnD [OF redis_decodeOne_ok, of U maxq now d meta c]
  by (fastforce simp: redis_next_def bind_eq_Some_conv split: if_split_asm)

interpretation redis_frames: framing "redis_next U maxq now meta c" for U maxq now meta c
proof
  fix d es n and r :: bytes
  assume "redis_next U maxq now meta c d = Some (Some (es, n))"
  from redis_next_cases [OF this] obtain ev where
    d: "d \<noteq> []" "redis_decodeOne U maxq now d meta c = Some (ev, n)" "0 < n" "n \<le> len d"
      "es = opt_list ev"
    by blast
  then show "0 < n \<and> n \<le> len d" by simp
  have "redis_decodeOne U maxq now (take (nat n) d @ r) meta c = Some (ev, n)"
    using d by (intro redis_decodeOne_local)
  with d show "redis_next U maxq now meta c (take (nat n) d @ r) = Some (Some (es, n))"
    by (auto simp: redis_next_def)
qed

lemma redis_Parse_events:
  assumes "redis_Parse U maxq now data meta c = Some (Inr evs)" "e \<in> set evs"
  shows "redis_event_ok maxq meta e"
proof -
  have "frame_loop (redis_next U maxq now meta c) data = Some evs"
    using assms(1) by (simp add: redis_Parse_def)
  then show ?thesis
    using assms(2) by (rule frame_loop_all) (use redis_next_cases in fastforce)
qed

interpretation redis_iface: parser_contract "redis_parser U maxq" for U maxq
  by (rule stateless_contract)
    (auto simp: redis_parser_def redis_Probe_def redis_event_ok_def wp dest: redis_Parse_events)

section \<open>Lemmas: when the parser panics\<close>

text \<open>
  A position of the data at which a bulk string header announces at least \<open>2 ^ 62\<close> bytes.
\<close>

definition oversized_at :: "bytes \<Rightarrow> bool" where
  "oversized_at d =
     (case readLine d of
        None \<Rightarrow> False
      | Some (line, pos) \<Rightarrow>
          0 \<le> pos \<and> d \<noteq> [] \<and> hd d = 36 \<and>
          (case Atoi (string_of (tl line)) of None \<Rightarrow> False | Some l \<Rightarrow> 2 ^ 62 \<le> l))"

fun resp_oversized :: "bytes \<Rightarrow> bool" where
  "resp_oversized [] = False"
| "resp_oversized (b # d) = (oversized_at (b # d) \<or> resp_oversized d)"

lemma resp_oversized_drop: "resp_oversized (drop n d) \<Longrightarrow> resp_oversized d"
proof (induction n arbitrary: d)
  case (Suc n)
  then show ?case by (cases d) auto
qed simp

lemma resp_safe:
  "(\<forall>data. \<not> resp_oversized data \<longrightarrow> len data < 2 ^ 60 \<longrightarrow> readRESPValue data \<noteq> panic) \<and>
   (\<forall>count data cursor. 0 < cursor \<longrightarrow> \<not> resp_oversized data \<longrightarrow> len data < 2 ^ 60 \<longrightarrow>
      cursor \<le> len data \<longrightarrow> resp_skip count data cursor \<noteq> panic)"
proof (rule resp_induct)
  fix data
  assume Q: "0 < cursor \<Longrightarrow> \<not> resp_oversized data \<longrightarrow> len data < 2 ^ 60 \<longrightarrow> cursor \<le> len data \<longrightarrow>
      resp_skip count data cursor \<noteq> panic" for count cursor
  show "\<not> resp_oversized data \<longrightarrow> len data < 2 ^ 60 \<longrightarrow> readRESPValue data \<noteq> panic"
  proof (intro impI)
    assume a: "\<not> resp_oversized data" "len data < 2 ^ 60"
    obtain line pos where rl: "readLine data = Some (line, pos)"
      using returns_ex [OF readLine_ok [of data]] by auto
    have p: "pos = -1 \<or> 2 \<le> pos \<and> pos \<le> len data" using readLine_pos [OF rl] .
    have l: "0 \<le> pos \<Longrightarrow> data \<noteq> [] \<Longrightarrow> data ! 0 \<noteq> 13 \<Longrightarrow> line \<noteq> []"
      using readLine_line [OF rl] by blast
    have small: "k < 2 ^ 62" if "0 \<le> pos" "data \<noteq> []" "data ! 0 = 36" "Atoi (string_of (tl line)) = Some k" for k
      using a(1) that rl by (cases data) (auto simp: oversized_at_def)
    have nowrap: "wrap64 (pos + k + 2) = pos + k + 2" "wrap64 (pos + k) = pos + k"
      if "0 \<le> pos" "0 \<le> k" "k < 2 ^ 62" for k
      using that p a(2) by (auto intro!: wrap64_id)
    have "returns (readRESPValue data) (\<lambda>_. True)"
      using p l small nowrap Q a
      by (subst readRESPValue.simps)
        (auto simp: wp rl drop_Suc intro!: returns_total)
    then show "readRESPValue data \<noteq> panic" by (rule returns_not_panic)
  qed
next
  fix count cursor :: int and data
  assume c: "0 < cursor"
    and P: "cursor \<le> len data \<Longrightarrow> \<not> resp_oversized (drop (nat cursor) data) \<longrightarrow>
      len (drop (nat cursor) data) < 2 ^ 60 \<longrightarrow> readRESPValue (drop (nat cursor) data) \<noteq> panic"
    and Q: "0 < n \<Longrightarrow> 0 < count \<Longrightarrow> \<not> resp_oversized data \<longrightarrow> len data < 2 ^ 60 \<longrightarrow>
      cursor + n \<le> len data \<longrightarrow> resp_skip (count - 1) data (cursor + n) \<noteq> panic" for n
  show "\<not> resp_oversized data \<longrightarrow> len data < 2 ^ 60 \<longrightarrow> cursor \<le> len data \<longrightarrow>
      resp_skip count data cursor \<noteq> panic"
  proof (intro impI)
    assume a: "\<not> resp_oversized data" "len data < 2 ^ 60" "cursor \<le> len data"
    then have "len (drop (nat cursor) data) < 2 ^ 60" "\<not> resp_oversized (drop (nat cursor) data)"
      using resp_oversized_drop [of "nat cursor" data] c by auto
    with P a(3) have "readRESPValue (drop (nat cursor) data) \<noteq> panic" by blast
    then obtain v n where v: "readRESPValue (drop (nat cursor) data) = Some (v, n)" by auto
    show "resp_skip count data cursor \<noteq> panic"
      using a c v Q [of n] readRESPValue_le [OF v]
      by (subst resp_skip.simps) (auto simp: go_from_Some)
  qed
qed

lemma redis_args_safe:
  "\<not> resp_oversized data \<Longrightarrow> len data < 2 ^ 60 \<Longrightarrow> 0 < cursor \<Longrightarrow> cursor \<le> len data \<Longrightarrow>
     redis_args count data cursor args \<noteq> panic"
proof (induction "nat count" arbitrary: count cursor args rule: less_induct)
  case less
  have "len (drop (nat cursor) data) < 2 ^ 60" "\<not> resp_oversized (drop (nat cursor) data)"
    using less.prems resp_oversized_drop [of "nat cursor" data] by auto
  then have "readRESPValue (drop (nat cursor) data) \<noteq> panic"
    using resp_safe by blast
  then obtain v n where v: "readRESPValue (drop (nat cursor) data) = Some (v, n)" by auto
  show ?case
  proof (cases "0 < count \<and> 0 < n")
    case True
    then have "redis_args (count - 1) data (cursor + n) (args @ [v]) \<noteq> panic"
      using less.prems readRESPValue_le [OF v] by (intro less.hyps) auto
    then show ?thesis
      using True less.prems v by (subst redis_args.simps) (auto simp: go_from_Some)
  next
    case False
    then show ?thesis
      using less.prems v by (subst redis_args.simps) (auto simp: go_from_Some)
  qed
qed

lemma redis_next_safe:
  assumes "\<not> resp_oversized data" "len data < 2 ^ 60"
  shows "redis_next U maxq now meta c data \<noteq> panic"
proof -
  obtain line pos where rl: "readLine data = Some (line, pos)"
    using returns_ex [OF readLine_ok [of data]] by auto
  have p: "pos = -1 \<or> 2 \<le> pos \<and> pos \<le> len data" using readLine_pos [OF rl] .
  have l: "0 \<le> pos \<Longrightarrow> data \<noteq> [] \<Longrightarrow> data ! 0 \<noteq> 13 \<Longrightarrow> line \<noteq> []"
    using readLine_line [OF rl] by blast
  have "returns (redis_next U maxq now meta c data) (\<lambda>_. True)"
    using p l assms resp_safe [THEN conjunct1] redis_args_safe [of data]
    by (auto simp: redis_next_def redis_decodeOne_def redis_decodeArray_def redis_decodeError_def wp rl
        intro!: returns_total returns_mono [OF redis_array_event_ok])
  then show ?thesis by (rule returns_not_panic)
qed

lemma redis_loop_safe:
  "\<not> resp_oversized data \<Longrightarrow> len data < 2 ^ 60 \<Longrightarrow>
     frame_loop (redis_next U maxq now meta c) data \<noteq> panic"
proof (induction "length data" arbitrary: data rule: less_induct)
  case less
  from redis_next_safe [OF less.prems] obtain o1 where o1: "redis_next U maxq now meta c data = Some o1"
    by blast
  show ?case
  proof (cases o1)
    case None
    with o1 show ?thesis by (simp add: frame_loop.simps)
  next
    case (Some a)
    with o1 obtain es n where nx: "redis_next U maxq now meta c data = Some (Some (es, n))"
      by (cases a) auto
    from redis_frames.progress [OF nx] have n: "0 < n" "n \<le> len data" by auto
    then have "frame_loop (redis_next U maxq now meta c) (drop (nat n) data) \<noteq> panic"
      using less.prems resp_oversized_drop [of "nat n" data] by (intro less.hyps) auto
    then show ?thesis using redis_frames.loop_step [OF nx, of "[]"] by auto
  qed
qed

section \<open>Lemmas: RESP encoding\<close>

lemma readLine_append: "10 \<notin> set a \<Longrightarrow> readLine (a @ CRLF @ r) = Some (a, len a + 2)"
  using Index_CRLF [of a r] by (simp add: readLine_def go_safe)

lemma readLine_number:
  "b \<noteq> 10 \<Longrightarrow> readLine (b # bytes_of (Itoa v) @ CRLF @ r) =
     Some (b # bytes_of (Itoa v), len (Itoa v) + 3)"
proof -
  assume "b \<noteq> 10"
  moreover have "10 \<notin> set (bytes_of (Itoa v))"
    using Itoa_no_control [of 10 v] by auto
  ultimately show ?thesis
    using readLine_append [of "b # bytes_of (Itoa v)" r] by simp
qed

lemma readRESPValue_bulk:
  assumes a: "len a < 2 ^ 60"
  shows "readRESPValue (resp_bulk a @ r) = Some (string_of a, len (resp_bulk a))"
proof -
  let ?d = "resp_bulk a @ r"
  note assms = a len_Itoa_less [OF _ a]
  have d: "?d = 36 # bytes_of (Itoa (len a)) @ CRLF @ (a @ CRLF @ r)"
    by (simp add: resp_bulk_def)
  have rl: "readLine ?d = Some (36 # bytes_of (Itoa (len a)), len (Itoa (len a)) + 3)"
    using readLine_number [of 36 "len a" "a @ CRLF @ r"] by (simp add: resp_bulk_def)
  have at: "Atoi (Itoa (len a)) = Some (len a)"
    using assms by (intro Atoi_Itoa) auto
  let ?pos = "len (Itoa (len a)) + 3"
  have w: "wrap64 (?pos + len a + 2) = ?pos + len a + 2" "wrap64 (?pos + len a) = ?pos + len a"
    using assms by (auto intro!: wrap64_id)
  have sl: "go_slice ?d ?pos (?pos + len a) = Some a"
    using go_slice_append [of "36 # bytes_of (Itoa (len a)) @ CRLF" a "CRLF @ r"]
    by (simp add: resp_bulk_def algebra_simps)
  have "?d \<noteq> []" "go_index ?d 0 = Some 36" "?pos + len a + 2 \<le> len ?d"
    "?pos + len a + 2 = len (resp_bulk a)"
    by (simp_all add: d go_index_def resp_bulk_def)
  then show ?thesis
    using rl at w sl by (subst readRESPValue.simps) (simp add: go_from_Some)
qed

lemma redis_args_bulks:
  assumes "\<forall>a \<in> set as. len a < 2 ^ 60"
  shows "redis_args (len as) (pre @ concat (map resp_bulk as) @ r) (len pre) args =
    Some (Some (args @ map string_of as, len (pre @ concat (map resp_bulk as))))"
  using assms
proof (induction as arbitrary: pre args)
  case Nil
  then show ?case by (simp add: redis_args_done)
next
  case (Cons a as)
  have "0 < len (resp_bulk a)" by (simp add: resp_bulk_def)
  then have "redis_args (len (a # as)) (pre @ concat (map resp_bulk (a # as)) @ r) (len pre) args =
      redis_args (len as) (pre @ resp_bulk a @ concat (map resp_bulk as) @ r)
        (len pre + len (resp_bulk a)) (args @ [string_of a])"
    using Cons.prems readRESPValue_bulk [of a "concat (map resp_bulk as) @ r"]
    by (subst redis_args.simps) (simp add: go_from_Some)
  also have "\<dots> = Some (Some ((args @ [string_of a]) @ map string_of as,
      len ((pre @ resp_bulk a) @ concat (map resp_bulk as))))"
    using Cons.IH [of "pre @ resp_bulk a" "args @ [string_of a]"] Cons.prems by simp
  finally show ?case by simp
qed

definition redis_command_event ::
  "unicode \<Rightarrow> int \<Rightarrow> int \<Rightarrow> ConnMeta \<Rightarrow> bool \<Rightarrow> bytes list \<Rightarrow> ProtocolEvent" where
  "redis_command_event U maxq now meta c args =
     (fillMeta (NewEvent now ''redis'' (sideDirection c)) meta)\<lparr>ev_DBDetail :=
        Some (zeroDBDetail\<lparr>db_System := ''redis'', db_Operation := ToUpper U (string_of (hd args)),
          db_Statement := (let full = Join (map string_of args) '' ''
                           in if 0 < maxq then take (nat maxq) full else full)\<rparr>)\<rparr>"

definition resp_encodable :: "bytes list \<Rightarrow> bool" where
  "resp_encodable args \<longleftrightarrow> args \<noteq> [] \<and> len args < 2 ^ 60 \<and>
     (\<forall>a \<in> set args. len a < 2 ^ 60)"

lemma redis_next_command:
  assumes "resp_encodable args"
  shows "redis_next U maxq now meta c (resp_command args) =
    Some (Some ([redis_command_event U maxq now meta c args], len (resp_command args)))"
proof -
  let ?hdr = "42 # bytes_of (Itoa (len args)) @ CRLF"
  let ?d = "resp_command args"
  have d: "?d = ?hdr @ concat (map resp_bulk args) @ []"
    by (simp add: resp_command_def)
  have rl: "readLine ?d = Some (42 # bytes_of (Itoa (len args)), len (Itoa (len args)) + 3)"
    using readLine_number [of 42 "len args" "concat (map resp_bulk args)"] by (simp add: resp_command_def)
  have at: "Atoi (Itoa (len args)) = Some (len args)"
    using assms by (intro Atoi_Itoa) (auto simp: resp_encodable_def)
  have ra: "redis_args (len args) ?d (len (Itoa (len args)) + 3) [] =
      Some (Some (map string_of args, len ?d))"
    using redis_args_bulks [of args ?hdr "[]" "[]"] assms
    by (simp add: resp_encodable_def d add.commute)
  have "args \<noteq> []" using assms by (simp add: resp_encodable_def)
  then have ev: "redis_array_event U maxq now meta c (Some (map string_of args, len ?d)) =
      Some (Some (redis_command_event U maxq now meta c args), len ?d)"
    by (auto simp: redis_array_event_def redis_command_event_def go_safe hd_conv_nth Let_def)
  have "?d \<noteq> []" "go_index ?d 0 = Some 42" "0 < len ?d" by (simp_all add: resp_command_def go_index_def)
  then show ?thesis
    using rl at ra ev
    by (simp add: redis_next_def redis_decodeOne_def redis_decodeArray_def go_from_Some)
qed

lemma readRESPValue_overflow:
  assumes l: "2 ^ 63 - 24 \<le> l" "l < 2 ^ 63" and r: "len r < 2 ^ 60"
  shows "readRESPValue (36 # bytes_of (Itoa l) @ CRLF @ r) = panic"
proof -
  let ?v = "36 # bytes_of (Itoa l) @ CRLF @ r"
  have "length (decimal (nat l)) = Suc 18"
    using l by (intro length_decimal) (auto simp: le_nat_iff nat_less_iff)
  then have n: "length (Itoa l) = 19" using l by (simp add: Itoa_def)
  then have rl: "readLine ?v = Some (36 # bytes_of (Itoa l), 22)"
    using readLine_number [of 36 l r] by simp
  have at: "Atoi (Itoa l) = Some l" using l by (intro Atoi_Itoa) auto
  have e: "wrap64 (22 + l + 2) \<le> 0"
    using l wrap64_overflow [of "24 + l"] by (simp add: algebra_simps)
  have "wrap64 (22 + l) < 22 \<or> len ?v < wrap64 (22 + l)"
  proof (cases "22 + l < 2 ^ 63")
    case True
    with l r n show ?thesis by (simp add: wrap64_id)
  next
    case False
    with l show ?thesis by (simp add: wrap64_overflow)
  qed
  then have "go_slice ?v 22 (wrap64 (22 + l)) = panic"
    by (auto simp: go_slice_def)
  moreover have "go_index ?v 0 = Some 36" "go_from (36 # bytes_of (Itoa l)) 1 = Some (bytes_of (Itoa l))"
    by (simp_all add: go_index_def go_from_Some)
  moreover have "\<not> len ?v < wrap64 (22 + l + 2)" "\<not> l < 0" using e l by simp_all
  ultimately show ?thesis
    using rl at by (subst readRESPValue.simps) (simp add: del: length_append)
qed

section \<open>Properties\<close>

text \<open>
  C1: A pipeline of Redis commands, each encoded as a RESP array of bulk strings, is decoded
  completely and in order: the parser returns exactly one event per command, with the upper-cased
  command name and the space-joined (and, if a limit is set, truncated) command text.
\<close>

theorem redis_pipeline_roundtrip:
  assumes "\<forall>args \<in> set cmds. resp_encodable args"
  shows "redis_Parse U maxq now (concat (map resp_command cmds)) meta c =
    Some (Inr (map (redis_command_event U maxq now meta c) cmds))"
proof -
  let ?next = "redis_next U maxq now meta c"
  have "\<forall>m \<in> set (map resp_command cmds). \<exists>es. ?next m = Some (Some (es, len m))"
    using assms redis_next_command by auto
  from redis_frames.loop_messages [OF this, of "[]"]
  have "frame_loop ?next (concat (map resp_command cmds)) =
      Some (concat (map (frame_events ?next) (map resp_command cmds)))"
    by (simp add: frame_loop.simps [of _ "[]"] redis_next_def)
  also have "concat (map (frame_events ?next) (map resp_command cmds)) =
      map (redis_command_event U maxq now meta c) cmds"
    using assms by (induction cmds) (auto simp: frame_events_def redis_next_command)
  finally show ?thesis by (simp add: redis_Parse_def)
qed

theorem redis_pipeline_roundtrip_witness:
  "redis_Parse \<lparr>uniUpper = id, uniLower = id\<rparr> 4096 7
     (bytes_of ''*2'' @ CRLF @ bytes_of ''$3'' @ CRLF @ bytes_of ''get'' @ CRLF @
      bytes_of ''$1'' @ CRLF @ bytes_of ''k'' @ CRLF) \<lparr>cm_SrcIP = [10, 0, 0, 1], cm_DstIP = [10, 0, 0, 2],
      cm_SrcPort = 40000, cm_DstPort = 6379, cm_ConnID = 1\<rparr> True =
   Some (Inr [redis_command_event \<lparr>uniUpper = id, uniLower = id\<rparr> 4096 7 \<lparr>cm_SrcIP = [10, 0, 0, 1],
      cm_DstIP = [10, 0, 0, 2], cm_SrcPort = 40000, cm_DstPort = 6379, cm_ConnID = 1\<rparr> True
      [bytes_of ''get'', bytes_of ''k'']])"
proof -
  have enc: "resp_encodable [bytes_of ''get'', bytes_of ''k'']" by code_simp
  have "concat (map resp_command [[bytes_of ''get'', bytes_of ''k'']]) =
      bytes_of ''*2'' @ CRLF @ bytes_of ''$3'' @ CRLF @ bytes_of ''get'' @ CRLF @
      bytes_of ''$1'' @ CRLF @ bytes_of ''k'' @ CRLF"
    by code_simp
  with redis_pipeline_roundtrip [of "[[bytes_of ''get'', bytes_of ''k'']]"] enc show ?thesis
    by simp
qed

text \<open>
  C32: The Redis parser returns on every buffer (of less than \<open>2 ^ 60\<close> bytes) in which no bulk
  string header announces \<open>2 ^ 62\<close> bytes or more, and then every event it returns is a Redis event of
  the connection that carries a database detail whose statement respects the configured limit.
\<close>

theorem redis_Parse_safe:
  assumes "\<not> resp_oversized data" "len data < 2 ^ 60"
  shows "\<exists>evs. redis_Parse U maxq now data meta c = Some (Inr evs) \<and>
    list_all (redis_event_ok maxq meta) evs"
proof -
  obtain evs where "frame_loop (redis_next U maxq now meta c) data = Some evs"
    using redis_loop_safe [OF assms] by blast
  then have "redis_Parse U maxq now data meta c = Some (Inr evs)"
    by (simp add: redis_Parse_def)
  then show ?thesis using redis_Parse_events by (auto simp: list_all_iff)
qed

theorem redis_Parse_safe_witness:
  "\<exists>evs. redis_Parse \<lparr>uniUpper = id, uniLower = id\<rparr> 4096 7
      (bytes_of ''*1'' @ CRLF @ bytes_of ''$99'' @ CRLF) example_meta True = Some (Inr evs) \<and>
    list_all (redis_event_ok 4096 example_meta) evs"
proof (rule redis_Parse_safe)
  show "\<not> resp_oversized (bytes_of ''*1'' @ CRLF @ bytes_of ''$99'' @ CRLF)" by code_simp
qed (simp add: bytes_of_def)

text \<open>
  C33: A command whose first bulk string announces between \<open>2 ^ 63 - 24\<close> and \<open>2 ^ 63 - 1\<close> bytes makes
  the Redis parser panic: the end position wraps around to a negative number, passes the bounds
  test, and the slice expression is out of range.
\<close>

theorem redis_Parse_oversized_panics:
  assumes l: "2 ^ 63 - 24 \<le> l" "l < 2 ^ 63" and r: "len r < 2 ^ 60"
  shows "redis_Parse U maxq now (bytes_of ''*1'' @ CRLF @ 36 # bytes_of (Itoa l) @ CRLF @ r) meta c =
    panic"
proof -
  let ?v = "36 # bytes_of (Itoa l) @ CRLF @ r"
  let ?d = "bytes_of ''*1'' @ CRLF @ ?v"
  have v: "readRESPValue ?v = panic"
    using l r by (rule readRESPValue_overflow)
  have one: "readLine ?d = Some (bytes_of ''*1'', 4)"
    using readLine_append [of "bytes_of ''*1''" ?v] by (simp add: bytes_of_def)
  have "go_from ?d 4 = Some ?v" by (simp add: go_from_Some bytes_of_def)
  with v have "redis_args 1 ?d 4 [] = panic"
    by (subst redis_args.simps) simp
  moreover have "go_index ?d 0 = Some 42" "?d \<noteq> []" "go_from (bytes_of ''*1'') 1 = Some (bytes_of ''1'')"
    by (simp_all add: bytes_of_def go_index_def go_from_Some)
  moreover have "Atoi (string_of (bytes_of ''1'')) = Some 1" by code_simp
  ultimately have "redis_next U maxq now meta c ?d = panic"
    using one by (simp add: redis_next_def redis_decodeOne_def redis_decodeArray_def)
  then have "frame_loop (redis_next U maxq now meta c) ?d = panic"
    by (subst frame_loop.simps) simp
  then show ?thesis by (simp add: redis_Parse_def)
qed

theorem redis_Parse_oversized_panics_witness:
  "redis_Parse \<lparr>uniUpper = id, uniLower = id\<rparr> 4096 7
     (bytes_of ''*1'' @ CRLF @ 36 # bytes_of (Itoa 9223372036854775807) @ CRLF @ []) example_meta True = panic"
  by (rule redis_Parse_oversized_panics) simp_all

end
