(* ===== verification/TextProtocols.thy ===== *)
theory TextProtocols
  imports Protocol
begin

text \<open>
  The parsers of the line-based protocols: FTP, SMTP, IMAP, POP3
  (\<^verbatim>\<open>internal/protocol/{ftp,smtp,imap,pop3}/parser.go\<close>). All four split the data at \<^verbatim>\<open>\r\n\<close>, skip
  empty lines and turn each other line into at most one event; \<open>line_loop\<close> is that loop, and
  \<open>X_line\<close> the body of it in package \<open>X\<close>. The locale \<open>line_protocol\<close> states what a body promises and
  gives the lemmas about the whole parser.
\<close>

section \<open>The line loop\<close>

fun line_loop :: "(string \<Rightarrow> ProtocolEvent option go) \<Rightarrow> bytes list \<Rightarrow> ProtocolEvent list go" where
  "line_loop body [] = Some []"
| "line_loop body (line # lines) =
     (if len line = 0 then line_loop body lines
      else do {
        ev \<leftarrow> body (string_of line);
        evs \<leftarrow> line_loop body lines;
        Some (opt_list ev @ evs) })"

definition parse_lines :: "(string \<Rightarrow> ProtocolEvent option go) \<Rightarrow> bytes \<Rightarrow> parse_result go" where
  "parse_lines body data = map_option Inr (line_loop body (Split data CRLF))"

text \<open>\<^verbatim>\<open>string(data[:min(len(data), n)])\<close>, the part of the data a probe looks at.\<close>

definition head_string :: "bytes \<Rightarrow> int \<Rightarrow> string go" where
  "head_string data n = map_option string_of (go_upto data (min (len data) n))"

definition truncate_string :: "string \<Rightarrow> int \<Rightarrow> string go" where
  "truncate_string s n = (if len s \<le> n then Some s else go_upto s n)"

text \<open>The first word of a line in upper case, as FTP and POP3 compute it.\<close>

definition upper_verb :: "unicode \<Rightarrow> string \<Rightarrow> string go" where
  "upper_verb U s =
     (let cmd = ToUpper U s; idx = IndexByte cmd (CHR '' '')
      in if 0 < idx then go_upto cmd idx else Some cmd)"

text \<open>A three-digit status line, as FTP and SMTP decode it.\<close>

definition status_line :: "string \<Rightarrow> int \<Rightarrow> ConnMeta \<Rightarrow> string \<Rightarrow> ProtocolEvent option go" where
  "status_line name now meta s =
     (if 3 \<le> len s then do {
        h \<leftarrow> go_upto s 3;
        case Atoi h of
          None \<Rightarrow> Some None
        | Some code \<Rightarrow> do {
            let ev = fillMeta (NewEvent now name DirectionResponse) meta;
            msg \<leftarrow> (if 4 < len s then go_from s 4 else Some []);
            Some (Some (ev\<lparr>ev_Metadata := [''code'' \<mapsto> Itoa code, ''message'' \<mapsto> msg]\<rparr>)) } }
      else Some None)"

section \<open>FTP\<close>

definition ftp_Probe :: "bytes \<Rightarrow> bool \<Rightarrow> int go" where
  "ftp_Probe data isFromClient =
     (if len data < 3 then Some 0
      else do {
        s \<leftarrow> head_string data 128;
        Some (if list_ex (\<lambda>pfx. HasPrefix s pfx)
                [''220 '', ''USER '', ''PASS '', ''LIST'', ''RETR'', ''STOR''] then 90 else 0) })"

definition ftp_line :: "unicode \<Rightarrow> int \<Rightarrow> ConnMeta \<Rightarrow> bool \<Rightarrow> string \<Rightarrow> ProtocolEvent option go" where
  "ftp_line U now meta isFromClient s =
     (if isFromClient then do {
        let ev = fillMeta (NewEvent now ''ftp'' DirectionRequest) meta;
        cmd \<leftarrow> upper_verb U s;
        Some (Some (ev\<lparr>ev_Metadata := [''command'' \<mapsto> cmd, ''line'' \<mapsto> s]\<rparr>)) }
      else status_line ''ftp'' now meta s)"

definition ftp_Parse :: "unicode \<Rightarrow> int \<Rightarrow> bytes \<Rightarrow> ConnMeta \<Rightarrow> bool \<Rightarrow> parse_result go" where
  "ftp_Parse U now data meta isFromClient = parse_lines (ftp_line U now meta isFromClient) data"

definition ftp_parser :: "unicode \<Rightarrow> 's Parser" where
  "ftp_parser U =
     \<lparr>Name = ''ftp'', Ports = [21], Probe = ftp_Probe,
      Parse = stateless (\<lambda>now data spare meta c. ftp_Parse U now data meta c), OnConnClose = None\<rparr>"

section \<open>SMTP\<close>

definition smtpCommands :: "string list" where
  "smtpCommands = [''EHLO '', ''HELO '', ''MAIL FROM:'', ''RCPT TO:'', ''DATA'', ''QUIT'', ''RSET'',
     ''NOOP'', ''AUTH '']"

definition extractCommand :: "unicode \<Rightarrow> string \<Rightarrow> string go" where
  "extractCommand U line =
     (let upper = ToUpper U line
      in case find (\<lambda>cmd. HasPrefix upper cmd) smtpCommands of
           Some cmd \<Rightarrow> map_option TrimSpace (go_index (SplitN cmd '' '' 2) 0)
         | None \<Rightarrow>
             (let idx = IndexByte line (CHR '' '')
              in if 0 < idx then map_option (ToUpper U) (go_upto line idx) else Some (ToUpper U line)))"

definition smtp_Probe :: "bytes \<Rightarrow> bool \<Rightarrow> int go" where
  "smtp_Probe data isFromClient =
     (if len data < 4 then Some 0
      else do {
        s \<leftarrow> head_string data 128;
        if list_ex (\<lambda>prefix. HasPrefix s prefix) [''220 '', ''EHLO '', ''HELO '', ''MAIL FROM:'', ''RCPT TO:'']
        then Some 90
        else do {
          d3 \<leftarrow> go_index data 3;
          if d3 = 32 \<or> d3 = 45 then do {
            h \<leftarrow> go_upto data 3;
            Some (if Atoi (string_of h) \<noteq> None then 60 else 0) }
          else Some 0 } })"

definition smtp_line :: "unicode \<Rightarrow> int \<Rightarrow> ConnMeta \<Rightarrow> bool \<Rightarrow> string \<Rightarrow> ProtocolEvent option go" where
  "smtp_line U now meta isFromClient s =
     (if isFromClient then do {
        let ev = fillMeta (NewEvent now ''smtp'' DirectionRequest) meta;
        cmd \<leftarrow> extractCommand U s;
        Some (Some (ev\<lparr>ev_Metadata := [''command'' \<mapsto> cmd, ''line'' \<mapsto> s]\<rparr>)) }
      else status_line ''smtp'' now meta s)"

definition smtp_Parse :: "unicode \<Rightarrow> int \<Rightarrow> bytes \<Rightarrow> ConnMeta \<Rightarrow> bool \<Rightarrow> parse_result go" where
  "smtp_Parse U now data meta isFromClient = parse_lines (smtp_line U now meta isFromClient) data"

definition smtp_parser :: "unicode \<Rightarrow> 's Parser" where
  "smtp_parser U =
     \<lparr>Name = ''smtp'', Ports = [25, 587], Probe = smtp_Probe,
      Parse = stateless (\<lambda>now data spare meta c. smtp_Parse U now data meta c), OnConnClose = None\<rparr>"

section \<open>IMAP\<close>

definition imap_Probe :: "unicode \<Rightarrow> bytes \<Rightarrow> bool \<Rightarrow> int go" where
  "imap_Probe U data isFromClient =
     (if len data < 4 then Some 0
      else do {
        s \<leftarrow> head_string data 128;
        let upper = ToUpper U s;
        Some (if HasPrefix s ''* OK'' then 90
              else if list_ex (\<lambda>kw. Contains upper kw)
                ['' LOGIN '', '' SELECT '', '' FETCH '', '' LIST '', '' LOGOUT'', '' CAPABILITY'', '' SEARCH '']
              then 80
              else if HasPrefix s ''* '' then 60
              else 0) })"

definition imap_line :: "unicode \<Rightarrow> int \<Rightarrow> ConnMeta \<Rightarrow> bool \<Rightarrow> string \<Rightarrow> ProtocolEvent option go" where
  "imap_line U now meta isFromClient s =
     (if isFromClient then do {
        let ev = fillMeta (NewEvent now ''imap'' DirectionRequest) meta;
        let parts = SplitN s '' '' 3;
        (tag, cmd) \<leftarrow> (if 2 \<le> len parts then do {
                          p0 \<leftarrow> go_index parts 0;
                          p1 \<leftarrow> go_index parts 1;
                          Some (p0, ToUpper U p1) }
                        else Some ([], s));
        Some (Some (ev\<lparr>ev_Metadata := [''tag'' \<mapsto> tag, ''command'' \<mapsto> cmd]\<rparr>)) }
      else do {
        let ev = fillMeta (NewEvent now ''imap'' DirectionResponse) meta;
        l \<leftarrow> truncate_string s 256;
        Some (Some (ev\<lparr>ev_Metadata := [''line'' \<mapsto> l]\<rparr>)) })"

definition imap_Parse :: "unicode \<Rightarrow> int \<Rightarrow> bytes \<Rightarrow> ConnMeta \<Rightarrow> bool \<Rightarrow> parse_result go" where
  "imap_Parse U now data meta isFromClient = parse_lines (imap_line U now meta isFromClient) data"

definition imap_parser :: "unicode \<Rightarrow> 's Parser" where
  "imap_parser U =
     \<lparr>Name = ''imap'', Ports = [143, 993], Probe = imap_Probe U,
      Parse = stateless (\<lambda>now data spare meta c. imap_Parse U now data meta c), OnConnClose = None\<rparr>"

section \<open>POP3\<close>

definition pop3_Probe :: "bytes \<Rightarrow> bool \<Rightarrow> int go" where
  "pop3_Probe data isFromClient =
     (if len data < 3 then Some 0
      else do {
        s \<leftarrow> head_string data 64;
        Some (if list_ex (\<lambda>pfx. HasPrefix s pfx) [''+OK'', ''-ERR'', ''USER '', ''PASS '', ''RETR '']
              then 90 else 0) })"

definition pop3_line :: "unicode \<Rightarrow> int \<Rightarrow> ConnMeta \<Rightarrow> bool \<Rightarrow> string \<Rightarrow> ProtocolEvent option go" where
  "pop3_line U now meta isFromClient s =
     (if isFromClient then do {
        let ev = fillMeta (NewEvent now ''pop3'' DirectionRequest) meta;
        cmd \<leftarrow> upper_verb U s;
        Some (Some (ev\<lparr>ev_Metadata := [''command'' \<mapsto> cmd]\<rparr>)) }
      else do {
        let ev = fillMeta (NewEvent now ''pop3'' DirectionResponse) meta;
        let status = (if HasPrefix s ''-ERR'' then ''ERR'' else ''OK'');
        l \<leftarrow> truncate_string s 256;
        Some (Some (ev\<lparr>ev_Metadata := [''status'' \<mapsto> status, ''line'' \<mapsto> l]\<rparr>)) })"

definition pop3_Parse :: "unicode \<Rightarrow> int \<Rightarrow> bytes \<Rightarrow> ConnMeta \<Rightarrow> bool \<Rightarrow> parse_result go" where
  "pop3_Parse U now data meta isFromClient = parse_lines (pop3_line U now meta isFromClient) data"

definition pop3_parser :: "unicode \<Rightarrow> 's Parser" where
  "pop3_parser U =
     \<lparr>Name = ''pop3'', Ports = [110, 995], Probe = pop3_Probe,
      Parse = stateless (\<lambda>now data spare meta c. pop3_Parse U now data meta c), OnConnClose = None\<rparr>"

section \<open>What a line protocol promises\<close>

locale line_protocol =
  fixes name :: string
    and body :: "int \<Rightarrow> ConnMeta \<Rightarrow> bool \<Rightarrow> string \<Rightarrow> ProtocolEvent option go"
  assumes body_ok: "returns (body now meta c s) (\<lambda>ev. \<forall>e. ev = Some e \<longrightarrow> tagged name meta e)"
begin

lemma lines_ok: "returns (line_loop (body now meta c) lines) (\<lambda>evs. \<forall>e \<in> set evs. tagged name meta e)"
  by (induction lines) (auto simp: wp intro!: returns_mono [OF body_ok] elim!: returns_mono)

lemma parse_ok:
  "returns (parse_lines (body now meta c) data)
     (\<lambda>r. \<exists>evs. r = Inr evs \<and> (\<forall>e \<in> set evs. tagged name meta e))"
  using lines_ok by (simp add: parse_lines_def wp)

lemma lines_events:
  assumes "\<forall>x \<in> set xs. g x \<noteq> [] \<and> body now meta c (g x) = Some (Some (f x))"
  shows "line_loop (body now meta c) (map (\<lambda>x. bytes_of (g x)) xs @ [[]]) = Some (map f xs)"
  using assms by (induction xs) auto

text \<open>Complete lines \<open>g x\<close> decode one by one to the events \<open>f x\<close>.\<close>

lemma parse_complete_lines:
  assumes "\<forall>x \<in> set xs. g x \<noteq> [] \<and> CHR 0x0A \<notin> set (g x) \<and> body now meta c (g x) = Some (Some (f x))"
  shows "parse_lines (body now meta c) (concat (map (\<lambda>x. bytes_of (g x) @ CRLF) xs)) = Some (Inr (map f xs))"
proof -
  have "10 \<notin> set (bytes_of (g x))" if "x \<in> set xs" for x
  proof
    assume "10 \<in> set (bytes_of (g x))"
    then obtain y where y: "y \<in> set (g x)" "(of_char y :: byte) = 10" by (auto simp: bytes_of_def)
    then have "of_char y = (10 :: nat)" using unat_of_char [of y] by simp
    moreover have "char_of (10 :: nat) = CHR 0x0A" by code_simp
    ultimately have "y = CHR 0x0A" by (metis char_of_char)
    with y assms that show False by blast
  qed
  then have "Split (concat (map (\<lambda>l. l @ CRLF) (map (\<lambda>x. bytes_of (g x)) xs)) @ []) CRLF =
      map (\<lambda>x. bytes_of (g x)) xs @ [[]]"
    by (intro Split_lines) auto
  then show ?thesis
    using lines_events [of xs g now meta c f] assms by (simp add: parse_lines_def comp_def)
qed

end

lemma head_string_ok: "0 \<le> n \<Longrightarrow> returns (head_string data n) (\<lambda>_. True)"
  by (auto simp: head_string_def wp)

lemma truncate_string_ok: "0 \<le> n \<Longrightarrow> returns (truncate_string s n) (\<lambda>t. len t \<le> n)"
  by (auto simp: truncate_string_def wp)

lemma upper_verb_eq:
  "upper_verb U s =
     Some (let w = takeWhile (\<lambda>c. c \<noteq> CHR '' '') (ToUpper U s) in if w = [] then ToUpper U s else w)"
proof -
  let ?t = "ToUpper U s" and ?w = "takeWhile (\<lambda>c. c \<noteq> CHR '' '') (ToUpper U s)"
  show ?thesis
  proof (cases "CHR '' '' \<in> set ?t")
    case True
    have "take (length ?w) ?t = ?w" "length ?w \<le> length ?t"
      by (metis takeWhile_eq_take) (rule length_takeWhile_le)
    with True show ?thesis by (simp add: upper_verb_def Let_def IndexByte_takeWhile go_safe)
  next
    case False
    then have w: "?w = ?t" by (rule takeWhile_neq)
    have "upper_verb U s = Some ?t" using False by (simp add: upper_verb_def IndexByte_takeWhile)
    then show ?thesis by (simp only: Let_def w if_cancel)
  qed
qed

lemma status_line_ok:
  "returns (status_line name now meta s) (\<lambda>ev. \<forall>e. ev = Some e \<longrightarrow> tagged name meta e)"
  by (auto simp: status_line_def wp)

lemma SplitN_nonempty: "SplitN s sep (Suc n) \<noteq> []"
  by (cases n) auto

lemma extractCommand_ok: "returns (extractCommand U s) (\<lambda>_. True)"
  using Index_range [of s "[CHR '' '']"]
  by (auto simp: extractCommand_def Let_def IndexByte_def wp numeral_2_eq_2 SplitN_nonempty Suc_leI
      split: option.splits)

interpretation ftp_lines: line_protocol "''ftp''" "ftp_line U" for U
  by unfold_locales (auto simp: ftp_line_def wp upper_verb_eq status_line_ok)

interpretation smtp_lines: line_protocol "''smtp''" "smtp_line U" for U
  by unfold_locales (auto simp: smtp_line_def wp status_line_ok intro!: returns_mono [OF extractCommand_ok])

interpretation imap_lines: line_protocol "''imap''" "imap_line U" for U
  by unfold_locales (auto simp: imap_line_def wp intro!: returns_mono [OF truncate_string_ok])

interpretation pop3_lines: line_protocol "''pop3''" "pop3_line U" for U
  by unfold_locales (auto simp: pop3_line_def wp upper_verb_eq intro!: returns_mono [OF truncate_string_ok])

interpretation ftp_iface: safe_parser "ftp_parser U" for U
  by (rule stateless_safe)
    (auto simp: ftp_parser_def ftp_Probe_def ftp_Parse_def wp
      intro!: returns_mono [OF head_string_ok] returns_mono [OF ftp_lines.parse_ok])

interpretation smtp_iface: safe_parser "smtp_parser U" for U
  by (rule stateless_safe)
    (auto simp: smtp_parser_def smtp_Probe_def smtp_Parse_def wp
      intro!: returns_mono [OF head_string_ok] returns_mono [OF smtp_lines.parse_ok])

interpretation imap_iface: safe_parser "imap_parser U" for U
  by (rule stateless_safe)
    (auto simp: imap_parser_def imap_Probe_def imap_Parse_def wp
      intro!: returns_mono [OF head_string_ok] returns_mono [OF imap_lines.parse_ok])

interpretation pop3_iface: safe_parser "pop3_parser U" for U
  by (rule stateless_safe)
    (auto simp: pop3_parser_def pop3_Probe_def pop3_Parse_def wp
      intro!: returns_mono [OF head_string_ok] returns_mono [OF pop3_lines.parse_ok])

section \<open>Status replies\<close>

text \<open>A reply of an FTP or SMTP server: the code, a separator and the text.\<close>

definition reply :: "nat \<times> char \<times> string \<Rightarrow> string" where
  "reply r = (case r of (code, sep, msg) \<Rightarrow> decimal code @ sep # msg)"

definition reply_ok :: "nat \<times> char \<times> string \<Rightarrow> bool" where
  "reply_ok r = (case r of (code, sep, msg) \<Rightarrow>
     100 \<le> code \<and> code \<le> 999 \<and> sep \<noteq> CHR 0x0A \<and> CHR 0x0A \<notin> set msg)"

definition reply_event :: "string \<Rightarrow> int \<Rightarrow> ConnMeta \<Rightarrow> nat \<times> char \<times> string \<Rightarrow> ProtocolEvent" where
  "reply_event name now meta r = (case r of (code, sep, msg) \<Rightarrow>
     (fillMeta (NewEvent now name DirectionResponse) meta)\<lparr>ev_Metadata :=
        [''code'' \<mapsto> decimal code, ''message'' \<mapsto> msg]\<rparr>)"

lemma status_line_reply:
  assumes "reply_ok r"
  shows "status_line name now meta (reply r) = Some (Some (reply_event name now meta r))"
proof -
  obtain code sep msg where r: "r = (code, sep, msg)" using prod_cases3 by blast
  have n: "length (decimal code) = 3"
    using assms length_decimal [of 2 code] by (simp add: r reply_ok_def)
  have a: "Atoi (decimal code) = Some (int code)"
    using assms Atoi_Itoa [of "int code"] by (simp add: r reply_ok_def Itoa_def)
  have "go_upto (reply r) 3 = Some (decimal code)"
    using n by (simp add: r reply_def go_safe)
  moreover have "(if 4 < len (reply r) then go_from (reply r) 4 else Some []) = Some msg"
    using n by (auto simp: r reply_def go_from_Some)
  moreover have "3 \<le> len (reply r)" using n by (simp add: r reply_def)
  ultimately show ?thesis
    using a by (simp add: status_line_def reply_event_def Itoa_def) (simp add: r)
qed

lemma reply_line: "reply_ok r \<Longrightarrow> reply r \<noteq> [] \<and> CHR 0x0A \<notin> set (reply r)"
  by (auto simp: reply_def reply_ok_def dest!: decimal_chars
      dest: arg_cong [where f = "of_char :: char \<Rightarrow> nat"] split: prod.splits)

section \<open>Properties\<close>

text \<open>
  The FTP, SMTP, IMAP and POP3 parsers never panic and never report an error: on every byte string
  each returns a list of events of its own protocol and of the connection.
\<close>

lemma text_parsers_total:
  "(\<exists>evs. ftp_Parse U now data meta c = Some (Inr evs) \<and> list_all (tagged ''ftp'' meta) evs) \<and>
   (\<exists>evs. smtp_Parse U now data meta c = Some (Inr evs) \<and> list_all (tagged ''smtp'' meta) evs) \<and>
   (\<exists>evs. imap_Parse U now data meta c = Some (Inr evs) \<and> list_all (tagged ''imap'' meta) evs) \<and>
   (\<exists>evs. pop3_Parse U now data meta c = Some (Inr evs) \<and> list_all (tagged ''pop3'' meta) evs)"
  using returns_ex [OF ftp_lines.parse_ok [of U now meta c data]]
    returns_ex [OF smtp_lines.parse_ok [of U now meta c data]]
    returns_ex [OF imap_lines.parse_ok [of U now meta c data]]
    returns_ex [OF pop3_lines.parse_ok [of U now meta c data]]
  by (auto simp: ftp_Parse_def smtp_Parse_def imap_Parse_def pop3_Parse_def list_all_iff)

text \<open>
  A sequence of FTP commands decodes to one request event per line, in order: the command is the
  first word of the line in upper case (the whole line if it starts with a space), and the line
  itself is kept.
\<close>

lemma ftp_commands_decoded:
  assumes "\<forall>l \<in> set ls. l \<noteq> [] \<and> CHR 0x0A \<notin> set l"
  shows "ftp_Parse U now (concat (map (\<lambda>l. bytes_of l @ CRLF) ls)) meta True =
    Some (Inr (map (\<lambda>l. (fillMeta (NewEvent now ''ftp'' DirectionRequest) meta)\<lparr>ev_Metadata :=
      [''command'' \<mapsto> (let w = takeWhile (\<lambda>c. c \<noteq> CHR '' '') (ToUpper U l) in if w = [] then ToUpper U l else w),
       ''line'' \<mapsto> l]\<rparr>) ls))"
  unfolding ftp_Parse_def
  by (rule ftp_lines.parse_complete_lines [where g = "\<lambda>l. l"]) (use assms in \<open>auto simp: ftp_line_def upper_verb_eq\<close>)

text \<open>
  C40: The status replies of an SMTP server round-trip: each line made of a three-digit code, a separator
  and a text decodes to one response event with that code and that text, in order.
\<close>

theorem smtp_replies_roundtrip:
  assumes "\<forall>r \<in> set rs. reply_ok r"
  shows "smtp_Parse U now (concat (map (\<lambda>r. bytes_of (reply r) @ CRLF) rs)) meta False =
    Some (Inr (map (reply_event ''smtp'' now meta) rs))"
  unfolding smtp_Parse_def
  by (rule smtp_lines.parse_complete_lines)
    (use assms reply_line in \<open>simp add: smtp_line_def status_line_reply\<close>)

theorem smtp_replies_roundtrip_witness:
  "smtp_Parse \<lparr>uniUpper = id, uniLower = id\<rparr> 7
     (concat (map (\<lambda>r. bytes_of (reply r) @ CRLF) [(250, CHR ''-'', ''SIZE''), (354, CHR '' '', ''go'')]))
     example_meta False =
   Some (Inr (map (reply_event ''smtp'' 7 example_meta) [(250, CHR ''-'', ''SIZE''), (354, CHR '' '', ''go'')]))"
  by (rule smtp_replies_roundtrip) (simp add: reply_ok_def)

end
