(* ===== verification/Unknown.thy ===== *)
theory Unknown
  imports Protocol
begin

text \<open>
  The fallback parser (\<^verbatim>\<open>internal/protocol/unknown/parser.go\<close>) with its own decimal
  printer: \<open>int_digits\<close> is the loop that collects the digits in reverse, \<open>swap_loop\<close> the loop that
  reverses the buffer in place. The lemmas show that together they are \<^verbatim>\<open>strconv.Itoa\<close> on
  non-negative numbers.
\<close>

definition maxExcerptLen :: int where
  "maxExcerptLen = 128"

function int_digits :: "int \<Rightarrow> bytes \<Rightarrow> bytes" where
  "int_digits n buf = (if 0 < n then int_digits (n div 10) (buf @ [of_int (48 + n mod 10)]) else buf)"
  by pat_completeness auto
termination
  by (relation "measure (\<lambda>(n, buf). nat n)") auto

declare int_digits.simps [simp del]

function swap_loop :: "'a list \<Rightarrow> int \<Rightarrow> int \<Rightarrow> 'a list go" where
  "swap_loop buf i j =
     (if i < j then do {
        x \<leftarrow> go_index buf j;
        y \<leftarrow> go_index buf i;
        swap_loop (buf[nat i := x, nat j := y]) (i + 1) (j - 1) }
      else Some buf)"
  by pat_completeness auto
termination
  by (relation "measure (\<lambda>(buf, i, j). nat (j - i))") auto

declare swap_loop.simps [simp del]

definition intToStr :: "int \<Rightarrow> string go" where
  "intToStr n =
     (if n = 0 then Some ''0''
      else let buf = int_digits n [] in map_option string_of (swap_loop buf 0 (len buf - 1)))"

definition unknown_Probe :: "bytes \<Rightarrow> bool \<Rightarrow> int go" where
  "unknown_Probe data isFromClient = Some (if len data = 0 then 0 else 1)"

definition unknown_Parse :: "int \<Rightarrow> bytes \<Rightarrow> ConnMeta \<Rightarrow> bool \<Rightarrow> parse_result go" where
  "unknown_Parse now data meta isFromClient =
     (if len data = 0 then Some (Inr [])
      else do {
        excerpt \<leftarrow> (if maxExcerptLen < len data then go_upto data maxExcerptLen else Some data);
        let ev = fillMeta (NewEvent now ''unknown'' (sideDirection isFromClient)) meta;
        size \<leftarrow> intToStr (len data);
        Some (Inr [ev\<lparr>ev_RawExcerpt := excerpt,
                      ev_Metadata := [''raw_hex'' \<mapsto> EncodeToString excerpt, ''total_size'' \<mapsto> size]\<rparr>]) })"

definition unknown_parser :: "'s Parser" where
  "unknown_parser =
     \<lparr>Name = ''unknown'', Ports = [], Probe = unknown_Probe,
      Parse = stateless (\<lambda>now data spare meta c. unknown_Parse now data meta c), OnConnClose = None\<rparr>"

section \<open>Lemmas\<close>

lemma swap_loop_rev:
  "swap_loop (a @ m @ b) (len a) (len a + len m - 1) = Some (a @ rev m @ b)"
proof (induction "length m" arbitrary: a m b rule: less_induct)
  case less
  show ?case
  proof (cases "length m \<le> 1")
    case True
    then have "rev m = m" by (cases m) auto
    with True show ?thesis by (subst swap_loop.simps) simp
  next
    case False
    then obtain x y k where m: "m = x # k @ [y]"
      by (metis append_butlast_last_id length_0_conv length_Cons list.exhaust One_nat_def le_numeral_extra(4) zero_le)
    let ?l = "a @ m @ b" and ?j = "len a + len m - 1"
    have "go_index ?l ?j = Some y" "go_index ?l (len a) = Some x"
      by (simp_all add: m go_index_def nth_append nat_add_distrib)
    moreover have "nat ?j = length a + Suc (length k)" by (simp add: m nat_add_distrib)
    then have "?l[nat (len a) := y, nat ?j := x] = (a @ [y]) @ k @ (x # b)"
      by (simp add: m list_update_append)
    ultimately have "swap_loop ?l (len a) ?j = swap_loop ((a @ [y]) @ k @ (x # b)) (len a + 1) (?j - 1)"
      using False by (subst swap_loop.simps) simp
    also have "\<dots> = Some ((a @ [y]) @ rev k @ (x # b))"
      using less.hyps [of k "a @ [y]" "x # b"] by (simp add: m algebra_simps)
    finally show ?thesis by (simp add: m)
  qed
qed

lemma int_digits_decimal: "0 < n \<Longrightarrow> string_of (rev (int_digits n buf)) = decimal (nat n) @ string_of (rev buf)"
proof (induction n buf rule: int_digits.induct)
  case (1 n buf)
  let ?b = "of_int (48 + n mod 10) :: byte"
  define d where "d = nat n mod 10"
  have d: "d < 10" "n mod 10 = int d"
    using "1.prems" by (simp_all add: d_def zmod_int)
  have "?b = of_nat (48 + d)" by (simp add: d(2))
  also have "unat \<dots> = 48 + d"
    using d(1) by (simp only: unsigned_of_nat) (simp add: take_bit_nat_eq_self)
  finally have c: "string_of [?b] = [digit_char (nat n mod 10)]"
    by (simp add: string_of_def digit_char_def d_def)
  have i: "int_digits n buf = int_digits (n div 10) (buf @ [?b])"
    using "1.prems" by (subst int_digits.simps) simp
  show ?case
  proof (cases "n < 10")
    case True
    then have "int_digits (n div 10) (buf @ [?b]) = buf @ [?b]"
      using "1.prems" by (subst int_digits.simps) simp
    moreover have "nat n < 10" "nat n mod 10 = nat n" using True "1.prems" by auto
    ultimately show ?thesis
      using i c string_of_append [of "[?b]" "rev buf"] by (simp add: decimal.simps [of "nat n"])
  next
    case False
    then have "0 < n div 10" by simp
    from "1.IH" [OF "1.prems" this]
    have "string_of (rev (int_digits n buf)) = decimal (nat (n div 10)) @ string_of [?b] @ string_of (rev buf)"
      using string_of_append [of "[?b]" "rev buf"] by (simp add: i)
    moreover have "decimal (nat n) = decimal (nat (n div 10)) @ [digit_char (nat n mod 10)]"
      using False by (subst decimal.simps) (simp add: nat_div_distrib)
    ultimately show ?thesis using c by simp
  qed
qed

lemma intToStr_Itoa: "0 \<le> n \<Longrightarrow> intToStr n = Some (Itoa n)"
  using swap_loop_rev [of "[]" "int_digits n []" "[]"] int_digits_decimal [of n "[]"]
  by (auto simp: intToStr_def Itoa_def Let_def string_of_def decimal.simps [of 0])

lemma unknown_Parse_eq:
  "unknown_Parse now data meta c =
     Some (Inr (if data = [] then []
       else [(fillMeta (NewEvent now ''unknown'' (sideDirection c)) meta)\<lparr>ev_RawExcerpt := take 128 data,
              ev_Metadata := [''raw_hex'' \<mapsto> EncodeToString (take 128 data), ''total_size'' \<mapsto> Itoa (len data)]\<rparr>]))"
  by (auto simp: unknown_Parse_def maxExcerptLen_def intToStr_Itoa go_safe)

interpretation unknown_iface: safe_parser unknown_parser
  by (rule stateless_safe) (auto simp: unknown_parser_def unknown_Probe_def unknown_Parse_eq wp split: if_splits)

section \<open>Properties\<close>

text \<open>
  The hand-written decimal printer is \<^verbatim>\<open>strconv.Itoa\<close> on every non-negative number, and so its
  output parses back: the size in an event of the fallback parser is the length of the payload.
\<close>

lemma intToStr_correct:
  assumes "0 \<le> n" "n < 2 ^ 63"
  shows "\<exists>s. intToStr n = Some s \<and> s = Itoa n \<and> Atoi s = Some n"
  using assms intToStr_Itoa Atoi_Itoa [of n] by simp

text \<open>
  The fallback parser never panics. It returns no event for an empty payload and otherwise exactly
  one, whose excerpt is the first 128 bytes (or all of them), given raw and as twice as many
  hexadecimal digits.
\<close>

lemma unknown_Parse_excerpt:
  "\<exists>evs. unknown_Parse now data meta c = Some (Inr evs) \<and> length evs = (if data = [] then 0 else 1) \<and>
     list_all (\<lambda>e. tagged ''unknown'' meta e \<and> ev_RawExcerpt e = take 128 data \<and>
       (\<exists>h. ev_Metadata e ''raw_hex'' = Some h \<and> length h = 2 * min (length data) 128)) evs"
  by (simp add: unknown_Parse_eq length_EncodeToString)

end
