(* ===== verification/Ssh.thy ===== *)
theory Ssh
  imports Protocol
begin

text \<open>The SSH parser (\<^verbatim>\<open>internal/protocol/ssh/parser.go\<close>), which reads the version line.\<close>

definition ssh_Probe :: "bytes \<Rightarrow> bool \<Rightarrow> int go" where
  "ssh_Probe data isFromClient =
     Some (if 4 \<le> len data \<and> HasPrefix data (bytes_of ''SSH-'') then 95 else 0)"

definition ssh_version_line :: "bytes \<Rightarrow> string go" where
  "ssh_version_line data = do {
     let idx = IndexByte data 10;
     line \<leftarrow> (if 0 \<le> idx then go_upto data idx else Some data);
     Some (string_of (TrimRight1 line 13)) }"

definition ssh_Parse :: "int \<Rightarrow> bytes \<Rightarrow> ConnMeta \<Rightarrow> bool \<Rightarrow> parse_result go" where
  "ssh_Parse now data meta isFromClient =
     (if len data < 4 then Some (Inr [])
      else do {
        versionStr \<leftarrow> ssh_version_line data;
        let ev = fillMeta (NewEvent now ''ssh'' (sideDirection isFromClient)) meta;
        let md = [''version_string'' \<mapsto> versionStr];
        let parts = SplitN versionStr ''-'' 3;
        md \<leftarrow> (if len parts = 3 then do {
                  p0 \<leftarrow> go_index parts 0;
                  p1 \<leftarrow> go_index parts 1;
                  p2 \<leftarrow> go_index parts 2;
                  Some (md(''protocol_version'' \<mapsto> p0 @ ''-'' @ p1, ''software'' \<mapsto> p2)) }
                else Some md);
        Some (Inr [ev\<lparr>ev_Metadata := md\<rparr>]) })"

definition ssh_parser :: "'s Parser" where
  "ssh_parser =
     \<lparr>Name = ''ssh'', Ports = [22], Probe = ssh_Probe,
      Parse = stateless (\<lambda>now data spare meta c. ssh_Parse now data meta c), OnConnClose = None\<rparr>"

section \<open>Lemmas\<close>

lemma ssh_version_line_ok: "returns (ssh_version_line data) (\<lambda>_. True)"
  using Index_le [of data "[10]"] by (auto simp: ssh_version_line_def IndexByte_def wp)

lemma ssh_Parse_ok:
  "returns (ssh_Parse now data meta c)
     (\<lambda>r. \<exists>evs. r = Inr evs \<and> (\<forall>e \<in> set evs. tagged ''ssh'' meta e))"
  by (auto simp: ssh_Parse_def wp intro!: returns_mono [OF ssh_version_line_ok])

interpretation ssh_iface: safe_parser ssh_parser
  by (rule stateless_safe)
    (auto simp: ssh_parser_def ssh_Probe_def wp intro!: returns_mono [OF ssh_Parse_ok])

lemma ssh_version_line_text:
  assumes "10 \<notin> set (bytes_of v)" "v = [] \<or> last (bytes_of v) \<noteq> 13"
  shows "ssh_version_line (bytes_of v @ CRLF @ r) = Some v"
proof -
  have "takeWhile (\<lambda>x. x \<noteq> 10) (bytes_of v @ CRLF @ r) = bytes_of v @ [13]"
    using assms(1) by (induction v) (auto simp: bytes_of_def)
  then have "IndexByte (bytes_of v @ CRLF @ r) 10 = len v + 1"
    by (simp add: IndexByte_takeWhile)
  moreover have "TrimRight1 (bytes_of v @ [13]) 13 = bytes_of v"
    using assms(2) by (cases "bytes_of v" rule: rev_cases) (auto simp: TrimRight1_def)
  ultimately show ?thesis
    by (simp add: ssh_version_line_def go_safe nat_add_distrib)
qed

lemma SplitN_version:
  assumes "CHR ''-'' \<notin> set ver"
  shows "SplitN (''SSH-'' @ ver @ ''-'' @ soft) ''-'' 3 = [''SSH'', ver, soft]"
proof -
  have "Index (ver @ ''-'' @ soft) ''-'' = len ver"
    using assms by (intro Index_append) (auto dest: set_mono_sublist)
  moreover have "Index (''SSH-'' @ ver @ ''-'' @ soft) ''-'' = 3" by simp
  ultimately show ?thesis by (simp add: numeral_3_eq_3)
qed

section \<open>Properties\<close>

text \<open>
  A version line \<^verbatim>\<open>SSH-\<close>\<open>ver\<close>\<^verbatim>\<open>-\<close>\<open>soft\<close> ended by \<^verbatim>\<open>\r\n\<close> is decoded exactly, whatever follows it in the
  buffer: the event holds the line, the protocol version and the software name.
\<close>

lemma ssh_version_roundtrip:
  assumes "CHR ''-'' \<notin> set ver" "soft \<noteq> []" "last (bytes_of soft) \<noteq> 13"
    and "10 \<notin> set (bytes_of (ver @ soft))"
  shows "ssh_Parse now (bytes_of (''SSH-'' @ ver @ ''-'' @ soft) @ CRLF @ r) meta c =
    Some (Inr [(fillMeta (NewEvent now ''ssh'' (sideDirection c)) meta)\<lparr>ev_Metadata :=
      [''version_string'' \<mapsto> ''SSH-'' @ ver @ ''-'' @ soft,
       ''protocol_version'' \<mapsto> ''SSH-'' @ ver, ''software'' \<mapsto> soft]\<rparr>])"
proof -
  let ?v = "''SSH-'' @ ver @ ''-'' @ soft"
  have "last (bytes_of ?v) = last (bytes_of soft)" using assms(2) by (simp add: bytes_of_def)
  moreover have "10 \<notin> set (bytes_of ?v)" using assms(4) by (auto simp: bytes_of_def)
  ultimately have "ssh_version_line (bytes_of ?v @ CRLF @ r) = Some ?v"
    using assms(3) by (intro ssh_version_line_text) auto
  moreover have "\<not> len (bytes_of ?v @ CRLF @ r) < 4" by simp
  ultimately show ?thesis
    using SplitN_version [OF assms(1), of soft]
    by (simp only: ssh_Parse_def if_False) (simp add: go_index_def)
qed

end
