(* ===== verification/Websocket.thy ===== *)
theory Websocket
  imports TextProtocols
begin

text \<open>
  The WebSocket parser (\<^verbatim>\<open>internal/protocol/websocket/parser.go\<close>): the HTTP upgrade handshake and the
  header of a frame. \<open>upgrade_header\<close> is the body of the loop over the header lines. It cuts the
  original line at the length of a name that it found in the lower-cased line, which is safe because
  lower-casing never makes a text longer up to an ASCII prefix (\<open>unicode_lower_ok\<close>).
\<close>

definition opcodeNames :: "byte \<rightharpoonup> string" where
  "opcodeNames = map_of [(0x0, ''continuation''), (0x1, ''text''), (0x2, ''binary''),
     (0x8, ''close''), (0x9, ''ping''), (0xA, ''pong'')]"

definition containsIgnoreCase :: "unicode \<Rightarrow> string \<Rightarrow> string \<Rightarrow> bool" where
  "containsIgnoreCase U s substr = Contains (ToLower U s) (ToLower U substr)"

definition boolStr :: "bool \<Rightarrow> string" where
  "boolStr b = (if b then ''true'' else ''false'')"

definition websocket_Probe :: "unicode \<Rightarrow> bytes \<Rightarrow> bool \<Rightarrow> int go" where
  "websocket_Probe U data isFromClient =
     (if len data < 4 then Some 0
      else do {
        header \<leftarrow> head_string data 512;
        let up = containsIgnoreCase U header ''upgrade: websocket'';
        if isFromClient \<and> HasPrefix data (bytes_of ''GET '') \<and> up then Some 95
        else if \<not> isFromClient \<and> HasPrefix data (bytes_of ''HTTP/1.1 101'') \<and> up then Some 95
        else do {
          d0 \<leftarrow> go_index data 0;
          let opcode = d0 AND 0x0F;
          Some (if (opcode \<le> 0x2 \<or> (0x8 \<le> opcode \<and> opcode \<le> 0xA)) \<and> d0 AND 0x80 \<noteq> 0
                then 40 else 0) } })"

definition upgrade_header :: "unicode \<Rightarrow> string \<Rightarrow> (string \<rightharpoonup> string) \<Rightarrow> (string \<rightharpoonup> string) go" where
  "upgrade_header U line md =
     (let lower = ToLower U line
      in if HasPrefix lower ''sec-websocket-key:'' then do {
           v \<leftarrow> go_from line (len ''Sec-WebSocket-Key:'');
           Some (md(''ws_key'' \<mapsto> TrimSpace v)) }
         else if HasPrefix lower ''sec-websocket-protocol:'' then do {
           v \<leftarrow> go_from line (len ''Sec-WebSocket-Protocol:'');
           Some (md(''ws_protocol'' \<mapsto> TrimSpace v)) }
         else Some md)"

fun upgrade_headers :: "unicode \<Rightarrow> string list \<Rightarrow> (string \<rightharpoonup> string) \<Rightarrow> (string \<rightharpoonup> string) go" where
  "upgrade_headers U [] md = Some md"
| "upgrade_headers U (line # lines) md = Option.bind (upgrade_header U line md) (upgrade_headers U lines)"

definition parseUpgrade :: "unicode \<Rightarrow> int \<Rightarrow> bytes \<Rightarrow> ConnMeta \<Rightarrow> bool \<Rightarrow> ProtocolEvent option go" where
  "parseUpgrade U now data meta isFromClient = do {
     s \<leftarrow> head_string data 1024;
     if \<not> containsIgnoreCase U s ''upgrade: websocket'' then Some None
     else do {
       let ev = fillMeta (NewEvent now ''websocket'' (sideDirection isFromClient)) meta;
       let md = [''type'' \<mapsto> ''upgrade''];
       let lines = Split s [CHR 0x0D, CHR 0x0A];
       md \<leftarrow> (if 0 < len lines then map_option (\<lambda>l. md(''request_line'' \<mapsto> l)) (go_index lines 0)
               else Some md);
       rest \<leftarrow> go_from lines 1;
       md \<leftarrow> upgrade_headers U rest md;
       Some (Some (ev\<lparr>ev_Metadata := md\<rparr>)) } }"

definition parseFrame :: "int \<Rightarrow> bytes \<Rightarrow> ConnMeta \<Rightarrow> bool \<Rightarrow> ProtocolEvent option go" where
  "parseFrame now data meta isFromClient =
     (if len data < 2 then Some None
      else do {
        d0 \<leftarrow> go_index data 0;
        let opcode = d0 AND 0x0F;
        case opcodeNames opcode of
          None \<Rightarrow> Some None
        | Some name \<Rightarrow> do {
            let fin = (d0 AND 0x80 \<noteq> 0);
            d1 \<leftarrow> go_index data 1;
            let masked = (d1 AND 0x80 \<noteq> 0);
            let payloadLen = uint (d1 AND 0x7F);
            let ev = fillMeta (NewEvent now ''websocket'' (sideDirection isFromClient)) meta;
            Some (Some (ev\<lparr>ev_Metadata := [''type'' \<mapsto> ''frame'', ''opcode'' \<mapsto> name,
              ''fin'' \<mapsto> boolStr fin, ''masked'' \<mapsto> boolStr masked,
              ''payload_len'' \<mapsto> Itoa payloadLen]\<rparr>)) } })"

definition websocket_Parse :: "unicode \<Rightarrow> int \<Rightarrow> bytes \<Rightarrow> ConnMeta \<Rightarrow> bool \<Rightarrow> parse_result go" where
  "websocket_Parse U now data meta isFromClient = do {
     up \<leftarrow> parseUpgrade U now data meta isFromClient;
     case up of
       Some ev \<Rightarrow> Some (Inr [ev])
     | None \<Rightarrow> do {
         fr \<leftarrow> parseFrame now data meta isFromClient;
         Some (Inr (opt_list fr)) } }"

definition websocket_parser :: "unicode \<Rightarrow> 's Parser" where
  "websocket_parser U =
     \<lparr>Name = ''websocket'', Ports = [80, 443, 8080], Probe = websocket_Probe U,
      Parse = stateless (\<lambda>now data spare meta c. websocket_Parse U now data meta c), OnConnClose = None\<rparr>"

section \<open>Lemmas\<close>

text \<open>
  What the parser relies on in Go's Unicode tables: a character lower-cases to an ASCII character only
  from at least one byte, so an ASCII prefix of the lower-cased text is covered by the text.
\<close>

definition unicode_lower_ok :: "unicode \<Rightarrow> bool" where
  "unicode_lower_ok U \<longleftrightarrow> (\<forall>s p. isASCII p \<longrightarrow> prefix p (uniLower U s) \<longrightarrow> length p \<le> length s)"

lemma lower_prefix_length:
  assumes "unicode_lower_ok U" "isASCII p" "prefix p (ToLower U s)"
  shows "length p \<le> length s"
proof (cases "isASCII s")
  case True
  with assms(3) show ?thesis by (auto simp: ToLower_def dest: prefix_length_le)
next
  case False
  with assms show ?thesis by (simp add: ToLower_def unicode_lower_ok_def)
qed

lemma upgrade_header_ok: "unicode_lower_ok U \<Longrightarrow> returns (upgrade_header U line md) (\<lambda>_. True)"
  using lower_prefix_length [of U "''sec-websocket-key:''" line]
    lower_prefix_length [of U "''sec-websocket-protocol:''" line]
  by (auto simp: upgrade_header_def Let_def wp isASCII_def)

lemma upgrade_headers_ok: "unicode_lower_ok U \<Longrightarrow> returns (upgrade_headers U lines md) (\<lambda>_. True)"
  by (induction lines arbitrary: md) (auto simp: wp intro!: returns_mono [OF upgrade_header_ok])

lemma parseUpgrade_ok:
  "unicode_lower_ok U \<Longrightarrow> returns (parseUpgrade U now data meta c)
     (\<lambda>ev. \<forall>e. ev = Some e \<longrightarrow> tagged ''websocket'' meta e)"
  using Split_nonempty
  by (auto simp: parseUpgrade_def wp Suc_leI intro!: returns_mono [OF head_string_ok] returns_mono [OF upgrade_headers_ok])

lemma parseUpgrade_tagged:
  "parseUpgrade U now data meta c = Some (Some e) \<Longrightarrow> tagged ''websocket'' meta e"
  by (auto simp: parseUpgrade_def bind_eq_Some_conv Let_def split: if_splits)

lemma parseFrame_ok:
  "returns (parseFrame now data meta c) (\<lambda>ev. \<forall>e. ev = Some e \<longrightarrow> tagged ''websocket'' meta e)"
  by (auto simp: parseFrame_def wp)

lemma websocket_Parse_ok:
  "unicode_lower_ok U \<Longrightarrow> returns (websocket_Parse U now data meta c)
     (\<lambda>r. \<exists>evs. r = Inr evs \<and> length evs \<le> 1 \<and> (\<forall>e \<in> set evs. tagged ''websocket'' meta e))"
  by (auto simp: websocket_Parse_def wp opt_list_def intro!: returns_mono [OF parseUpgrade_ok]
      returns_mono [OF parseFrame_ok] split: option.splits)

interpretation websocket_iface: parser_contract "websocket_parser U" for U
proof (rule stateless_contract)
  show "returns (Probe (websocket_parser U) d c) (\<lambda>s. 0 \<le> s \<and> s \<le> 100)" for d c
    by (auto simp: websocket_parser_def websocket_Probe_def wp intro!: returns_mono [OF head_string_ok])
  show "Parse (websocket_parser U) = stateless (\<lambda>now data spare meta c. websocket_Parse U now data meta c)"
    by (simp add: websocket_parser_def)
  show "tagged (Name (websocket_parser U)) m e"
    if "websocket_Parse U now d m c = Some (Inr evs)" "e \<in> set evs" for now d m c evs e
    using that parseUpgrade_tagged [of U now d m c e] returnsD [OF parseFrame_ok [of now d m c]]
    by (auto simp: websocket_parser_def websocket_Parse_def bind_eq_Some_conv split: option.splits)
qed

section \<open>Properties\<close>

text \<open>
  Given that lower-casing covers ASCII prefixes, the WebSocket parser never panics: on every byte
  string it returns at most one event, of the connection.
\<close>

lemma websocket_Parse_total:
  assumes "unicode_lower_ok U"
  shows "\<exists>evs. websocket_Parse U now data meta c = Some (Inr evs) \<and> length evs \<le> 1 \<and>
    list_all (tagged ''websocket'' meta) evs"
  using returns_ex [OF websocket_Parse_ok [OF assms, of now data meta c]] by (auto simp: list_all_iff)

end
