(* ===== verification/Dns.thy ===== *)
theory Dns
  imports Protocol NetIP
begin

text \<open>
  The DNS parser (\<^verbatim>\<open>internal/protocol/dns/parser.go\<close>). \<open>decodeName_loop\<close> is the loop of
  \<^verbatim>\<open>decodeName\<close> with its variables as arguments; it ends because every jump through a compression
  pointer adds a new target below \<open>2 ^ 14\<close> to the visited ones, and between jumps the position
  grows. The record data of an answer is a slice of the packet: \<open>findOffset\<close> compares element
  addresses, so the model carries the position at which the slice begins.
\<close>

section \<open>Names\<close>

lemma card_visited: "finite A \<Longrightarrow> x \<in> A \<Longrightarrow> x \<notin> B \<Longrightarrow> card (A - insert x B) < card (A - B)"
  by (intro psubset_card_mono) auto

function decodeName_loop ::
  "bytes \<Rightarrow> int list \<Rightarrow> int \<Rightarrow> int \<Rightarrow> string list \<Rightarrow> (error + string \<times> int) go" where
  "decodeName_loop data visited newOffset cur parts =
     (if len data \<le> cur then Some (Inl (''offset '' @ Itoa cur @ '' out of bounds''))
      else do {
        b \<leftarrow> go_index data cur;
        let l = uint b;
        if l = 0 then Some (Inr (Join parts ''.'', if newOffset < 0 then cur + 1 else newOffset))
        else if l AND 0xC0 = 0xC0 then
          (if len data \<le> cur + 1 then Some (Inl (''pointer truncated at '' @ Itoa cur))
           else do {
             pb \<leftarrow> go_slice data cur (cur + 2);
             w \<leftarrow> be16 pb;
             let ptr = uint (w AND 0x3FFF);
             if ptr \<in> set visited then Some (Inl (''compression loop at '' @ Itoa ptr))
             else decodeName_loop data (ptr # visited) (if newOffset < 0 then cur + 2 else newOffset) ptr parts })
        else
          (let cur1 = cur + 1; end1 = cur1 + l
           in if len data < end1 then Some (Inl (''label extends past packet at '' @ Itoa cur1))
              else do {
                label \<leftarrow> go_slice data cur1 end1;
                decodeName_loop data visited newOffset end1 (parts @ [string_of label]) }) })"
  by pat_completeness auto
termination
proof (relation "measures [\<lambda>(data, visited, n, cur, parts). card ({0 ..< 2 ^ 14} - set visited),
                           \<lambda>(data, visited, n, cur, parts). nat (len data - cur)]",
    goal_cases)
  case 1
  then show ?case by simp
next
  case (2 data visited newOffset cur parts b l pb w ptr)
  have "ptr \<le> uint (0x3FFF :: u16)"
    using 2 word_and_le1 [of w "0x3FFF"] by (simp add: word_le_def)
  then have "card ({0 ..< 2 ^ 14} - insert ptr (set visited)) < card ({0 ..< 2 ^ 14} - set visited)"
    using 2 by (intro card_visited) simp_all
  then show ?case by simp
next
  case (3 data visited newOffset cur parts b l cur1 end1 label)
  then have "0 < l" using uint_nonnegative [of b] by (simp add: order_less_le)
  with 3 show ?case by auto
qed

declare decodeName_loop.simps [simp del]

definition decodeName :: "bytes \<Rightarrow> int \<Rightarrow> (error + string \<times> int) go" where
  "decodeName data offset = decodeName_loop data [] (-1) offset []"

section \<open>Records\<close>

definition rrTypeName :: "u16 \<Rightarrow> string" where
  "rrTypeName t =
     (case map_of [(1, ''A''), (2, ''NS''), (5, ''CNAME''), (6, ''SOA''), (12, ''PTR''), (15, ''MX''),
        (16, ''TXT''), (28, ''AAAA''), (33, ''SRV''), (65, ''HTTPS'')] t of
        Some n \<Rightarrow> n | None \<Rightarrow> ''TYPE'' @ decimal (unat t))"

definition rrClassName :: "u16 \<Rightarrow> string" where
  "rrClassName c =
     (case map_of [(1, ''IN''), (3, ''CH''), (255, ''ANY'')] c of
        Some n \<Rightarrow> n | None \<Rightarrow> ''CLASS'' @ decimal (unat c))"

text \<open>
  \<open>subOff\<close> is the position in \<open>pkt\<close> of the first element of \<open>sub\<close>, which is a slice of \<open>pkt\<close>; the
  loop compares it with the position \<open>i\<close>.
\<close>

function findOffset_loop :: "bytes \<Rightarrow> bytes \<Rightarrow> int \<Rightarrow> int \<Rightarrow> int" where
  "findOffset_loop pkt sub subOff i =
     (if i + len sub \<le> len pkt then (if i = subOff then i else findOffset_loop pkt sub subOff (i + 1))
      else -1)"
  by pat_completeness auto
termination
  by (relation "measure (\<lambda>(pkt, sub, subOff, i). nat (len pkt + 1 - i))") auto

declare findOffset_loop.simps [simp del]

definition findOffset :: "bytes \<Rightarrow> bytes \<Rightarrow> int \<Rightarrow> int" where
  "findOffset pkt sub subOff =
     (if len sub = 0 \<or> len pkt = 0 then -1 else findOffset_loop pkt sub subOff 0)"

function txt_loop :: "bytes \<Rightarrow> int \<Rightarrow> string list \<Rightarrow> string list go" where
  "txt_loop rdata off texts =
     (if off < len rdata then do {
        b \<leftarrow> go_index rdata off;
        let tlen = uint b;
        let off = off + 1;
        if len rdata < off + tlen then Some texts
        else do {
          v \<leftarrow> go_slice rdata off (off + tlen);
          txt_loop rdata (off + tlen) (texts @ [string_of v]) } }
      else Some texts)"
  by pat_completeness auto
termination
  by (relation "measure (\<lambda>(rdata, off, texts). nat (len rdata - off))") auto

declare txt_loop.simps [simp del]

text \<open>The name at a position of the packet, if it decodes.\<close>

definition name_at :: "bytes \<Rightarrow> int \<Rightarrow> string option go" where
  "name_at pkt off =
     (if 0 \<le> off then map_option (\<lambda>r. case r of Inl e \<Rightarrow> None | Inr (n, _) \<Rightarrow> Some n) (decodeName pkt off)
      else Some None)"

definition formatRData :: "u16 \<Rightarrow> bytes \<Rightarrow> int \<Rightarrow> bytes \<Rightarrow> string go" where
  "formatRData rtype rdata rdataOff pkt =
     (if rtype = 1 \<and> len rdata = 4 then Some (IP_String rdata)
      else if rtype = 28 \<and> len rdata = 16 then Some (IP_String rdata)
      else if rtype = 5 \<or> rtype = 2 \<or> rtype = 12 then do {
        ignored \<leftarrow> decodeName pkt (-1);
        if 0 < len pkt \<and> 0 < len rdata then do {
          n \<leftarrow> name_at pkt (findOffset pkt rdata rdataOff);
          Some (case n of Some n \<Rightarrow> n | None \<Rightarrow> EncodeToString rdata) }
        else Some (EncodeToString rdata) }
      else if rtype = 15 \<and> 3 \<le> len rdata then do {
        pb \<leftarrow> go_slice rdata 0 2;
        pref \<leftarrow> be16 pb;
        let rdataStart = findOffset pkt rdata rdataOff;
        n \<leftarrow> (if 0 \<le> rdataStart then name_at pkt (rdataStart + 2) else Some None);
        Some (case n of Some n \<Rightarrow> decimal (unat pref) @ '' '' @ n | None \<Rightarrow> EncodeToString rdata) }
      else if rtype = 16 \<and> 0 < len rdata then do {
        texts \<leftarrow> txt_loop rdata 0 [];
        Some (Join texts '' '') }
      else Some (EncodeToString rdata))"

section \<open>Messages\<close>

definition u16_at :: "bytes \<Rightarrow> int \<Rightarrow> u16 go" where
  "u16_at data off = Option.bind (go_slice data off (off + 2)) be16"

definition dns_Probe :: "bytes \<Rightarrow> bool \<Rightarrow> int go" where
  "dns_Probe data isFromClient =
     (if len data < 12 then Some 0
      else do {
        qdCount \<leftarrow> u16_at data 4;
        if qdCount = 0 \<or> qdCount > 10 then Some 0
        else do {
          d2 \<leftarrow> go_index data 2;
          let opcode = drop_bit 3 d2 AND 0x0F;
          Some (if opcode > 5 then 0 else 80) } })"

text \<open>The two loops of \<^verbatim>\<open>Parse\<close>; the first argument counts the records that remain.\<close>

fun dns_questions ::
  "nat \<Rightarrow> bytes \<Rightarrow> int \<Rightarrow> DNSQuestion list \<Rightarrow> (error + DNSQuestion list \<times> int) go" where
  "dns_questions 0 data offset qs = Some (Inr (qs, offset))"
| "dns_questions (Suc n) data offset qs = do {
     r \<leftarrow> decodeName data offset;
     case r of
       Inl err \<Rightarrow> Some (Inl (''dns: question name: '' @ err))
     | Inr (name, offset) \<Rightarrow>
         if len data < offset + 4 then Some (Inl ''dns: question truncated'')
         else do {
           qtype \<leftarrow> u16_at data offset;
           qclass \<leftarrow> u16_at data (offset + 2);
           dns_questions n data (offset + 4)
             (qs @ [\<lparr>dq_Name = name, dq_Type = rrTypeName qtype, dq_Class = rrClassName qclass\<rparr>]) } }"

definition dns_answer :: "bytes \<Rightarrow> string \<Rightarrow> int \<Rightarrow> (error + DNSAnswer \<times> int) go" where
  "dns_answer data name offset =
     (if len data < offset + 10 then Some (Inl ''dns: answer truncated'')
      else do {
        rtype \<leftarrow> u16_at data offset;
        rclass \<leftarrow> u16_at data (offset + 2);
        tb \<leftarrow> go_slice data (offset + 4) (offset + 8);
        ttl \<leftarrow> be32 tb;
        rl \<leftarrow> u16_at data (offset + 8);
        let rdLength = uint rl;
        let offset = offset + 10;
        if len data < offset + rdLength then Some (Inl ''dns: rdata truncated'')
        else do {
          rdata \<leftarrow> go_slice data offset (offset + rdLength);
          text \<leftarrow> formatRData rtype rdata offset data;
          Some (Inr (\<lparr>da_Name = name, da_Type = rrTypeName rtype, da_Class = rrClassName rclass,
                      da_TTL = ttl, da_Data = text\<rparr>, offset + rdLength)) } })"

fun dns_answers ::
  "nat \<Rightarrow> bytes \<Rightarrow> int \<Rightarrow> DNSAnswer list \<Rightarrow> (error + DNSAnswer list) go" where
  "dns_answers 0 data offset as = Some (Inr as)"
| "dns_answers (Suc n) data offset as = do {
     r \<leftarrow> decodeName data offset;
     case r of
       Inl err \<Rightarrow> Some (Inl (''dns: answer name: '' @ err))
     | Inr (name, offset) \<Rightarrow> do {
         a \<leftarrow> dns_answer data name offset;
         case a of
           Inl err \<Rightarrow> Some (Inl err)
         | Inr (ans, offset) \<Rightarrow> dns_answers n data offset (as @ [ans]) } }"

definition dns_event ::
  "int \<Rightarrow> u16 \<Rightarrow> u16 \<Rightarrow> ConnMeta \<Rightarrow> DNSQuestion list \<Rightarrow> DNSAnswer list \<Rightarrow> ProtocolEvent" where
  "dns_event now txID flags meta qs as =
     (let opcode = uint (drop_bit 11 flags AND 0x0F);
          rcode = uint (flags AND 0x0F);
          isResponse = (flags AND 0x8000 \<noteq> 0);
          ev = fillMeta (NewEvent now ''dns'' (if isResponse then DirectionResponse else DirectionRequest)) meta
      in ev\<lparr>ev_DNSDetail := Some \<lparr>dns_TransactionID = txID, dns_OpCode = opcode,
               dns_ResponseCode = rcode, dns_Questions = qs, dns_Answers = as\<rparr>\<rparr>)"

definition dns_Parse :: "int \<Rightarrow> bytes \<Rightarrow> ConnMeta \<Rightarrow> bool \<Rightarrow> parse_result go" where
  "dns_Parse now data meta isFromClient =
     (if len data < 12 then Some (Inl (''dns: packet too short ('' @ Itoa (len data) @ '' bytes)''))
      else do {
        txID \<leftarrow> u16_at data 0;
        flags \<leftarrow> u16_at data 2;
        qdCount \<leftarrow> u16_at data 4;
        anCount \<leftarrow> u16_at data 6;
        q \<leftarrow> dns_questions (unat qdCount) data 12 [];
        case q of
          Inl err \<Rightarrow> Some (Inl err)
        | Inr (qs, offset) \<Rightarrow> do {
            a \<leftarrow> dns_answers (unat anCount) data offset [];
            case a of
              Inl err \<Rightarrow> Some (Inl err)
            | Inr as \<Rightarrow> Some (Inr [dns_event now txID flags meta qs as]) } })"

definition dns_parser :: "'s Parser" where
  "dns_parser =
     \<lparr>Name = ''dns'', Ports = [53, 5353], Probe = dns_Probe,
      Parse = stateless (\<lambda>now data spare meta c. dns_Parse now data meta c), OnConnClose = None\<rparr>"

section \<open>Lemmas: names\<close>

lemma u16_at_ok: "0 \<le> off \<Longrightarrow> off + 2 \<le> len data \<Longrightarrow> returns (u16_at data off) (\<lambda>_. True)"
  by (auto simp: u16_at_def wp intro!: returns_binary)

lemma decodeName_loop_ok:
  "0 \<le> cur \<Longrightarrow> newOffset \<le> len data \<Longrightarrow>
     returns (decodeName_loop data visited newOffset cur parts)
       (\<lambda>r. \<forall>n off. r = Inr (n, off) \<longrightarrow>
          (if newOffset < 0 then cur < off \<and> off \<le> len data else off = newOffset))"
proof (induction data visited newOffset cur parts rule: decodeName_loop.induct)
  case (1 data visited newOffset cur parts)
  show ?case
  proof (cases "cur < len data")
    case False
    then show ?thesis by (subst decodeName_loop.simps) (simp add: wp)
  next
    case True
    let ?b = "data ! nat cur"
    have gi: "go_index data cur = Some ?b" using True "1.prems" by (simp add: go_safe)
    have pos: "0 < uint ?b" if "uint ?b \<noteq> 0"
      using that uint_nonnegative [of ?b] by linarith
    have ptr: "returns (decodeName_loop data (uint (w AND 0x3FFF) # visited)
        (if newOffset < 0 then cur + 2 else newOffset) (uint (w AND 0x3FFF)) parts)
       (\<lambda>r. \<forall>n off. r = Inr (n, off) \<longrightarrow>
          (if newOffset < 0 then cur < off \<and> off \<le> len data else off = newOffset))"
      if "uint ?b AND 0xC0 = 0xC0" "\<not> len data \<le> cur + 1" "uint (w AND 0x3FFF) \<notin> set visited"
        "uint ?b \<noteq> 0" "be16 (take 2 (drop (nat cur) data)) = Some w" for w
    proof -
      have "go_slice data cur (cur + 2) = Some (take 2 (drop (nat cur) data))"
        using that "1.prems" by (simp add: go_safe)
      from "1.IH"(1) [OF _ gi refl that(4) that(1) that(2) this that(5) refl that(3)]
      have "returns (decodeName_loop data (uint (w AND 0x3FFF) # visited)
          (if newOffset < 0 then cur + 2 else newOffset) (uint (w AND 0x3FFF)) parts)
         (\<lambda>r. \<forall>n off. r = Inr (n, off) \<longrightarrow> off = (if newOffset < 0 then cur + 2 else newOffset))"
        using True that(2) "1.prems" by (auto split: if_splits)
      then show ?thesis
        by (rule returns_mono) (use True that(2) "1.prems" in auto)
    qed
    have lab: "returns (decodeName_loop data visited newOffset (cur + 1 + uint ?b) (parts @ [string_of l]))
       (\<lambda>r. \<forall>n off. r = Inr (n, off) \<longrightarrow>
          (if newOffset < 0 then cur < off \<and> off \<le> len data else off = newOffset))"
      if "uint ?b AND 0xC0 \<noteq> 0xC0" "uint ?b \<noteq> 0" "\<not> len data < cur + 1 + uint ?b"
        "go_slice data (cur + 1) (cur + 1 + uint ?b) = Some l" for l
      using "1.IH"(2) [OF _ gi refl that(2,1) refl refl that(3,4)] True "1.prems" pos [OF that(2)]
      by (auto elim!: returns_mono split: if_splits)
    show ?thesis
      using True "1.prems" gi ptr lab pos
      by (subst decodeName_loop.simps) (auto simp: wp go_safe intro!: returns_binary)
  qed
qed

lemma decodeName_ok:
  "0 \<le> offset \<Longrightarrow> returns (decodeName data offset)
     (\<lambda>r. \<forall>n off. r = Inr (n, off) \<longrightarrow> offset < off \<and> off \<le> len data)"
  using decodeName_loop_ok [of offset "-1" data "[]" "[]"] by (simp add: decodeName_def)

lemma decodeName_negative: "offset < 0 \<Longrightarrow> decodeName data offset = panic"
  by (subst decodeName_def, subst decodeName_loop.simps) (simp add: go_index_def)

section \<open>Lemmas: records\<close>

lemma findOffset_loop_eq:
  "i \<le> subOff \<Longrightarrow> subOff + len sub \<le> len pkt \<Longrightarrow> findOffset_loop pkt sub subOff i = subOff"
proof (induction pkt sub subOff i rule: findOffset_loop.induct)
  case (1 pkt sub subOff i)
  then show ?case by (subst findOffset_loop.simps) auto
qed

lemma findOffset_slice:
  "0 \<le> off \<Longrightarrow> off + len sub \<le> len pkt \<Longrightarrow> sub \<noteq> [] \<Longrightarrow> findOffset pkt sub off = off"
  by (cases sub) (auto simp: findOffset_def findOffset_loop_eq)

lemma txt_loop_ok: "0 \<le> off \<Longrightarrow> returns (txt_loop rdata off texts) (\<lambda>_. True)"
proof (induction rdata off texts rule: txt_loop.induct)
  case (1 rdata off texts)
  show ?case
  proof (cases "off < len rdata")
    case True
    then have gi: "go_index rdata off = Some (rdata ! nat off)" using "1.prems" by (simp add: go_safe)
    have "returns (txt_loop rdata (off + 1 + uint (rdata ! nat off)) (texts @ [string_of v])) (\<lambda>_. True)"
      if "\<not> len rdata < off + 1 + uint (rdata ! nat off)"
        "go_slice rdata (off + 1) (off + 1 + uint (rdata ! nat off)) = Some v" for v
      using "1.IH" [OF True gi refl refl that] "1.prems" uint_nonnegative [of "rdata ! nat off"] by linarith
    with True "1.prems" gi show ?thesis
      by (subst txt_loop.simps) (auto simp: wp go_safe)
  qed (subst txt_loop.simps, simp add: wp)
qed

lemma name_at_ok: "returns (name_at pkt off) (\<lambda>_. True)"
  by (auto simp: name_at_def wp intro!: returns_mono [OF decodeName_ok])

text \<open>Types whose data is a name: for them the code first decodes a name at position \<open>-1\<close>.\<close>

abbreviation name_type :: "u16 \<Rightarrow> bool" where
  "name_type t \<equiv> t = 5 \<or> t = 2 \<or> t = 12"

lemma formatRData_ok: "\<not> name_type t \<Longrightarrow> returns (formatRData t rdata off pkt) (\<lambda>_. True)"
  by (auto simp: formatRData_def wp intro!: returns_binary returns_mono [OF name_at_ok]
      returns_mono [OF txt_loop_ok])

lemma formatRData_panics: "name_type t \<Longrightarrow> formatRData t rdata off pkt = panic"
  by (auto simp: formatRData_def decodeName_negative)

lemma dns_questions_ok:
  "0 \<le> offset \<Longrightarrow> returns (dns_questions n data offset qs) (\<lambda>r. \<forall>q off. r = Inr (q, off) \<longrightarrow> 0 \<le> off)"
proof (induction n arbitrary: offset qs)
  case (Suc n)
  show ?case
    using Suc.prems
    by (auto simp: wp intro!: returns_mono [OF decodeName_ok] returns_mono [OF u16_at_ok] Suc.IH)
qed (simp add: wp)

lemma dns_event_tagged: "tagged ''dns'' meta (dns_event now txID flags meta qs as)"
  by (simp add: dns_event_def Let_def)

lemma dns_Parse_one:
  "upon_return (dns_Parse now data meta c)
     (\<lambda>r. \<forall>evs. r = Inr evs \<longrightarrow> length evs = 1 \<and> (\<forall>e \<in> set evs. tagged ''dns'' meta e))"
  by (auto simp: dns_Parse_def wlp dns_event_tagged intro!: upon_returnI)

interpretation dns_iface: parser_contract dns_parser
  by (rule stateless_contract)
    (auto simp: dns_parser_def dns_Probe_def wp intro!: returns_mono [OF u16_at_ok]
      dest: upon_returnD [OF dns_Parse_one])

lemma dns_Parse_no_answers:
  assumes "u16_at data 6 = Some 0"
  shows "\<exists>r. dns_Parse now data meta c = Some r"
proof (cases "len data < 12")
  case False
  obtain t f q where u: "u16_at data 0 = Some t" "u16_at data 2 = Some f" "u16_at data 4 = Some q"
    using returns_ex [OF u16_at_ok [of 0 data]] returns_ex [OF u16_at_ok [of 2 data]]
      returns_ex [OF u16_at_ok [of 4 data]] False by auto
  obtain r where "dns_questions (unat q) data 12 [] = Some r"
    using returns_ex [OF dns_questions_ok [of 12 "unat q" data "[]"]] by auto
  with False u assms show ?thesis
    by (cases r) (auto simp: dns_Parse_def split: prod.splits)
qed (simp add: dns_Parse_def)

section \<open>Lemmas: the wire format\<close>

definition encode_label :: "string \<Rightarrow> bytes" where
  "encode_label l = of_nat (length l) # bytes_of l"

definition encode_labels :: "string list \<Rightarrow> bytes" where
  "encode_labels ls = concat (map encode_label ls)"

definition encode_name :: "string list \<Rightarrow> bytes" where
  "encode_name ls = encode_labels ls @ [0]"

definition encode_pointer :: "nat \<Rightarrow> bytes" where
  "encode_pointer p = put_be16 (0xC000 OR of_nat p)"

definition labels_ok :: "string list \<Rightarrow> bool" where
  "labels_ok ls \<longleftrightarrow> list_all (\<lambda>l. 0 < length l \<and> length l < 64) ls"

lemma decodeName_loop_label:
  assumes "0 < length l" "length l < 64"
  shows "decodeName_loop (pre @ encode_label l @ r) vis no (len pre) parts =
    decodeName_loop (pre @ encode_label l @ r) vis no (len pre + len (encode_label l)) (parts @ [l])"
proof -
  let ?d = "pre @ encode_label l @ r"
  have n: "uint (of_nat (length l) :: byte) = len l"
    using assms by (simp add: unsigned_of_nat take_bit_nat_eq_self)
  have gi: "go_index ?d (len pre) = Some (of_nat (length l))"
    by (simp add: go_index_def encode_label_def)
  have sl: "go_slice ?d (len pre + 1) (len pre + 1 + len l) = Some (bytes_of l)"
    using go_slice_append [of "pre @ [of_nat (length l)]" "bytes_of l" r]
    by (simp add: encode_label_def algebra_simps)
  have "len l AND 0xC0 \<le> len l" by (rule AND_upper1) simp
  then have "len l AND 0xC0 \<noteq> 0xC0" using assms(2) by linarith
  moreover have "len ?d = len pre + 1 + len l + len r" by (simp add: encode_label_def)
  ultimately show ?thesis
    using assms n gi sl
    by (subst decodeName_loop.simps) (simp add: Let_def algebra_simps encode_label_def)
qed

lemma decodeName_loop_labels:
  "labels_ok ls \<Longrightarrow>
   decodeName_loop (pre @ encode_labels ls @ r) vis no (len pre) parts =
     decodeName_loop (pre @ encode_labels ls @ r) vis no (len pre + len (encode_labels ls)) (parts @ ls)"
proof (induction ls arbitrary: pre parts)
  case (Cons l ls)
  then have l: "0 < length l" "length l < 64" "labels_ok ls" by (auto simp: labels_ok_def)
  have "decodeName_loop (pre @ encode_labels (l # ls) @ r) vis no (len pre) parts =
      decodeName_loop (pre @ encode_label l @ (encode_labels ls @ r)) vis no
        (len pre + len (encode_label l)) (parts @ [l])"
    using decodeName_loop_label [OF l(1,2), of pre "encode_labels ls @ r"] by (simp add: encode_labels_def)
  also have "\<dots> = decodeName_loop ((pre @ encode_label l) @ encode_labels ls @ r) vis no
        (len (pre @ encode_label l) + len (encode_labels ls)) ((parts @ [l]) @ ls)"
    using Cons.IH [OF l(3), of "pre @ encode_label l" "parts @ [l]"] by simp
  finally show ?case by (simp add: encode_labels_def algebra_simps)
qed (simp add: encode_labels_def)

lemma decodeName_loop_end:
  "decodeName_loop (pre @ 0 # r) vis no (len pre) parts =
     Some (Inr (Join parts ''.'', if no < 0 then len pre + 1 else no))"
  by (subst decodeName_loop.simps) (simp add: go_index_def)

lemma decodeName_loop_name:
  assumes "labels_ok ls"
  shows "decodeName_loop (pre @ encode_name ls @ r) vis no (len pre) parts =
    Some (Inr (Join (parts @ ls) ''.'', if no < 0 then len pre + len (encode_name ls) else no))"
  using decodeName_loop_labels [OF assms, of pre "0 # r" vis no parts]
    decodeName_loop_end [of "pre @ encode_labels ls" r vis no "parts @ ls"]
  by (simp add: encode_name_def)

lemma decodeName_encode:
  "labels_ok ls \<Longrightarrow> decodeName (pre @ encode_name ls @ r) (len pre) =
     Some (Inr (Join ls ''.'', len pre + len (encode_name ls)))"
  using decodeName_loop_name [of ls pre r "[]" "-1" "[]"] by (simp add: decodeName_def)

lemma pointer_word:
  assumes "p < 2 ^ 14"
  shows "uint ((0xC000 OR of_nat p) AND 0x3FFF :: u16) = int p"
    "uint (ucast (drop_bit 8 (0xC000 OR of_nat p :: u16)) :: byte) AND 0xC0 = 0xC0"
proof -
  have c: "(0xC000 :: u16) = push_bit 14 (mask 2)" "(0x3FFF :: u16) = mask 14"
    "(0xC0 :: byte) = push_bit 6 (mask 2)"
    by (simp_all add: mask_eq_exp_minus_1)
  have "((0xC000 OR of_nat p) AND 0x3FFF :: u16) = take_bit 14 (of_nat p)"
    by (simp only: take_bit_eq_mask bit.conj_disj_distrib2 c(2) [symmetric]) simp
  then show "uint ((0xC000 OR of_nat p) AND 0x3FFF :: u16) = int p"
    using assms by (simp add: unsigned_take_bit_eq unsigned_of_nat take_bit_nat_eq_self
        take_bit_int_eq_self)
  have "(ucast (drop_bit 8 (push_bit 14 (mask 2) OR of_nat p :: u16)) :: byte) AND push_bit 6 (mask 2) =
      push_bit 6 (mask 2)"
    by (rule bit_word_eqI) (auto simp: bit_ucast_iff bit_drop_bit_eq bit_or_iff bit_and_iff bit_push_bit_iff
        bit_mask_iff)
  then have "(ucast (drop_bit 8 (0xC000 OR of_nat p :: u16)) :: byte) AND 0xC0 = 0xC0"
    by (simp only: c)
  then have "uint ((ucast (drop_bit 8 (0xC000 OR of_nat p :: u16)) :: byte) AND 0xC0) = uint (0xC0 :: byte)"
    by (rule arg_cong)
  then show "uint (ucast (drop_bit 8 (0xC000 OR of_nat p :: u16)) :: byte) AND 0xC0 = 0xC0"
    by (simp add: uint_and)
qed

lemma decodeName_loop_pointer:
  assumes "p < 2 ^ 14" "int p \<notin> set vis"
  shows "decodeName_loop (pre @ encode_pointer p @ r) vis no (len pre) parts =
    decodeName_loop (pre @ encode_pointer p @ r) (int p # vis) (if no < 0 then len pre + 2 else no) (int p) parts"
proof -
  let ?d = "pre @ encode_pointer p @ r"
  let ?b = "ucast (drop_bit 8 (0xC000 OR of_nat p :: u16)) :: byte"
  have n: "len (encode_pointer p) = 2" by (simp add: encode_pointer_def put_be16_def)
  have gi: "go_index ?d (len pre) = Some ?b"
    by (simp add: go_index_def encode_pointer_def put_be16_def)
  have sl: "go_slice ?d (len pre) (len pre + 2) = Some (encode_pointer p)"
    using go_slice_append [of pre "encode_pointer p" r] n by simp
  have be: "be16 (encode_pointer p) = Some (0xC000 OR of_nat p)"
    using be16_put [of _ "[]"] by (simp add: encode_pointer_def)
  have nz: "uint ?b \<noteq> 0" using pointer_word(2) [OF assms(1)] by (metis and_zero_eq zero_neq_numeral and.commute)
  have ln: "len ?d = len pre + 2 + len r" using n by simp
  show ?thesis
    using gi sl be nz ln pointer_word [OF assms(1)] assms(2)
    by (subst decodeName_loop.simps) (simp add: Let_def del: uint_0_eq length_append of_nat_add)
qed

lemma u16_at_put: "u16_at (pre @ put_be16 v @ r) (len pre) = Some v"
proof -
  have "len (put_be16 v) = 2" by (simp add: put_be16_def)
  then have "go_slice (pre @ put_be16 v @ r) (len pre) (len pre + 2) = Some (put_be16 v)"
    using go_slice_append [of pre "put_be16 v" r] by simp
  then show ?thesis using be16_put [of v "[]"] by (simp add: u16_at_def)
qed

text \<open>
  A message: the header with the counts of its four sections, the questions, and the bytes of the other
  sections (answers, authority, and additional records such as the OPT record of EDNS).
\<close>

definition dns_header :: "u16 \<Rightarrow> u16 \<Rightarrow> nat \<Rightarrow> nat \<Rightarrow> nat \<Rightarrow> nat \<Rightarrow> bytes" where
  "dns_header txID flags qd an ns ar =
     put_be16 txID @ put_be16 flags @ put_be16 (of_nat qd) @ put_be16 (of_nat an) @ put_be16 (of_nat ns) @ put_be16 (of_nat ar)"

definition encode_question :: "string list \<times> u16 \<times> u16 \<Rightarrow> bytes" where
  "encode_question q = (case q of (ls, t, c) \<Rightarrow> encode_name ls @ put_be16 t @ put_be16 c)"

text \<open>The names of the record types and classes in the IANA registry, as far as the program knows them.\<close>

definition iana_type :: "u16 \<Rightarrow> string" where
  "iana_type t =
     (if t = 1 then ''A'' else if t = 2 then ''NS'' else if t = 5 then ''CNAME'' else if t = 6 then ''SOA''
      else if t = 12 then ''PTR'' else if t = 15 then ''MX'' else if t = 16 then ''TXT'' else if t = 28 then ''AAAA''
      else if t = 33 then ''SRV'' else if t = 65 then ''HTTPS'' else ''TYPE'' @ decimal (unat t))"

definition iana_class :: "u16 \<Rightarrow> string" where
  "iana_class c =
     (if c = 1 then ''IN'' else if c = 3 then ''CH'' else if c = 255 then ''ANY'' else ''CLASS'' @ decimal (unat c))"

definition question_of :: "string list \<times> u16 \<times> u16 \<Rightarrow> DNSQuestion" where
  "question_of q = (case q of (ls, t, c) \<Rightarrow>
     \<lparr>dq_Name = Join ls ''.'', dq_Type = iana_type t, dq_Class = iana_class c\<rparr>)"

definition dns_message ::
  "u16 \<Rightarrow> u16 \<Rightarrow> (string list \<times> u16 \<times> u16) list \<Rightarrow> nat \<Rightarrow> nat \<Rightarrow> nat \<Rightarrow> bytes \<Rightarrow> bytes" where
  "dns_message txID flags qs an ns ar records =
     dns_header txID flags (length qs) an ns ar @ concat (map encode_question qs) @ records"


lemma rrTypeName_iana: "rrTypeName t = iana_type t"
  by (simp add: rrTypeName_def iana_type_def)

lemma rrClassName_iana: "rrClassName c = iana_class c"
  by (simp add: rrClassName_def iana_class_def)



lemma length_put_be16 [simp]: "length (put_be16 v) = 2"
  by (simp add: put_be16_def)

lemma length_dns_header [simp]: "length (dns_header t f q a ns ar) = 12"
  by (simp add: dns_header_def)

lemma header_fields:
  "u16_at (dns_header t f q a ns ar @ r) 0 = Some t" "u16_at (dns_header t f q a ns ar @ r) 2 = Some f"
  "u16_at (dns_header t f q a ns ar @ r) 4 = Some (of_nat q)" "u16_at (dns_header t f q a ns ar @ r) 6 = Some (of_nat a)"
  using u16_at_put [of "[]" t] u16_at_put [of "put_be16 t" f] u16_at_put [of "put_be16 t @ put_be16 f" "of_nat q"]
    u16_at_put [of "put_be16 t @ put_be16 f @ put_be16 (of_nat q)" "of_nat a"]
  by (simp_all add: dns_header_def)

lemma dns_questions_encode:
  "list_all (\<lambda>q. labels_ok (fst q)) qs \<Longrightarrow>
   dns_questions (length qs) (pre @ concat (map encode_question qs) @ r) (len pre) seen =
     Some (Inr (seen @ map question_of qs, len (pre @ concat (map encode_question qs))))"
proof (induction qs arbitrary: pre seen)
  case (Cons q qs)
  obtain ls t c where q: "q = (ls, t, c)" using prod_cases3 by blast
  let ?r = "concat (map encode_question qs) @ r"
  let ?d = "pre @ encode_name ls @ put_be16 t @ put_be16 c @ ?r"
  have e: "encode_question q = encode_name ls @ put_be16 t @ put_be16 c" by (simp add: q encode_question_def)
  have d: "pre @ concat (map encode_question (q # qs)) @ r = ?d" by (simp add: e)
  let ?o = "len pre + len (encode_name ls)"
  have nm: "decodeName ?d (len pre) = Some (Inr (Join ls ''.'', ?o))"
    using decodeName_encode [of ls pre] Cons.prems by (simp add: q)
  have u: "u16_at ?d ?o = Some t" "u16_at ?d (?o + 2) = Some c"
    using u16_at_put [of "pre @ encode_name ls" t "put_be16 c @ ?r"]
      u16_at_put [of "pre @ encode_name ls @ put_be16 t" c ?r] by (simp_all add: algebra_simps)
  have "dns_questions (length (q # qs)) ?d (len pre) seen = dns_questions (length qs) ?d (?o + 4) (seen @ [question_of q])"
    using nm u by (simp add: q question_of_def rrTypeName_iana rrClassName_iana)
  also have "\<dots> = Some (Inr ((seen @ [question_of q]) @ map question_of qs,
      len ((pre @ encode_question q) @ concat (map encode_question qs))))"
    using Cons.IH [of "pre @ encode_question q" "seen @ [question_of q]"] Cons.prems
    by (simp add: e algebra_simps)
  finally show ?case unfolding d by (simp del: dns_questions.simps length_Cons)
qed simp

lemma dns_Parse_message:
  assumes "list_all (\<lambda>q. labels_ok (fst q)) qs" "length qs < 2 ^ 16" "an < 2 ^ 16"
  shows "dns_Parse now (dns_message txID flags qs an ns ar r) meta c = do {
    a \<leftarrow> dns_answers an (dns_message txID flags qs an ns ar r) (len (dns_message txID flags qs an ns ar [])) [];
    case a of Inl err \<Rightarrow> Some (Inl err)
    | Inr as \<Rightarrow> Some (Inr [dns_event now txID flags meta (map question_of qs) as]) }"
proof -
  have "unat (of_nat n :: u16) = n" if "n < 2 ^ 16" for n
    using that by (simp add: unsigned_of_nat take_bit_nat_eq_self)
  with assms dns_questions_encode [OF assms(1), of "dns_header txID flags (length qs) an ns ar" r "[]"]
  show ?thesis by (simp add: dns_Parse_def dns_message_def header_fields)
qed

text \<open>
  The owner name of a record behind the bytes \<open>pre\<close>: written out, or labels followed by a pointer to a name that was written
  out before. A record type, its class, its time to live and the length of its data follow.
\<close>

definition owner_name :: "bytes \<Rightarrow> bytes \<Rightarrow> bool" where
  "owner_name pre owner \<longleftrightarrow>
     (\<exists>ls. labels_ok ls \<and>
        (owner = encode_name ls \<or>
         (\<exists>a ts b. labels_ok ts \<and> length a < 2 ^ 14 \<and> pre = a @ encode_name ts @ b \<and>
            owner = encode_labels ls @ encode_pointer (length a))))"

lemma length_encode_pointer [simp]: "length (encode_pointer p) = 2"
  by (simp add: encode_pointer_def)

lemma decodeName_pointer:
  assumes "labels_ok ts" "labels_ok ls" "length pre < 2 ^ 14"
  shows "decodeName (pre @ encode_name ts @ mid @ encode_labels ls @ encode_pointer (length pre) @ r)
      (len (pre @ encode_name ts @ mid)) =
    Some (Inr (Join (ls @ ts) ''.'', len (pre @ encode_name ts @ mid @ encode_labels ls) + 2))"
proof -
  let ?a = "pre @ encode_name ts @ mid"
  let ?d = "?a @ encode_labels ls @ encode_pointer (length pre) @ r"
  have "decodeName ?d (len ?a) = decodeName_loop ?d [] (-1) (len (?a @ encode_labels ls)) ls"
    using decodeName_loop_labels [OF assms(2), of ?a] by (simp add: decodeName_def algebra_simps)
  also have "\<dots> = decodeName_loop ?d [len pre] (len (?a @ encode_labels ls) + 2) (len pre) ls"
    using decodeName_loop_pointer [OF assms(3), of "[]" "?a @ encode_labels ls" r "-1" ls] by simp
  also have "\<dots> = Some (Inr (Join (ls @ ts) ''.'', len (?a @ encode_labels ls) + 2))"
    using decodeName_loop_name [OF assms(1), of pre "mid @ encode_labels ls @ encode_pointer (length pre) @ r"
        "[len pre]" "len (?a @ encode_labels ls) + 2" ls] by simp
  finally show ?thesis by simp
qed

lemma decodeName_owner:
  assumes "owner_name pre owner"
  shows "\<exists>name. decodeName (pre @ owner @ r) (len pre) = Some (Inr (name, len pre + len owner))"
proof -
  from assms obtain ls where ls: "labels_ok ls" and
    o: "owner = encode_name ls \<or> (\<exists>a ts b. labels_ok ts \<and> length a < 2 ^ 14 \<and> pre = a @ encode_name ts @ b \<and>
      owner = encode_labels ls @ encode_pointer (length a))"
    by (auto simp: owner_name_def)
  from o show ?thesis
  proof (elim disjE exE conjE)
    assume "owner = encode_name ls"
    then show ?thesis using decodeName_encode [OF ls, of pre r] by auto
  next
    fix a ts b
    assume "labels_ok ts" "length a < 2 ^ 14" "pre = a @ encode_name ts @ b" "owner = encode_labels ls @ encode_pointer (length a)"
    then show ?thesis using decodeName_pointer [of ts ls a b r] ls by (auto simp: algebra_simps)
  qed
qed

text \<open>An answer of a type whose data is a name, at the position \<open>len pre\<close> behind its owner name.\<close>

lemma dns_answer_panics:
  assumes "t = 5 \<or> t = 2 \<or> t = 12" "length rdata < 2 ^ 16"
  shows "dns_answer (pre @ put_be16 t @ put_be16 cls @ put_be32 ttl @ put_be16 (of_nat (length rdata)) @ rdata @ r)
    name (len pre) = panic"
proof -
  let ?d = "pre @ put_be16 t @ put_be16 cls @ put_be32 ttl @ put_be16 (of_nat (length rdata)) @ rdata @ r"
  let ?o = "len pre"
  have n4: "length (put_be32 ttl) = 4" by (simp add: put_be32_def)
  have u: "u16_at ?d ?o = Some t" "u16_at ?d (?o + 2) = Some cls" "u16_at ?d (?o + 8) = Some (of_nat (length rdata))"
    using u16_at_put [of pre t] u16_at_put [of "pre @ put_be16 t" cls]
      u16_at_put [of "pre @ put_be16 t @ put_be16 cls @ put_be32 ttl"] n4
    by (simp_all add: algebra_simps)
  have b: "go_slice ?d (?o + 4) (?o + 8) = Some (put_be32 ttl)"
    using go_slice_append [of "pre @ put_be16 t @ put_be16 cls" "put_be32 ttl"] n4 by (simp add: algebra_simps)
  have l: "uint (of_nat (length rdata) :: u16) = len rdata"
    using assms(2) by (simp add: unsigned_of_nat take_bit_nat_eq_self)
  have sl: "go_slice ?d (?o + 10) (?o + 10 + len rdata) = Some rdata"
    using go_slice_append [of "pre @ put_be16 t @ put_be16 cls @ put_be32 ttl @ put_be16 (of_nat (length rdata))" rdata r] n4
    by (simp add: algebra_simps)
  have "len ?d = ?o + 10 + len rdata + len r" using n4 by simp
  then show ?thesis
    using u b l sl be32_put [of ttl "[]"] formatRData_panics [OF assms(1)]
    by (simp add: dns_answer_def del: length_append of_nat_add)
qed

section \<open>Properties\<close>

text \<open>
  C28: Name decoding always ends and stays inside the packet: from any non-negative position, whatever
  the bytes are (pointer cycles included), it returns an error or a name, and then the position
  after the name lies behind the start and within the packet.
\<close>

theorem decodeName_total:
  assumes "0 \<le> offset"
  shows "\<exists>r. decodeName data offset = Some r \<and>
    (case r of Inl err \<Rightarrow> True | Inr (name, newOff) \<Rightarrow> offset < newOff \<and> newOff \<le> len data)"
  using returns_ex [OF decodeName_ok [OF assms, of data]] by (auto split: sum.splits)

theorem decodeName_total_witness:
  "\<exists>r. decodeName [0xC0, 0x02, 0xC0, 0x00] 0 = Some r \<and>
    (case r of Inl err \<Rightarrow> True | Inr (name, newOff) \<Rightarrow> 0 < newOff \<and> newOff \<le> len [0xC0, 0x02, 0xC0, 0x00 :: byte])"
  by (rule decodeName_total) simp

text \<open>
  C27: Names with compression round-trip: labels followed by a pointer to an earlier name decode to the
  labels of both, joined by dots, and decoding resumes after the pointer.
\<close>

theorem decodeName_compressed:
  assumes "labels_ok ts" "labels_ok ls" "length pre < 2 ^ 14"
  shows "decodeName (pre @ encode_name ts @ mid @ encode_labels ls @ encode_pointer (length pre) @ r)
      (len (pre @ encode_name ts @ mid)) =
    Some (Inr (Join (ls @ ts) ''.'', len (pre @ encode_name ts @ mid @ encode_labels ls) + 2))"
  by (rule decodeName_pointer [OF assms])

theorem decodeName_compressed_witness:
  "decodeName ([0] @ encode_name [''example'', ''com''] @ [] @ encode_labels [''www''] @ encode_pointer (length [0 :: byte]) @ [7])
      (len ([0] @ encode_name [''example'', ''com''] @ [])) =
    Some (Inr (Join ([''www''] @ [''example'', ''com'']) ''.'',
      len ([0] @ encode_name [''example'', ''com''] @ [] @ encode_labels [''www'']) + 2))"
  by (rule decodeName_compressed) (simp_all add: labels_ok_def)



text \<open>
  C25: Any response whose first answer is a CNAME, NS or PTR record makes the parser panic, whether the owner of the record is written
  out or, as servers do, a pointer to a name of the question section: before it looks
  at the data of the record it decodes a name at position \<open>-1\<close>, which indexes the packet out of range. The names of
  the questions are written out; nothing is assumed of the data and of what follows the record.
\<close>

theorem dns_name_answer_panics:
  assumes "list_all (\<lambda>q. labels_ok (fst q)) qs" "length qs < 2 ^ 16" "0 < an" "an < 2 ^ 16"
    and "owner_name (dns_message txID flags qs an ns ar []) owner" "t = 5 \<or> t = 2 \<or> t = 12" "length rdata < 2 ^ 16"
  shows "dns_Parse now (dns_message txID flags qs an ns ar
      (owner @ put_be16 t @ put_be16 cls @ put_be32 ttl @ put_be16 (of_nat (length rdata)) @ rdata @ r))
      meta c = panic"
proof -
  let ?rec = "put_be16 t @ put_be16 cls @ put_be32 ttl @ put_be16 (of_nat (length rdata)) @ rdata @ r"
  let ?pre = "dns_message txID flags qs an ns ar []"
  have d: "dns_message txID flags qs an ns ar (owner @ ?rec) = ?pre @ owner @ ?rec" by (simp add: dns_message_def)
  obtain name where nm: "decodeName (?pre @ owner @ ?rec) (len ?pre) = Some (Inr (name, len (?pre @ owner)))"
    using decodeName_owner [OF assms(5)] by auto
  have "dns_answer (?pre @ owner @ ?rec) name (len (?pre @ owner)) = panic"
    using dns_answer_panics [OF assms(6,7), of "?pre @ owner"] by (simp del: length_append)
  moreover obtain n where n: "an = Suc n" using assms(3) by (cases an) auto
  ultimately have "dns_answers an (?pre @ owner @ ?rec) (len ?pre) [] = panic"
    using nm by (subst n) (simp del: length_append of_nat_add)
  then show ?thesis
    using dns_Parse_message [OF assms(1,2,4), of now txID flags ns ar "owner @ ?rec" meta c] by (simp only: d) simp
qed

theorem dns_name_answer_panics_witness:
  "dns_Parse 7 (dns_message 0xABCD 0x8180 [([''a''], 5, 1)] 1 0 0
      ([0xC0, 0x0C] @ put_be16 5 @ put_be16 1 @ put_be32 60 @ put_be16 (of_nat (length [1, 98, 0 :: byte])) @
       [1, 98, 0] @ [])) example_meta True = panic"
proof (rule dns_name_answer_panics)
  let ?m = "dns_message 0xABCD 0x8180 [([''a''], 5, 1)] 1 0 0 []"
  have "?m = dns_header 0xABCD 0x8180 1 1 0 0 @ encode_name [''a''] @ (put_be16 5 @ put_be16 1)"
    by (simp add: dns_message_def encode_question_def)
  moreover have "[0xC0, 0x0C] = encode_labels [] @ encode_pointer (length (dns_header 0xABCD 0x8180 1 1 0 0))"
    by (simp add: encode_pointer_def put_be16_def encode_labels_def)
  ultimately show "owner_name ?m [0xC0, 0x0C]"
    unfolding owner_name_def
    by (intro exI [of _ "[]"] conjI disjI2 exI [of _ "dns_header 0xABCD 0x8180 1 1 0 0"] exI [of _ "[''a'']"]
        exI [of _ "put_be16 5 @ put_be16 1"]) (simp_all add: labels_ok_def)
qed (simp_all add: labels_ok_def)

text \<open>
  A message that announces no answers never makes the parser panic: it returns an error or exactly one
  event of the connection.
\<close>

lemma dns_Parse_query_safe:
  assumes "u16_at data 6 = Some 0"
  shows "\<exists>r. dns_Parse now data meta c = Some r \<and>
    (case r of Inl err \<Rightarrow> True | Inr evs \<Rightarrow> length evs = 1 \<and> list_all (tagged ''dns'' meta) evs)"
proof -
  obtain r where r: "dns_Parse now data meta c = Some r" using dns_Parse_no_answers [OF assms] by blast
  with upon_returnD [OF dns_Parse_one r] show ?thesis by (auto simp: list_all_iff split: sum.splits)
qed

end
