(* ===== verification/Md5.thy ===== *)
theory Md5
  imports Prelude
begin

text \<open>
  Go's \<^verbatim>\<open>crypto/md5\<close> as far as the program uses it: \<open>md5_Sum\<close> is \<^verbatim>\<open>md5.Sum\<close>, the digest of
  RFC 1321 as 16 bytes. The lemmas give the length of the digest.
\<close>

definition md5_K :: "u32 list" where
  "md5_K =
    [0xd76aa478, 0xe8c7b756, 0x242070db, 0xc1bdceee, 0xf57c0faf, 0x4787c62a, 0xa8304613, 0xfd469501,
     0x698098d8, 0x8b44f7af, 0xffff5bb1, 0x895cd7be, 0x6b901122, 0xfd987193, 0xa679438e, 0x49b40821,
     0xf61e2562, 0xc040b340, 0x265e5a51, 0xe9b6c7aa, 0xd62f105d, 0x02441453, 0xd8a1e681, 0xe7d3fbc8,
     0x21e1cde6, 0xc33707d6, 0xf4d50d87, 0x455a14ed, 0xa9e3e905, 0xfcefa3f8, 0x676f02d9, 0x8d2a4c8a,
     0xfffa3942, 0x8771f681, 0x6d9d6122, 0xfde5380c, 0xa4beea44, 0x4bdecfa9, 0xf6bb4b60, 0xbebfbc70,
     0x289b7ec6, 0xeaa127fa, 0xd4ef3085, 0x04881d05, 0xd9d4d039, 0xe6db99e5, 0x1fa27cf8, 0xc4ac5665,
     0xf4292244, 0x432aff97, 0xab9423a7, 0xfc93a039, 0x655b59c3, 0x8f0ccc92, 0xffeff47d, 0x85845dd1,
     0x6fa87e4f, 0xfe2ce6e0, 0xa3014314, 0x4e0811a1, 0xf7537e82, 0xbd3af235, 0x2ad7d2bb, 0xeb86d391]"

definition md5_shifts :: "nat list" where
  "md5_shifts = concat (replicate 4 [7, 12, 17, 22]) @ concat (replicate 4 [5, 9, 14, 20]) @
     concat (replicate 4 [4, 11, 16, 23]) @ concat (replicate 4 [6, 10, 15, 21])"

definition le_bytes :: "nat \<Rightarrow> nat \<Rightarrow> bytes" where
  "le_bytes k n = map (\<lambda>i. of_nat (n div 256 ^ i)) [0 ..< k]"

definition md5_pad :: "bytes \<Rightarrow> bytes" where
  "md5_pad msg =
     (let n = length msg; z = (119 - n mod 64) mod 64
      in msg @ [0x80] @ replicate z 0 @ le_bytes 8 (8 * n))"

definition word_at :: "bytes \<Rightarrow> nat \<Rightarrow> u32" where
  "word_at b i = ucast (b ! i) + 256 * ucast (b ! (i + 1)) + 65536 * ucast (b ! (i + 2)) +
     16777216 * ucast (b ! (i + 3))"

type_synonym md5_state = "u32 \<times> u32 \<times> u32 \<times> u32"

definition md5_round :: "u32 list \<Rightarrow> nat \<Rightarrow> md5_state \<Rightarrow> md5_state" where
  "md5_round m i st =
     (case st of (a, b, c, d) \<Rightarrow>
        let (f, g) =
          (if i < 16 then ((b AND c) OR (NOT b AND d), i)
           else if i < 32 then ((d AND b) OR (NOT d AND c), (5 * i + 1) mod 16)
           else if i < 48 then (b XOR c XOR d, (3 * i + 5) mod 16)
           else (c XOR (b OR NOT d), (7 * i) mod 16))
        in (d, b + word_rotl (md5_shifts ! i) (a + f + md5_K ! i + m ! g), b, c))"

definition md5_block :: "bytes \<Rightarrow> md5_state \<Rightarrow> md5_state" where
  "md5_block blk st =
     (let m = map (\<lambda>i. word_at blk (4 * i)) [0 ..< 16]
      in case (st, fold (md5_round m) [0 ..< 64] st) of
           ((a, b, c, d), (a', b', c', d')) \<Rightarrow> (a + a', b + b', c + c', d + d'))"

fun md5_blocks :: "nat \<Rightarrow> bytes \<Rightarrow> md5_state \<Rightarrow> md5_state" where
  "md5_blocks 0 b st = st"
| "md5_blocks (Suc n) b st = md5_blocks n (drop 64 b) (md5_block (take 64 b) st)"

definition md5_Sum :: "bytes \<Rightarrow> bytes" where
  "md5_Sum msg =
     (let p = md5_pad msg
      in case md5_blocks (length p div 64) p (0x67452301, 0xefcdab89, 0x98badcfe, 0x10325476) of
           (a, b, c, d) \<Rightarrow> put_le32 a @ put_le32 b @ put_le32 c @ put_le32 d)"

lemma length_md5_Sum [simp]: "length (md5_Sum msg) = 16"
  by (simp add: md5_Sum_def Let_def put_le32_def put_be32_def split: prod.splits)

lemma md5_pad_blocks: "64 dvd length (md5_pad msg)"
proof -
  let ?n = "length msg"
  have l: "length (md5_pad msg) = ?n + 9 + (119 - ?n mod 64) mod 64"
    by (simp add: md5_pad_def le_bytes_def Let_def)
  have m: "(a + 9 + x mod 64) mod 64 = (a mod 64 + (9 + x)) mod 64" for a x :: nat
    by (metis mod_add_left_eq mod_add_right_eq add.assoc)
  have "?n mod 64 + (9 + (119 - ?n mod 64)) = 128"
    using mod_less_divisor [of 64 ?n] by simp
  then have "length (md5_pad msg) mod 64 = 128 mod 64"
    by (simp only: l m)
  then show ?thesis by (simp add: dvd_eq_mod_eq_0)
qed

end
