(* ===== verification/Tls.thy ===== *)
theory Tls
  imports Protocol Md5
begin

text \<open>
  The TLS parser (\<^verbatim>\<open>internal/protocol/tls/parser.go\<close>): the ClientHello and its JA3 fingerprint.

  A slice expression may extend beyond the length of a slice up to its capacity, and the loop over the
  cipher suites does so when their length is odd. So the body \<open>hs\<close> of the handshake comes with
  the bytes \<open>behind\<close> it in the same array: what follows it in the record's data and the spare capacity of
  that data. All other accesses are within the length.
\<close>

section \<open>Lists and the fingerprint\<close>

definition u16_of :: "bytes \<Rightarrow> int \<Rightarrow> u16 go" where
  "u16_of data off = Option.bind (go_slice data off (off + 2)) be16"

definition parseSNI :: "bytes \<Rightarrow> string go" where
  "parseSNI data =
     (if len data < 5 then Some []
      else do {
        nameType \<leftarrow> go_index data 2;
        if nameType \<noteq> 0 then Some []
        else do {
          nl \<leftarrow> u16_of data 3;
          let nameLen = uint nl;
          if len data < 5 + nameLen then Some []
          else map_option string_of (go_slice data 5 (5 + nameLen)) } })"

function alpn_loop :: "bytes \<Rightarrow> int \<Rightarrow> int \<Rightarrow> string list \<Rightarrow> string list go" where
  "alpn_loop data end1 off protocols =
     (if off < end1 then do {
        b \<leftarrow> go_index data off;
        let pLen = uint b;
        let off = off + 1;
        if end1 < off + pLen then Some protocols
        else do {
          v \<leftarrow> go_slice data off (off + pLen);
          alpn_loop data end1 (off + pLen) (protocols @ [string_of v]) } }
      else Some protocols)"
  by pat_completeness auto
termination
proof (relation "measure (\<lambda>(data, end1, off, ps). nat (end1 - off))", simp)
  fix data :: bytes and end1 off :: int and ps :: "string list" and b :: byte and x l xa
  assume "off < end1" "l = uint b" "x = off + 1"
  then show "((data, end1, x + l, ps @ [string_of xa]), data, end1, off, ps)
      \<in> measure (\<lambda>(data, end1, off, ps). nat (end1 - off))"
    using uint_nonnegative [of b] by auto
qed

declare alpn_loop.simps [simp del]

definition parseALPN :: "bytes \<Rightarrow> string list go" where
  "parseALPN data =
     (if len data < 2 then Some []
      else do {
        ll \<leftarrow> u16_of data 0;
        alpn_loop data (min (2 + uint ll) (len data)) 2 [] })"

function u16_loop :: "bytes \<Rightarrow> int \<Rightarrow> int \<Rightarrow> u16 list \<Rightarrow> u16 list go" where
  "u16_loop data end1 off xs =
     (if off + 2 \<le> end1 then do {
        v \<leftarrow> u16_of data off;
        u16_loop data end1 (off + 2) (xs @ [v]) }
      else Some xs)"
  by pat_completeness auto
termination
  by (relation "measure (\<lambda>(data, end1, off, xs). nat (end1 - off))") auto

declare u16_loop.simps [simp del]

definition parseU16List :: "bytes \<Rightarrow> u16 list go" where
  "parseU16List data =
     (if len data < 2 then Some []
      else do {
        ll \<leftarrow> u16_of data 0;
        u16_loop data (min (2 + uint ll) (len data)) 2 [] })"

function u8_loop :: "bytes \<Rightarrow> int \<Rightarrow> int \<Rightarrow> byte list \<Rightarrow> byte list go" where
  "u8_loop data end1 off xs =
     (if off < end1 then do {
        v \<leftarrow> go_index data off;
        u8_loop data end1 (off + 1) (xs @ [v]) }
      else Some xs)"
  by pat_completeness auto
termination
  by (relation "measure (\<lambda>(data, end1, off, xs). nat (end1 - off))") auto

declare u8_loop.simps [simp del]

definition parseU8List :: "bytes \<Rightarrow> byte list go" where
  "parseU8List data =
     (if len data < 1 then Some []
      else do {
        ll \<leftarrow> go_index data 0;
        u8_loop data (min (1 + uint ll) (len data)) 1 [] })"

definition isGREASE :: "u16 \<Rightarrow> bool" where
  "isGREASE v \<longleftrightarrow> v AND 0x0F0F = 0x0A0A \<and> drop_bit 8 v = v AND 0xFF"

definition filterGREASE :: "u16 list \<Rightarrow> u16 list" where
  "filterGREASE vals = filter (\<lambda>v. \<not> isGREASE v) vals"

definition joinU16 :: "u16 list \<Rightarrow> string" where
  "joinU16 vals = Join (map (\<lambda>v. decimal (unat v)) vals) ''-''"

definition joinU8 :: "byte list \<Rightarrow> string" where
  "joinU8 vals = Join (map (\<lambda>v. decimal (unat v)) vals) ''-''"

definition buildJA3 :: "u16 \<Rightarrow> u16 list \<Rightarrow> u16 list \<Rightarrow> u16 list \<Rightarrow> byte list \<Rightarrow> string" where
  "buildJA3 version ciphers extensions curves pointFmts =
     decimal (unat version) @ '','' @ joinU16 (filterGREASE ciphers) @ '','' @
     joinU16 (filterGREASE extensions) @ '','' @ joinU16 (filterGREASE curves) @ '','' @ joinU8 pointFmts"

definition versionString :: "byte \<Rightarrow> byte \<Rightarrow> string" where
  "versionString major minor =
     (if major = 3 \<and> minor = 3 then ''TLS 1.2''
      else if major = 3 \<and> minor = 1 then ''TLS 1.0''
      else if major = 3 \<and> minor = 2 then ''TLS 1.1''
      else if major = 3 \<and> minor = 4 then ''TLS 1.3''
      else if major = 3 \<and> minor = 0 then ''SSL 3.0''
      else ''TLS 0x'' @ hex_byte major @ hex_byte minor)"

section \<open>The ClientHello\<close>

text \<open>The variables that the loop over the extensions sets.\<close>

record hello_exts =
  hx_sni :: string
  hx_alpn :: "string list"
  hx_types :: "u16 list"
  hx_curves :: "u16 list"
  hx_fmts :: "byte list"

definition no_exts :: hello_exts where
  "no_exts = \<lparr>hx_sni = [], hx_alpn = [], hx_types = [], hx_curves = [], hx_fmts = []\<rparr>"

definition apply_ext :: "u16 \<Rightarrow> bytes \<Rightarrow> hello_exts \<Rightarrow> hello_exts go" where
  "apply_ext extType extData x =
     (let x = x\<lparr>hx_types := hx_types x @ [extType]\<rparr>
      in if extType = 0x0000 then map_option (\<lambda>v. x\<lparr>hx_sni := v\<rparr>) (parseSNI extData)
         else if extType = 0x0010 then map_option (\<lambda>v. x\<lparr>hx_alpn := v\<rparr>) (parseALPN extData)
         else if extType = 0x000A then map_option (\<lambda>v. x\<lparr>hx_curves := v\<rparr>) (parseU16List extData)
         else if extType = 0x000B then map_option (\<lambda>v. x\<lparr>hx_fmts := v\<rparr>) (parseU8List extData)
         else Some x)"

function ext_loop :: "bytes \<Rightarrow> int \<Rightarrow> int \<Rightarrow> hello_exts \<Rightarrow> hello_exts go" where
  "ext_loop hs extEnd off x =
     (if off + 4 \<le> extEnd then do {
        extType \<leftarrow> u16_of hs off;
        el \<leftarrow> u16_of hs (off + 2);
        let extLen = uint el;
        extData \<leftarrow> go_from hs (off + 4);
        extData \<leftarrow> (if extLen < len extData then go_upto extData extLen else Some extData);
        x \<leftarrow> apply_ext extType extData x;
        ext_loop hs extEnd (off + 4 + extLen) x }
      else Some x)"
  by pat_completeness auto
termination
proof (relation "measure (\<lambda>(hs, extEnd, off, x). nat (extEnd - off))", simp)
  fix hs d1 :: bytes and extEnd off :: int and x y :: hello_exts and el :: u16 and l d2 t
  assume "off + 4 \<le> extEnd" "l = uint el"
  then show "((hs, extEnd, off + 4 + l, y), hs, extEnd, off, x)
      \<in> measure (\<lambda>(hs, extEnd, off, x). nat (extEnd - off))"
    using uint_nonnegative [of el] by auto
qed

declare ext_loop.simps [simp del]

text \<open>The loop \<^verbatim>\<open>for i := 0; i < csLen; i += 2\<close>; its slices may reach into the bytes behind.\<close>

function cipher_loop :: "bytes \<Rightarrow> bytes \<Rightarrow> int \<Rightarrow> int \<Rightarrow> int \<Rightarrow> u16 list \<Rightarrow> u16 list go" where
  "cipher_loop hs behind off csLen i cs =
     (if i < csLen then do {
        b \<leftarrow> go_slice (hs @ behind) (off + i) (off + i + 2);
        v \<leftarrow> be16 b;
        cipher_loop hs behind off csLen (i + 2) (cs @ [v]) }
      else Some cs)"
  by pat_completeness auto
termination
  by (relation "measure (\<lambda>(hs, behind, off, csLen, i, cs). nat (csLen - i))") auto

declare cipher_loop.simps [simp del]

definition hello_extensions :: "bytes \<Rightarrow> int \<Rightarrow> hello_exts go" where
  "hello_extensions hs off =
     (if off + 2 \<le> len hs then do {
        tl \<leftarrow> u16_of hs off;
        ext_loop hs (min (off + 2 + uint tl) (len hs)) (off + 2) no_exts }
      else Some no_exts)"

definition tls_event ::
  "int \<Rightarrow> ConnMeta \<Rightarrow> byte \<Rightarrow> byte \<Rightarrow> u16 \<Rightarrow> u16 list \<Rightarrow> hello_exts \<Rightarrow> ProtocolEvent" where
  "tls_event now meta recMajor recMinor chVersion ciphers x =
     (let ja3Raw = buildJA3 chVersion ciphers (hx_types x) (hx_curves x) (hx_fmts x);
          ja3Hash = EncodeToString (md5_Sum (bytes_of ja3Raw));
          ev = fillMeta (NewEvent now ''tls'' DirectionRequest) meta
      in ev\<lparr>ev_TLSDetail := Some \<lparr>tls_Version = versionString recMajor recMinor, tls_CipherSuite = ja3Hash,
               tls_ServerName = hx_sni x, tls_HandshakeType = 1, tls_CertificateChain = [],
               tls_ALPNProtocols = hx_alpn x\<rparr>,
            ev_Metadata := [''ja3'' \<mapsto> ja3Hash, ''ja3_raw'' \<mapsto> ja3Raw]\<rparr>)"

definition parseClientHello ::
  "int \<Rightarrow> bytes \<Rightarrow> bytes \<Rightarrow> byte \<Rightarrow> byte \<Rightarrow> ConnMeta \<Rightarrow> parse_result go" where
  "parseClientHello now hs behind recMajor recMinor meta =
     (if len hs < 38 then Some (Inl ''tls: ClientHello too short'')
      else do {
        chVersion \<leftarrow> u16_of hs 0;
        if len hs \<le> 34 then Some (Inl ''tls: session id length truncated'')
        else do {
        sl \<leftarrow> go_index hs 34;
        let off = 35 + uint sl;
        if len hs < off then Some (Inl ''tls: session id truncated'')
        else if len hs < off + 2 then Some (Inl ''tls: cipher suites length truncated'')
        else do {
          cl \<leftarrow> u16_of hs off;
          let csLen = uint cl;
          let off = off + 2;
          if len hs < off + csLen then Some (Inl ''tls: cipher suites truncated'')
          else do {
            cipherSuites \<leftarrow> cipher_loop hs behind off csLen 0 [];
            let off = off + csLen;
            if len hs \<le> off then Some (Inl ''tls: compression length truncated'')
            else do {
              ml \<leftarrow> go_index hs off;
              let off = off + 1 + uint ml;
              if len hs < off then Some (Inl ''tls: compression truncated'')
              else do {
                x \<leftarrow> hello_extensions hs off;
                Some (Inr [tls_event now meta recMajor recMinor chVersion cipherSuites x]) } } } } } })"

section \<open>Records\<close>

definition tls_Probe :: "bytes \<Rightarrow> bool \<Rightarrow> int go" where
  "tls_Probe data isFromClient =
     (if len data < 6 \<and> 3 \<le> len data then do {
        d0 \<leftarrow> go_index data 0;
        d1 \<leftarrow> go_index data 1;
        Some (if d0 = 0x16 \<and> d1 = 0x03 then 60 else 0) }
      else if len data < 6 then Some 0
      else do {
        d0 \<leftarrow> go_index data 0;
        d1 \<leftarrow> go_index data 1;
        Some (if d0 = 0x16 \<and> d1 = 0x03 then 85 else 0) })"

text \<open>
  A record that is no ClientHello ends in an error or an event; otherwise the body of the handshake
  and what lies behind it in \<open>data\<close>.
\<close>

definition tls_hello :: "int \<Rightarrow> bytes \<Rightarrow> ConnMeta \<Rightarrow> (parse_result + bytes \<times> bytes) go" where
  "tls_hello now data meta =
     (if len data < 5 then Some (Inl (Inl ''tls: record too short''))
      else do {
        contentType \<leftarrow> go_index data 0;
        if contentType \<noteq> 0x16 then
          Some (Inl (Inl (''tls: not a handshake record (type=0x'' @ hex_byte contentType @ '')'')))
        else do {
          rl \<leftarrow> u16_of data 3;
          let recordLen = (if len data < 5 + uint rl then len data - 5 else uint rl);
          payload \<leftarrow> go_slice data 5 (5 + recordLen);
          if len payload < 4 then Some (Inl (Inl ''tls: handshake header truncated''))
          else do {
            hsType \<leftarrow> go_index payload 0;
            if hsType \<noteq> 0x01 then do {
              d1 \<leftarrow> go_index data 1;
              d2 \<leftarrow> go_index data 2;
              let ev = fillMeta (NewEvent now ''tls'' DirectionRequest) meta;
              Some (Inl (Inr [ev\<lparr>ev_TLSDetail := Some \<lparr>tls_Version = versionString d1 d2, tls_CipherSuite = [],
                tls_ServerName = [], tls_HandshakeType = uint hsType, tls_CertificateChain = [],
                tls_ALPNProtocols = []\<rparr>\<rparr>])) }
            else do {
              p1 \<leftarrow> go_index payload 1;
              p2 \<leftarrow> go_index payload 2;
              p3 \<leftarrow> go_index payload 3;
              let hsLen = push_bit 16 (uint p1) OR push_bit 8 (uint p2) OR uint p3;
              hs \<leftarrow> go_from payload 4;
              hs \<leftarrow> (if hsLen < len hs then go_upto hs hsLen else Some hs);
              behind \<leftarrow> go_from data (9 + len hs);
              Some (Inr (hs, behind)) } } } })"

definition tls_Parse :: "int \<Rightarrow> bytes \<Rightarrow> bytes \<Rightarrow> ConnMeta \<Rightarrow> bool \<Rightarrow> parse_result go" where
  "tls_Parse now data spare meta isFromClient = do {
     h \<leftarrow> tls_hello now data meta;
     case h of
       Inl r \<Rightarrow> Some r
     | Inr (hs, behind) \<Rightarrow> do {
         d1 \<leftarrow> go_index data 1;
         d2 \<leftarrow> go_index data 2;
         parseClientHello now hs (behind @ spare) d1 d2 meta } }"

definition tls_parser :: "'s Parser" where
  "tls_parser =
     \<lparr>Name = ''tls'', Ports = [443, 8443, 993, 995, 465, 636], Probe = tls_Probe,
      Parse = stateless tls_Parse, OnConnClose = None\<rparr>"

section \<open>Lemmas: no access out of range\<close>

lemma u16_of_ok: "0 \<le> off \<Longrightarrow> off + 2 \<le> len data \<Longrightarrow> returns (u16_of data off) (\<lambda>_. True)"
  by (auto simp: u16_of_def wp intro!: returns_binary)

lemma parseSNI_ok: "returns (parseSNI data) (\<lambda>_. True)"
  by (auto simp: parseSNI_def wp intro!: returns_mono [OF u16_of_ok])

lemma alpn_loop_ok: "0 \<le> off \<Longrightarrow> end1 \<le> len data \<Longrightarrow> returns (alpn_loop data end1 off ps) (\<lambda>_. True)"
proof (induction data end1 off ps rule: alpn_loop.induct)
  case (1 data end1 off ps)
  show ?case
  proof (cases "off < end1")
    case True
    let ?b = "data ! nat off"
    have gi: "go_index data off = Some ?b" using True "1.prems" by (simp add: go_safe)
    have "returns (alpn_loop data end1 (off + 1 + uint ?b) (ps @ [string_of v])) (\<lambda>_. True)"
      if "\<not> end1 < off + 1 + uint ?b" "go_slice data (off + 1) (off + 1 + uint ?b) = Some v" for v
      using "1.IH" [OF True gi refl refl that] "1.prems" uint_nonnegative [of ?b] by linarith
    with True "1.prems" gi show ?thesis
      by (subst alpn_loop.simps) (auto simp: wp go_safe)
  qed (subst alpn_loop.simps, simp add: wp)
qed

lemma u16_loop_ok: "0 \<le> off \<Longrightarrow> end1 \<le> len data \<Longrightarrow> returns (u16_loop data end1 off xs) (\<lambda>_. True)"
proof (induction data end1 off xs rule: u16_loop.induct)
  case (1 data end1 off xs)
  then show ?case
    by (subst u16_loop.simps) (auto simp: wp intro!: returns_mono [OF u16_of_ok])
qed

lemma u8_loop_ok: "0 \<le> off \<Longrightarrow> end1 \<le> len data \<Longrightarrow> returns (u8_loop data end1 off xs) (\<lambda>_. True)"
proof (induction data end1 off xs rule: u8_loop.induct)
  case (1 data end1 off xs)
  then show ?case
    by (subst u8_loop.simps) (auto simp: wp go_safe)
qed

lemma apply_ext_ok: "returns (apply_ext t d x) (\<lambda>_. True)"
  by (auto simp: apply_ext_def parseALPN_def parseU16List_def parseU8List_def wp Let_def
      intro!: parseSNI_ok alpn_loop_ok u16_loop_ok u8_loop_ok returns_mono [OF u16_of_ok])

lemma ext_loop_ok: "0 \<le> off \<Longrightarrow> extEnd \<le> len hs \<Longrightarrow> returns (ext_loop hs extEnd off x) (\<lambda>_. True)"
proof (induction "nat (extEnd - off)" arbitrary: off x rule: less_induct)
  case less
  show ?case
  proof (cases "off + 4 \<le> extEnd")
    case True
    have "returns (ext_loop hs extEnd (off + 4 + uint l) y) (\<lambda>_. True)" for l :: u16 and y
    proof (rule less.hyps)
      show "nat (extEnd - (off + 4 + uint l)) < nat (extEnd - off)"
        using True uint_nonnegative [of l] by linarith
    qed (use less.prems uint_nonnegative [of l] in linarith)+
    with True less.prems show ?thesis
      by (subst ext_loop.simps)
        (auto simp: wp intro!: returns_mono [OF u16_of_ok] returns_mono [OF apply_ext_ok])
  qed (subst ext_loop.simps, simp add: wp)
qed

lemma hello_extensions_ok: "0 \<le> off \<Longrightarrow> returns (hello_extensions hs off) (\<lambda>_. True)"
  by (auto simp: hello_extensions_def wp intro!: returns_mono [OF u16_of_ok] ext_loop_ok)

lemma cipher_loop_ok:
  assumes "0 \<le> off" "0 \<le> i" "even i" "off + csLen \<le> len hs"
    "even csLen \<or> off + csLen < len hs \<or> behind \<noteq> []"
  shows "returns (cipher_loop hs behind off csLen i cs) (\<lambda>_. True)"
  using assms
proof (induction hs behind off csLen i cs rule: cipher_loop.induct)
  case (1 hs behind off csLen i cs)
  have "off + i + 2 \<le> len (hs @ behind)" if "i < csLen"
  proof (cases "even csLen")
    case True
    with that "1.prems"(3) have "i + 2 \<le> csLen" by presburger
    with "1.prems" show ?thesis by simp
  next
    case False
    with "1.prems" that show ?thesis by (cases behind) auto
  qed
  with "1" show ?case
    by (subst cipher_loop.simps) (auto simp: wp go_safe intro!: returns_binary)
qed

lemma cipher_loop_odd:
  assumes "0 \<le> off" "0 \<le> i" "i \<le> csLen" "even i" "odd csLen" "off + csLen = len hs"
  shows "cipher_loop hs [] off csLen i cs = panic"
  using assms
proof (induction "nat (csLen - i)" arbitrary: i cs rule: less_induct)
  case less
  have lt: "i < csLen" using less.prems by (metis order_le_less)
  show ?case
  proof (cases "i + 2 \<le> csLen")
    case True
    obtain v where "go_slice hs (off + i) (off + i + 2) = Some (take 2 (drop (nat (off + i)) hs))"
      "be16 (take 2 (drop (nat (off + i)) hs)) = Some v"
      using True less.prems by (auto simp: go_safe)
    moreover have "cipher_loop hs [] off csLen (i + 2) (cs @ [v]) = panic"
      using True less.prems by (intro less.hyps) auto
    ultimately show ?thesis using lt by (subst cipher_loop.simps) simp
  next
    case False
    then have "go_slice hs (off + i) (off + i + 2) = panic" using less.prems by (simp add: go_slice_def)
    then show ?thesis using lt by (subst cipher_loop.simps) simp
  qed
qed

text \<open>The list of cipher suites has an odd length and ends the handshake body.\<close>

definition tls_odd_tail :: "bytes \<Rightarrow> bool" where
  "tls_odd_tail hs \<longleftrightarrow> 38 \<le> len hs \<and>
     (let off = 35 + uint (hs ! 34)
      in case u16_of hs off of
           None \<Rightarrow> False
         | Some cl \<Rightarrow> odd (uint cl) \<and> off + 2 + uint cl = len hs)"

lemma parseClientHello_ok:
  assumes "behind \<noteq> [] \<or> \<not> tls_odd_tail hs"
  shows "returns (parseClientHello now hs behind M m meta) (\<lambda>_. True)"
proof -
  have "returns (cipher_loop hs behind (37 + uint (hs ! 34)) (uint cl) 0 []) (\<lambda>_. True)"
    if "\<not> len hs < 38" "u16_of hs (35 + uint (hs ! 34)) = Some cl" "\<not> len hs < 37 + uint (hs ! 34) + uint cl" for cl
    using assms that by (intro cipher_loop_ok) (auto simp: tls_odd_tail_def Let_def)
  moreover have "35 + uint (hs ! 34) + 2 = 37 + uint (hs ! 34)" by simp
  ultimately show ?thesis
    by (auto simp: parseClientHello_def wp go_safe intro!: returns_mono [OF u16_of_ok]
        returns_mono [OF hello_extensions_ok] elim!: returns_mono)
qed

lemma parseClientHello_odd:
  assumes "tls_odd_tail hs"
  shows "parseClientHello now hs [] M m meta = panic"
proof -
  obtain cl where cl: "38 \<le> len hs" "u16_of hs (35 + uint (hs ! 34)) = Some cl" "odd (uint cl)"
    "37 + uint (hs ! 34) + uint cl = len hs"
    using assms by (auto simp: tls_odd_tail_def Let_def split: option.splits)
  obtain v where "u16_of hs 0 = Some v" using returns_ex [OF u16_of_ok [of 0 hs]] cl(1) by auto
  moreover have "go_index hs 34 = Some (hs ! 34)" using cl(1) by (simp add: go_safe)
  moreover have "cipher_loop hs [] (35 + uint (hs ! 34) + 2) (uint cl) 0 [] = panic"
    using cl by (intro cipher_loop_odd) auto
  moreover have "\<not> len hs < 35 + uint (hs ! 34)" "\<not> len hs < 35 + uint (hs ! 34) + 2"
    "\<not> len hs < 35 + uint (hs ! 34) + 2 + uint cl"
    using cl(4) uint_nonnegative [of cl] by linarith+
  ultimately show ?thesis
    using cl(1,2) by (simp only: parseClientHello_def Let_def) simp
qed

lemma parseClientHello_tagged:
  "upon_return (parseClientHello now hs behind M m meta)
     (\<lambda>r. \<forall>evs. r = Inr evs \<longrightarrow> (\<forall>e \<in> set evs. tagged ''tls'' meta e))"
  by (auto simp: parseClientHello_def wlp tls_event_def Let_def intro!: upon_returnI)

lemma tls_hello_ok:
  "returns (tls_hello now data meta)
     (\<lambda>h. (\<forall>evs. h = Inl (Inr evs) \<longrightarrow> (\<forall>e \<in> set evs. tagged ''tls'' meta e)) \<and>
          (\<forall>hs behind. h = Inr (hs, behind) \<longrightarrow> 9 \<le> len data))"
proof -
  have "0 \<le> push_bit 16 (uint a) OR push_bit 8 (uint b) OR uint c" for a b c :: byte
    by simp
  then show ?thesis
    by (auto simp: tls_hello_def wp unat_eq_nat_uint simp del: nat_uint_eq intro!: returns_mono [OF u16_of_ok])
qed

interpretation tls_iface: parser_contract tls_parser
proof (rule stateless_contract)
  show "returns (Probe tls_parser d c) (\<lambda>s. 0 \<le> s \<and> s \<le> 100)" for d c
    by (auto simp: tls_parser_def tls_Probe_def wp)
  show "Parse tls_parser = stateless tls_Parse" by (simp add: tls_parser_def)
  have "upon_return (tls_Parse now d sp m c) (\<lambda>r. \<forall>evs. r = Inr evs \<longrightarrow> (\<forall>e \<in> set evs. tagged ''tls'' m e))"
    for now d sp m c
    by (auto simp: tls_Parse_def wlp intro!: upon_return_mono [OF returns_upon [OF tls_hello_ok]]
        parseClientHello_tagged)
  then show "tagged (Name tls_parser) m e"
    if "tls_Parse now d sp m c = Some (Inr evs)" "e \<in> set evs" for now d sp m c evs e
    using that upon_returnD by (fastforce simp: tls_parser_def)
qed

section \<open>Lemmas: the wire format\<close>

definition encode_ext :: "u16 \<times> bytes \<Rightarrow> bytes" where
  "encode_ext e = put_be16 (fst e) @ put_be16 (of_nat (length (snd e))) @ snd e"

fun apply_exts :: "(u16 \<times> bytes) list \<Rightarrow> hello_exts \<Rightarrow> hello_exts go" where
  "apply_exts [] x = Some x"
| "apply_exts ((t, d) # es) x = Option.bind (apply_ext t d x) (apply_exts es)"

definition client_hello ::
  "u16 \<Rightarrow> bytes \<Rightarrow> bytes \<Rightarrow> u16 list \<Rightarrow> bytes \<Rightarrow> (u16 \<times> bytes) list \<Rightarrow> bytes" where
  "client_hello v rnd sid cs cmp exts =
     put_be16 v @ rnd @ [of_nat (length sid)] @ sid @ put_be16 (of_nat (2 * length cs)) @
     concat (map put_be16 cs) @ [of_nat (length cmp)] @ cmp @
     put_be16 (of_nat (length (concat (map encode_ext exts)))) @ concat (map encode_ext exts)"

definition tls_record :: "byte \<Rightarrow> byte \<Rightarrow> bytes \<Rightarrow> bytes" where
  "tls_record M m hs =
     [0x16, M, m] @ put_be16 (of_nat (4 + length hs)) @ [1, 0] @ put_be16 (of_nat (length hs)) @ hs"

lemma u16_of_put: "u16_of (pre @ put_be16 v @ r) (len pre) = Some v"
proof -
  have "len (put_be16 v) = 2" by (simp add: put_be16_def)
  then have "go_slice (pre @ put_be16 v @ r) (len pre) (len pre + 2) = Some (put_be16 v)"
    using go_slice_append [of pre "put_be16 v" r] by simp
  then show ?thesis using be16_put [of v "[]"] by (simp add: u16_of_def)
qed

lemma length_put16 [simp]: "length (put_be16 v) = 2"
  by (simp add: put_be16_def)

lemma uint_of_nat_u16: "n < 2 ^ 16 \<Longrightarrow> uint (of_nat n :: u16) = int n"
  by (simp add: unsigned_of_nat take_bit_nat_eq_self)

lemma uint_of_nat_byte: "n < 256 \<Longrightarrow> uint (of_nat n :: byte) = int n"
  by (simp add: unsigned_of_nat take_bit_nat_eq_self)

lemma cipher_loop_encode:
  "cipher_loop (pre @ concat (map put_be16 (a @ b)) @ r) behind (len pre) (2 * len (a @ b)) (2 * len a) a =
     Some (a @ b)"
proof (induction b arbitrary: a)
  case Nil
  then show ?case by (subst cipher_loop.simps) simp
next
  case (Cons v b)
  let ?c = "concat (map put_be16 a)"
  have n: "length ?c = 2 * length a" by (induction a) auto
  let ?hs = "pre @ concat (map put_be16 (a @ v # b)) @ r"
  have "go_slice (?hs @ behind) (len pre + 2 * len a) (len pre + 2 * len a + 2) = Some (put_be16 v)"
    using go_slice_append [of "pre @ ?c" "put_be16 v" "concat (map put_be16 b) @ r @ behind"] n
    by (simp add: algebra_simps)
  then have "cipher_loop ?hs behind (len pre) (2 * len (a @ v # b)) (2 * len a) a =
      cipher_loop ?hs behind (len pre) (2 * len (a @ v # b)) (2 * len a + 2) (a @ [v])"
    using be16_put [of v "[]"] by (subst cipher_loop.simps) simp
  also have "\<dots> = Some (a @ v # b)"
    using Cons.IH [of "a @ [v]"] by (simp add: algebra_simps)
  finally show ?case .
qed

lemma ext_loop_encode:
  "list_all (\<lambda>e. length (snd e) < 2 ^ 16) es \<Longrightarrow>
   ext_loop (pre @ concat (map encode_ext es)) (len (pre @ concat (map encode_ext es))) (len pre) x = apply_exts es x"
proof (induction es arbitrary: pre x)
  case Nil
  then show ?case by (subst ext_loop.simps) simp
next
  case (Cons e es)
  obtain t d where e: "e = (t, d)" by (cases e)
  let ?r = "concat (map encode_ext es)"
  let ?hs = "pre @ put_be16 t @ put_be16 (of_nat (length d)) @ d @ ?r"
  have hs: "pre @ concat (map encode_ext (e # es)) = ?hs" by (simp add: e encode_ext_def)
  have u: "u16_of ?hs (len pre) = Some t" "u16_of ?hs (len pre + 2) = Some (of_nat (length d))"
    using u16_of_put [of pre t] u16_of_put [of "pre @ put_be16 t" "of_nat (length d)" "d @ ?r"]
    by (simp_all add: algebra_simps)
  have l: "uint (of_nat (length d) :: u16) = len d" using Cons.prems by (simp add: e uint_of_nat_u16)
  have f: "go_from ?hs (len pre + 4) = Some (d @ ?r)" by (simp add: go_from_Some nat_add_distrib)
  have tr: "(if len d < len (d @ ?r) then go_upto (d @ ?r) (len d) else Some (d @ ?r)) = Some d"
    by (auto simp: go_upto_def go_slice_def)
  have "len pre + 4 \<le> len ?hs" by simp
  then have "ext_loop ?hs (len ?hs) (len pre) x =
      Option.bind (apply_ext t d x) (ext_loop ?hs (len ?hs) (len pre + 4 + len d))"
    by (subst ext_loop.simps) (simp only: u l f tr Let_def if_True Option.bind.simps)
  also have "ext_loop ?hs (len ?hs) (len pre + 4 + len d) = apply_exts es"
  proof
    have "encode_ext e = put_be16 t @ put_be16 (of_nat (length d)) @ d" by (simp add: e encode_ext_def)
    then show "ext_loop ?hs (len ?hs) (len pre + 4 + len d) y = apply_exts es y" for y
      using Cons.IH [of "pre @ encode_ext e" y] Cons.prems by (simp add: algebra_simps)
  qed
  finally show ?case unfolding hs by (simp add: e del: length_append)
qed

lemma client_hello_roundtrip:
  assumes "length rnd = 32" "length sid < 256" "2 * length cs < 2 ^ 16" "length cmp < 256"
    and "length (concat (map encode_ext exts)) < 2 ^ 16" "list_all (\<lambda>e. length (snd e) < 2 ^ 16) exts"
  shows "parseClientHello now (client_hello v rnd sid cs cmp exts) behind M m meta =
    map_option (\<lambda>x. Inr [tls_event now meta M m v cs x]) (apply_exts exts no_exts)"
proof -
  let ?E = "concat (map encode_ext exts)" and ?C = "concat (map put_be16 cs)"
  let ?p1 = "put_be16 v @ rnd" and ?r1 = "?C @ [of_nat (length cmp)] @ cmp @ put_be16 (of_nat (length ?E)) @ ?E"
  let ?p2 = "?p1 @ [of_nat (length sid)] @ sid"
  let ?p3 = "?p2 @ put_be16 (of_nat (2 * length cs))"
  let ?p4 = "?p3 @ ?C @ [of_nat (length cmp)] @ cmp"
  let ?hs = "client_hello v rnd sid cs cmp exts"
  have c: "length ?C = 2 * length cs" by (induction cs) auto
  have hs: "?hs = ?p2 @ put_be16 (of_nat (2 * length cs)) @ ?r1" "?hs = ?p3 @ ?C @ [of_nat (length cmp)] @ cmp @
      put_be16 (of_nat (length ?E)) @ ?E" "?hs = ?p4 @ put_be16 (of_nat (length ?E)) @ ?E"
    by (simp_all add: client_hello_def)
  have n: "len ?p1 = 34" "len ?p2 = 35 + len sid" "len ?p3 = 37 + len sid"
    "len ?p4 = 38 + len sid + 2 * len cs + len cmp"
    "len ?hs = 40 + len sid + 2 * len cs + len cmp + len ?E"
    using assms(1) c by (simp_all add: client_hello_def)
  have w: "uint (of_nat (length sid) :: byte) = len sid" "uint (of_nat (length cmp) :: byte) = len cmp"
    "uint (of_nat (2 * length cs) :: u16) = 2 * len cs" "uint (of_nat (length ?E) :: u16) = len ?E"
    using assms(2-5) by (simp_all add: uint_of_nat_byte uint_of_nat_u16 del: of_nat_mult)
  have v: "u16_of ?hs 0 = Some v" using u16_of_put [of "[]" v] by (simp add: client_hello_def)
  have si: "go_index ?hs 34 = Some (of_nat (length sid))"
    using assms(1) by (simp add: client_hello_def go_index_def nth_append)
  have cl: "u16_of ?hs (35 + len sid) = Some (of_nat (2 * length cs))"
    using u16_of_put [of ?p2] hs(1) n(2) by metis
  have cs: "cipher_loop ?hs behind (35 + len sid + 2) (2 * len cs) 0 [] = Some cs"
    using cipher_loop_encode [of ?p3 "[]" cs "[of_nat (length cmp)] @ cmp @ put_be16 (of_nat (length ?E)) @ ?E" behind]
      hs(2) n(3) by simp
  have cm: "go_index ?hs (37 + len sid + 2 * len cs) = Some (of_nat (length cmp))"
    using go_index_append [of "?p3 @ ?C" "of_nat (length cmp)"] hs(2) c n(3)
    by (simp add: algebra_simps)
  have el: "u16_of ?hs (38 + len sid + 2 * len cs + len cmp) = Some (of_nat (length ?E))"
    using u16_of_put [of ?p4] hs(3) n(4) by metis
  let ?p5 = "?p4 @ put_be16 (of_nat (length ?E))"
  have "?hs = ?p5 @ ?E" "len ?p5 = 40 + len sid + 2 * len cs + len cmp"
    using hs(3) n(4) by simp_all
  then have "ext_loop ?hs (len ?hs) (40 + len sid + 2 * len cs + len cmp) no_exts = apply_exts exts no_exts"
    using ext_loop_encode [OF assms(6), of ?p5 no_exts] by metis
  then have ex: "hello_extensions ?hs (38 + len sid + 2 * len cs + len cmp) = apply_exts exts no_exts"
    using el w n(5) by (simp add: hello_extensions_def min_def algebra_simps)
  show ?thesis
    using v si cl cs cm ex w n(5)
    by (simp add: parseClientHello_def algebra_simps map_conv_bind_option comp_def)
qed

lemma tls_hello_record:
  assumes "length hs + 4 < 2 ^ 16"
  shows "tls_hello now (tls_record M m hs @ r) meta = Some (Inr (hs, r))"
proof -
  let ?d = "tls_record M m hs @ r"
  let ?p = "[1, 0] @ put_be16 (of_nat (length hs)) @ hs"
  have d: "?d = [0x16, M, m] @ put_be16 (of_nat (4 + length hs)) @ ?p @ r" by (simp add: tls_record_def)
  have rl: "u16_of ?d 3 = Some (of_nat (4 + length hs))" "uint (of_nat (4 + length hs) :: u16) = 4 + len hs"
    using u16_of_put [of "[0x16, M, m]" "of_nat (4 + length hs)"] assms
      uint_of_nat_u16 [of "4 + length hs"] by (simp_all add: d)
  have sl: "go_slice ?d 5 (5 + (4 + len hs)) = Some ?p"
    using go_slice_append [of "[0x16, M, m] @ put_be16 (of_nat (4 + length hs))" ?p r] by (simp add: d)
  let ?a = "ucast (drop_bit 8 (of_nat (length hs) :: u16)) :: byte" and ?b = "ucast (of_nat (length hs) :: u16) :: byte"
  have gi: "go_index ?d 0 = Some 0x16" "go_index ?p 0 = Some 1" "go_index ?p 1 = Some 0" "go_index ?p 2 = Some ?a"
    "go_index ?p 3 = Some ?b" by (simp_all add: d go_index_def put_be16_def)
  have "int (length hs) = uint (of_nat (length hs) :: u16)" using assms by (simp add: uint_of_nat_u16)
  also have "\<dots> = 256 * uint ?a + uint ?b"
  proof -
    have "take_bit 16 (uint w) = uint w" for w :: u16
      using uint_bounded [of w] by (simp add: take_bit_int_eq_self)
    then have "uint ?a = drop_bit 8 (uint (of_nat (length hs) :: u16))"
      "uint ?b = take_bit 8 (uint (of_nat (length hs) :: u16))"
      by (simp_all add: unsigned_ucast_eq unsigned_drop_bit_eq take_bit_drop_bit)
    then show ?thesis
      using bits_ident [of 8 "uint (of_nat (length hs) :: u16)"] by (simp add: push_bit_eq_mult)
  qed
  finally have "push_bit 16 (uint (0 :: byte)) OR push_bit 8 (uint ?a) OR uint ?b = len hs"
    using or_push_bit_add [of "uint ?b" 8 "uint ?a"] uint_byte_less [of ?b]
    by (simp add: push_bit_eq_mult or.commute)
  moreover have "go_from ?p 4 = Some hs"
    using go_from_append [of "[1, 0] @ put_be16 (of_nat (length hs))" hs] by simp
  moreover have "len (tls_record M m hs) = 9 + len hs" by (simp add: tls_record_def)
  then have "go_from ?d (9 + len hs) = Some r"
    using go_from_append [of "tls_record M m hs" r] by simp
  moreover have "len ?d = 9 + len hs + len r" "len ?p = 4 + len hs" by (simp_all add: d)
  ultimately show ?thesis
    using rl sl gi by (simp add: tls_hello_def del: length_append append_Cons)
qed

text \<open>The data of the extensions that the parser looks into (RFC 6066, 8422, 7301).\<close>

definition sni_data :: "string \<Rightarrow> bytes" where
  "sni_data host =
     put_be16 (of_nat (3 + length host)) @ [0] @ put_be16 (of_nat (length host)) @ bytes_of host"

definition groups_data :: "u16 list \<Rightarrow> bytes" where
  "groups_data gs = put_be16 (of_nat (2 * length gs)) @ concat (map put_be16 gs)"

definition formats_data :: "byte list \<Rightarrow> bytes" where
  "formats_data fs = of_nat (length fs) # fs"

definition alpn_names :: "string list \<Rightarrow> bytes" where
  "alpn_names ps = concat (map (\<lambda>p. of_nat (length p) # bytes_of p) ps)"

definition alpn_data :: "string list \<Rightarrow> bytes" where
  "alpn_data ps = put_be16 (of_nat (length (alpn_names ps))) @ alpn_names ps"

lemma parseSNI_data:
  assumes "length host < 2 ^ 16"
  shows "parseSNI (sni_data host) = Some host"
proof -
  let ?d = "sni_data host"
  let ?p = "put_be16 (of_nat (3 + length host)) @ [0]"
  have d: "?d = ?p @ put_be16 (of_nat (length host)) @ bytes_of host" by (simp add: sni_data_def)
  have "u16_of ?d 3 = Some (of_nat (length host))"
    using u16_of_put [of ?p "of_nat (length host)" "bytes_of host"] by (simp add: sni_data_def)
  moreover have "uint (of_nat (length host) :: u16) = len host" using assms by (rule uint_of_nat_u16)
  moreover have "go_slice ?d 5 (5 + len host) = Some (bytes_of host)"
    using go_slice_append [of "?p @ put_be16 (of_nat (length host))" "bytes_of host" "[]"] by (simp add: sni_data_def)
  moreover have "go_index ?d 2 = Some 0"
    using go_index_append [of "put_be16 (of_nat (3 + length host))" 0] by (simp add: sni_data_def)
  moreover have "len ?d = 5 + len host" by (simp add: sni_data_def)
  ultimately show ?thesis by (simp add: parseSNI_def)
qed

lemma u16_loop_encode:
  "u16_loop (pre @ concat (map put_be16 gs)) (len (pre @ concat (map put_be16 gs))) (len pre) xs = Some (xs @ gs)"
proof (induction gs arbitrary: pre xs)
  case Nil
  then show ?case by (subst u16_loop.simps) simp
next
  case (Cons g gs)
  let ?d = "pre @ concat (map put_be16 (g # gs))"
  have "u16_of ?d (len pre) = Some g" using u16_of_put [of pre g] by simp
  then have "u16_loop ?d (len ?d) (len pre) xs = u16_loop ?d (len ?d) (len pre + 2) (xs @ [g])"
    by (subst u16_loop.simps) simp
  also have "\<dots> = Some ((xs @ [g]) @ gs)"
    using Cons.IH [of "pre @ put_be16 g" "xs @ [g]"] by (simp add: algebra_simps)
  finally show ?case by simp
qed

lemma parseU16List_data:
  assumes "2 * length gs < 2 ^ 16"
  shows "parseU16List (groups_data gs) = Some gs"
proof -
  have n: "length (concat (map put_be16 gs)) = 2 * length gs" by (induction gs) auto
  have "u16_of (groups_data gs) 0 = Some (of_nat (2 * length gs))"
    using u16_of_put [of "[]"] by (simp add: groups_data_def)
  moreover have "uint (of_nat (2 * length gs) :: u16) = 2 * len gs"
    using assms uint_of_nat_u16 [of "2 * length gs"] by simp
  moreover have "len (groups_data gs) = 2 + 2 * len gs" using n by (simp add: groups_data_def)
  moreover have "u16_loop (groups_data gs) (len (groups_data gs)) 2 [] = Some gs"
    using u16_loop_encode [of "put_be16 (of_nat (2 * length gs))" gs "[]"] by (simp add: groups_data_def)
  ultimately show ?thesis by (simp add: parseU16List_def)
qed

lemma u8_loop_encode: "u8_loop (pre @ fs) (len (pre @ fs)) (len pre) xs = Some (xs @ fs)"
proof (induction fs arbitrary: pre xs)
  case Nil
  then show ?case by (subst u8_loop.simps) simp
next
  case (Cons f fs)
  have "u8_loop (pre @ f # fs) (len (pre @ f # fs)) (len pre) xs =
      u8_loop (pre @ f # fs) (len (pre @ f # fs)) (len pre + 1) (xs @ [f])"
    by (subst u8_loop.simps) (simp add: go_index_append)
  also have "\<dots> = Some ((xs @ [f]) @ fs)"
    using Cons.IH [of "pre @ [f]" "xs @ [f]"] by (simp add: algebra_simps)
  finally show ?case by simp
qed

lemma parseU8List_data:
  assumes "length fs < 256"
  shows "parseU8List (formats_data fs) = Some fs"
proof -
  have "go_index (formats_data fs) 0 = Some (of_nat (length fs))" by (simp add: formats_data_def go_index_def)
  moreover have "uint (of_nat (length fs) :: byte) = len fs" using assms by (rule uint_of_nat_byte)
  moreover have "u8_loop (formats_data fs) (len (formats_data fs)) 1 [] = Some fs"
    using u8_loop_encode [of "[of_nat (length fs)]" fs "[]"] by (simp add: formats_data_def)
  ultimately show ?thesis by (simp add: parseU8List_def formats_data_def)
qed

lemma alpn_loop_encode:
  "list_all (\<lambda>p. length p < 256) ps \<Longrightarrow>
     alpn_loop (pre @ alpn_names ps) (len (pre @ alpn_names ps)) (len pre) xs = Some (xs @ ps)"
proof (induction ps arbitrary: pre xs)
  case Nil
  then show ?case by (subst alpn_loop.simps) (simp add: alpn_names_def)
next
  case (Cons p ps)
  let ?d = "pre @ alpn_names (p # ps)"
  have d: "?d = pre @ of_nat (length p) # bytes_of p @ alpn_names ps" by (simp add: alpn_names_def)
  have gi: "go_index ?d (len pre) = Some (of_nat (length p))" by (simp add: d go_index_append)
  have l: "uint (of_nat (length p) :: byte) = len p" using Cons.prems by (simp add: uint_of_nat_byte)
  have sl: "go_slice ?d (len pre + 1) (len pre + 1 + len p) = Some (bytes_of p)"
    using go_slice_append [of "pre @ [of_nat (length p)]" "bytes_of p" "alpn_names ps"] by (simp add: d algebra_simps)
  have "len pre < len ?d" "\<not> len ?d < len pre + 1 + len p" by (simp_all add: d)
  then have "alpn_loop ?d (len ?d) (len pre) xs = alpn_loop ?d (len ?d) (len pre + 1 + len p) (xs @ [p])"
    using gi l sl by (subst alpn_loop.simps) (simp add: Let_def del: length_append of_nat_add)
  also have "\<dots> = Some ((xs @ [p]) @ ps)"
    using Cons.IH [of "pre @ of_nat (length p) # bytes_of p" "xs @ [p]"] Cons.prems by (simp add: d algebra_simps)
  finally show ?case by simp
qed

lemma parseALPN_data:
  assumes "list_all (\<lambda>p. length p < 256) ps" "length (alpn_names ps) < 2 ^ 16"
  shows "parseALPN (alpn_data ps) = Some ps"
proof -
  have "u16_of (alpn_data ps) 0 = Some (of_nat (length (alpn_names ps)))"
    using u16_of_put [of "[]"] by (simp add: alpn_data_def)
  moreover have "uint (of_nat (length (alpn_names ps)) :: u16) = len (alpn_names ps)"
    using assms(2) by (rule uint_of_nat_u16)
  moreover have "alpn_loop (alpn_data ps) (len (alpn_data ps)) 2 [] = Some ps"
    using alpn_loop_encode [OF assms(1), of "put_be16 (of_nat (length (alpn_names ps)))" "[]"] by (simp add: alpn_data_def)
  ultimately show ?thesis by (simp add: parseALPN_def alpn_data_def)
qed

section \<open>What a ClientHello says\<close>

text \<open>
  The extensions of a ClientHello as a client chooses them, in any order and number. Where one kind is repeated, the
  last counts.
\<close>

datatype hello_ext = ServerName string | Groups "u16 list" | Formats "byte list" | ALPN "string list" | OtherExt u16 bytes

fun wire_ext :: "hello_ext \<Rightarrow> u16 \<times> bytes" where
  "wire_ext (ServerName host) = (0, sni_data host)"
| "wire_ext (Groups gs) = (10, groups_data gs)"
| "wire_ext (Formats fs) = (11, formats_data fs)"
| "wire_ext (ALPN ps) = (16, alpn_data ps)"
| "wire_ext (OtherExt t d) = (t, d)"

fun ext_ok :: "hello_ext \<Rightarrow> bool" where
  "ext_ok (Formats fs) = (length fs < 256)"
| "ext_ok (ALPN ps) = list_all (\<lambda>p. length p < 256) ps"
| "ext_ok (OtherExt t d) = (t \<notin> {0, 10, 11, 16})"
| "ext_ok e = True"

definition chosen :: "(hello_ext \<Rightarrow> 'a list option) \<Rightarrow> hello_ext list \<Rightarrow> 'a list" where
  "chosen f exts = last ([] # List.map_filter f exts)"

definition server_name :: "hello_ext list \<Rightarrow> string" where
  "server_name = chosen (\<lambda>e. case e of ServerName host \<Rightarrow> Some host | _ \<Rightarrow> None)"

definition groups :: "hello_ext list \<Rightarrow> u16 list" where
  "groups = chosen (\<lambda>e. case e of Groups gs \<Rightarrow> Some gs | _ \<Rightarrow> None)"

definition formats :: "hello_ext list \<Rightarrow> byte list" where
  "formats = chosen (\<lambda>e. case e of Formats fs \<Rightarrow> Some fs | _ \<Rightarrow> None)"

definition alpn :: "hello_ext list \<Rightarrow> string list" where
  "alpn = chosen (\<lambda>e. case e of ALPN ps \<Rightarrow> Some ps | _ \<Rightarrow> None)"

text \<open>
  JA3: the decimal values of version, cipher suites, extension types, groups and point formats, the lists joined by
  dashes, without the reserved values of RFC 8701.
\<close>

definition grease_values :: "u16 list" where
  "grease_values = map (\<lambda>k. 0x0A0A + 0x1010 * of_nat k) [0 ..< 16]"

definition dashed :: "nat list \<Rightarrow> string" where
  "dashed ns = Join (map decimal ns) ''-''"

definition no_grease :: "u16 list \<Rightarrow> nat list" where
  "no_grease vs = map unat (filter (\<lambda>v. v \<notin> set grease_values) vs)"

definition ja3_text :: "u16 \<Rightarrow> u16 list \<Rightarrow> hello_ext list \<Rightarrow> string" where
  "ja3_text v cs exts =
     Join [decimal (unat v), dashed (no_grease cs), dashed (no_grease (map (fst \<circ> wire_ext) exts)),
           dashed (no_grease (groups exts)), dashed (map unat (formats exts))] '',''"

text \<open>The event of a ClientHello, field by field.\<close>

definition record_version :: "byte \<Rightarrow> byte \<Rightarrow> string" where
  "record_version M m =
     (if (M, m) = (3, 0) then ''SSL 3.0'' else if (M, m) = (3, 1) then ''TLS 1.0'' else if (M, m) = (3, 2) then ''TLS 1.1''
      else if (M, m) = (3, 3) then ''TLS 1.2'' else if (M, m) = (3, 4) then ''TLS 1.3''
      else ''TLS 0x'' @ hex_byte M @ hex_byte m)"

definition client_hello_event ::
  "int \<Rightarrow> ConnMeta \<Rightarrow> byte \<Rightarrow> byte \<Rightarrow> u16 \<Rightarrow> u16 list \<Rightarrow> hello_ext list \<Rightarrow> ProtocolEvent" where
  "client_hello_event now meta M m v cs exts =
     (let raw = ja3_text v cs exts; hash = concat (map hex_byte (md5_Sum (bytes_of raw)))
      in \<lparr>ev_TimestampNs = now, ev_UID = [], ev_SrcIP = cm_SrcIP meta, ev_DstIP = cm_DstIP meta,
          ev_SrcPort = ucast (cm_SrcPort meta), ev_DstPort = ucast (cm_DstPort meta), ev_Protocol = ''tls'',
          ev_Direction = DirectionRequest, ev_Metadata = [''ja3'' \<mapsto> hash, ''ja3_raw'' \<mapsto> raw], ev_RawExcerpt = [],
          ev_HTTPDetail = None, ev_DNSDetail = None,
          ev_TLSDetail = Some \<lparr>tls_Version = record_version M m, tls_CipherSuite = hash, tls_ServerName = server_name exts,
            tls_HandshakeType = 1, tls_CertificateChain = [], tls_ALPNProtocols = alpn exts\<rparr>,
          ev_DBDetail = None\<rparr>)"

section \<open>Lemmas: decoding what was said\<close>

fun say_ext :: "hello_ext \<Rightarrow> hello_exts \<Rightarrow> hello_exts" where
  "say_ext (ServerName host) x = x\<lparr>hx_sni := host\<rparr>"
| "say_ext (Groups gs) x = x\<lparr>hx_curves := gs\<rparr>"
| "say_ext (Formats fs) x = x\<lparr>hx_fmts := fs\<rparr>"
| "say_ext (ALPN ps) x = x\<lparr>hx_alpn := ps\<rparr>"
| "say_ext (OtherExt t d) x = x"

lemma apply_ext_wire:
  assumes "ext_ok e" "length (snd (wire_ext e)) < 2 ^ 16"
  shows "apply_ext (fst (wire_ext e)) (snd (wire_ext e)) x = Some (say_ext e (x\<lparr>hx_types := hx_types x @ [fst (wire_ext e)]\<rparr>))"
proof (cases e)
  case (ServerName host)
  with assms have "length host < 2 ^ 16" by (simp add: sni_data_def)
  with ServerName show ?thesis by (simp add: apply_ext_def Let_def parseSNI_data)
next
  case (Groups gs)
  have "length (concat (map put_be16 gs)) = 2 * length gs" by (induction gs) auto
  with Groups assms have "2 * length gs < 2 ^ 16" by (simp add: groups_data_def)
  with Groups show ?thesis by (simp add: apply_ext_def Let_def parseU16List_data)
next
  case (Formats fs)
  with assms show ?thesis by (simp add: apply_ext_def Let_def parseU8List_data)
next
  case (ALPN ps)
  with assms have "length (alpn_names ps) < 2 ^ 16" by (simp add: alpn_data_def)
  with ALPN assms show ?thesis by (simp add: apply_ext_def Let_def parseALPN_data)
next
  case (OtherExt t d)
  with assms show ?thesis by (simp add: apply_ext_def Let_def)
qed

lemma apply_exts_wire:
  assumes "list_all ext_ok exts" "list_all (\<lambda>e. length (snd (wire_ext e)) < 2 ^ 16) exts"
  shows "apply_exts (map wire_ext exts) x =
    Some (fold (\<lambda>e x. say_ext e (x\<lparr>hx_types := hx_types x @ [fst (wire_ext e)]\<rparr>)) exts x)"
  using assms
proof (induction exts arbitrary: x)
  case (Cons e exts)
  obtain t d where w: "wire_ext e = (t, d)" by (cases "wire_ext e")
  with Cons apply_ext_wire [of e x] show ?case by simp
qed simp

lemma fold_say:
  fixes exts x
  defines "y \<equiv> fold (\<lambda>e x. say_ext e (x\<lparr>hx_types := hx_types x @ [fst (wire_ext e)]\<rparr>)) exts x"
  shows "hx_types y = hx_types x @ map (fst \<circ> wire_ext) exts"
    "hx_sni y = last (hx_sni x # List.map_filter (\<lambda>e. case e of ServerName host \<Rightarrow> Some host | _ \<Rightarrow> None) exts)"
    "hx_curves y = last (hx_curves x # List.map_filter (\<lambda>e. case e of Groups gs \<Rightarrow> Some gs | _ \<Rightarrow> None) exts)"
    "hx_fmts y = last (hx_fmts x # List.map_filter (\<lambda>e. case e of Formats fs \<Rightarrow> Some fs | _ \<Rightarrow> None) exts)"
    "hx_alpn y = last (hx_alpn x # List.map_filter (\<lambda>e. case e of ALPN ps \<Rightarrow> Some ps | _ \<Rightarrow> None) exts)"
proof -
  have say: "hx_types (say_ext e z) = hx_types z" "hx_sni (say_ext e z) = (case e of ServerName host \<Rightarrow> host | _ \<Rightarrow> hx_sni z)"
    "hx_curves (say_ext e z) = (case e of Groups gs \<Rightarrow> gs | _ \<Rightarrow> hx_curves z)"
    "hx_fmts (say_ext e z) = (case e of Formats fs \<Rightarrow> fs | _ \<Rightarrow> hx_fmts z)"
    "hx_alpn (say_ext e z) = (case e of ALPN ps \<Rightarrow> ps | _ \<Rightarrow> hx_alpn z)" for e z
    by (cases e; simp)+
  show "hx_types y = hx_types x @ map (fst \<circ> wire_ext) exts"
    unfolding y_def by (induction exts arbitrary: x) (simp_all add: say)
  show "hx_sni y = last (hx_sni x # List.map_filter (\<lambda>e. case e of ServerName host \<Rightarrow> Some host | _ \<Rightarrow> None) exts)"
    unfolding y_def by (induction exts arbitrary: x) (auto simp: say map_filter_def split: hello_ext.splits)
  show "hx_curves y = last (hx_curves x # List.map_filter (\<lambda>e. case e of Groups gs \<Rightarrow> Some gs | _ \<Rightarrow> None) exts)"
    unfolding y_def by (induction exts arbitrary: x) (auto simp: say map_filter_def split: hello_ext.splits)
  show "hx_fmts y = last (hx_fmts x # List.map_filter (\<lambda>e. case e of Formats fs \<Rightarrow> Some fs | _ \<Rightarrow> None) exts)"
    unfolding y_def by (induction exts arbitrary: x) (auto simp: say map_filter_def split: hello_ext.splits)
  show "hx_alpn y = last (hx_alpn x # List.map_filter (\<lambda>e. case e of ALPN ps \<Rightarrow> Some ps | _ \<Rightarrow> None) exts)"
    unfolding y_def by (induction exts arbitrary: x) (auto simp: say map_filter_def split: hello_ext.splits)
qed

lemma isGREASE_unat: "isGREASE v \<Longrightarrow> unat v mod 16 = 10 \<and> unat v div 256 = unat v mod 256"
proof -
  assume g: "isGREASE v"
  have m: "(0xFF :: u16) = mask 8" "(0xF :: u16) = mask 4" by (simp_all add: mask_eq_exp_minus_1)
  have "(v AND 0x0F0F) AND 0xF = 0x0A0A AND (0xF :: u16)" using g by (simp add: isGREASE_def)
  then have "v AND 0xF = 0xA" by (simp add: and.assoc)
  then have "take_bit 4 v = 0xA" by (simp only: take_bit_eq_mask m)
  then have "unat (take_bit 4 v) = 10" by simp
  moreover have "drop_bit 8 v = take_bit 8 v" using g by (simp only: isGREASE_def take_bit_eq_mask m)
  then have "unat (drop_bit 8 v) = unat (take_bit 8 v)" by simp
  ultimately show ?thesis
    by (simp add: take_bit_eq_mod drop_bit_eq_div unat_mod unat_div)
qed

section \<open>Properties\<close>

text \<open>
  The bit test of \<^verbatim>\<open>isGREASE\<close> accepts exactly the sixteen reserved values of RFC 8701:
  \<open>0x0A0A, 0x1A1A, ..., 0xFAFA\<close>.
\<close>

lemma isGREASE_iff: "isGREASE v \<longleftrightarrow> v \<in> set grease_values"
  unfolding grease_values_def
proof
  assume "isGREASE v"
  from isGREASE_unat [OF this] have v: "unat v mod 16 = 10" "unat v div 256 = unat v mod 256" by auto
  let ?k = "unat v mod 256 div 16"
  have "unat v = 256 * (unat v div 256) + unat v mod 256" by simp
  moreover have "unat v mod 256 = 16 * ?k + unat v mod 256 mod 16" by simp
  moreover have "unat v mod 256 mod 16 = 10" using v(1) by (simp add: mod_mod_cancel)
  ultimately have "unat v = 0x0A0A + 0x1010 * ?k" using v(2) by linarith
  then have "of_nat (unat v) = (of_nat (0x0A0A + 0x1010 * ?k) :: u16)" by (rule arg_cong)
  then have "v = 0x0A0A + 0x1010 * of_nat ?k"
    by (simp only: of_nat_add of_nat_mult of_nat_numeral) simp
  moreover have "?k < 16" by simp
  ultimately show "v \<in> set (map (\<lambda>k. 0x0A0A + 0x1010 * of_nat k) [0 ..< 16])" by auto
next
  have all: "list_all isGREASE (map (\<lambda>k. 0x0A0A + 0x1010 * of_nat k) [0 ..< 16])" by code_simp
  assume "v \<in> set (map (\<lambda>k. 0x0A0A + 0x1010 * of_nat k) [0 ..< 16])"
  then show "isGREASE v" using all by (simp only: list_all_iff)
qed

text \<open>
  C26: When the TLS parser panics is known exactly: on a ClientHello whose cipher suite list has an odd
  length and ends the handshake body, with no byte behind the body in the array. In all other cases
  it returns an error or events.
\<close>

theorem tls_Parse_panics_iff:
  "tls_Parse now data spare meta c = panic \<longleftrightarrow>
     (\<exists>hs. tls_hello now data meta = Some (Inr (hs, [])) \<and> spare = [] \<and> tls_odd_tail hs)"
proof -
  obtain h where h: "tls_hello now data meta = Some h"
    "\<forall>hs behind. h = Inr (hs, behind) \<longrightarrow> 9 \<le> len data"
    using returns_ex [OF tls_hello_ok [of now data meta]] by auto
  show ?thesis
  proof (cases h)
    case (Inl r)
    with h show ?thesis by (simp add: tls_Parse_def)
  next
    case (Inr p)
    obtain hs behind where p: "p = (hs, behind)" by (cases p)
    then have "9 \<le> len data" using h(2) Inr by blast
    then have "tls_Parse now data spare meta c =
        parseClientHello now hs (behind @ spare) (data ! 1) (data ! 2) meta"
      using h(1) Inr p by (simp add: tls_Parse_def go_safe)
    moreover have "parseClientHello now hs (behind @ spare) (data ! 1) (data ! 2) meta = panic \<longleftrightarrow>
        behind @ spare = [] \<and> tls_odd_tail hs"
      using parseClientHello_odd returns_not_panic [OF parseClientHello_ok] by (metis append_is_Nil_conv)
    ultimately show ?thesis using h(1) Inr p by auto
  qed
qed

text \<open>
  There is such a ClientHello: a record of 47 bytes with one byte of cipher suites at its end, in a
  buffer of exactly that size, as the reassembler makes it, makes the parser panic.
\<close>

lemma tls_odd_hello_panics:
  "tls_Parse 7 ([0x16, 3, 1, 0, 42, 1, 0, 0, 38] @ [3, 3] @ replicate 32 7 @ [0] @ [0, 1] @ [0x13]) []
     example_meta True = panic"
  by code_simp

lemma tls_event_eq:
  assumes "hx_types x = map (fst \<circ> wire_ext) exts" "hx_sni x = server_name exts" "hx_curves x = groups exts"
    "hx_fmts x = formats exts" "hx_alpn x = alpn exts"
  shows "tls_event now meta M m v cs x = client_hello_event now meta M m v cs exts"
proof -
  have "joinU16 (filterGREASE vs) = dashed (no_grease vs)" for vs
    by (simp add: joinU16_def filterGREASE_def dashed_def no_grease_def isGREASE_iff comp_def)
  then have ja3: "buildJA3 v cs (hx_types x) (hx_curves x) (hx_fmts x) = ja3_text v cs exts"
    by (simp add: buildJA3_def ja3_text_def joinU8_def dashed_def comp_def assms)
  have "versionString M m = record_version M m" by (auto simp: versionString_def record_version_def)
  with ja3 show ?thesis
    by (simp add: tls_event_def client_hello_event_def fillMeta_def NewEvent_def EncodeToString_def Let_def assms)
qed

text \<open>
  C13: A ClientHello is decoded exactly, whatever follows the record. For any client version, random, session identifier, cipher
  suites and compression methods and any extensions in any order, the event holds the
  server name and the application protocols that the client asked for, the version of the record, and as metadata the JA3 text: the client's
  version, cipher suites, extension types, groups and point formats in their order on the wire without the
  reserved values, with its MD5 hash.
\<close>

theorem tls_client_hello_roundtrip:
  assumes "length rnd = 32" "length sid < 256" "2 * length cs < 2 ^ 16" "length cmp < 256"
    and "list_all ext_ok exts" "list_all (\<lambda>e. length (snd (wire_ext e)) < 2 ^ 16) exts"
    and "length (concat (map encode_ext (map wire_ext exts))) < 2 ^ 16"
    and "length (client_hello v rnd sid cs cmp (map wire_ext exts)) + 4 < 2 ^ 16"
  shows "tls_Parse now (tls_record M m (client_hello v rnd sid cs cmp (map wire_ext exts)) @ r) spare meta c =
    Some (Inr [client_hello_event now meta M m v cs exts])"
proof -
  let ?x = "fold (\<lambda>e x. say_ext e (x\<lparr>hx_types := hx_types x @ [fst (wire_ext e)]\<rparr>)) exts no_exts"
  have "parseClientHello now (client_hello v rnd sid cs cmp (map wire_ext exts)) (r @ spare) M m meta =
      map_option (\<lambda>x. Inr [tls_event now meta M m v cs x]) (apply_exts (map wire_ext exts) no_exts)"
    using assms(1-4,6,7) by (intro client_hello_roundtrip) (simp_all add: list_all_iff)
  moreover have "tls_event now meta M m v cs ?x = client_hello_event now meta M m v cs exts"
    by (rule tls_event_eq)
      (simp_all add: fold_say no_exts_def server_name_def groups_def formats_def alpn_def chosen_def)
  moreover have "go_index (tls_record M m hs @ r) 1 = Some M" "go_index (tls_record M m hs @ r) 2 = Some m" for hs
    by (simp_all add: tls_record_def go_index_def)
  ultimately show ?thesis
    using tls_hello_record [OF assms(8)] apply_exts_wire [OF assms(5,6)] by (simp add: tls_Parse_def)
qed

theorem tls_client_hello_roundtrip_witness:
  "tls_Parse 7 (tls_record 3 1 (client_hello 0x0303 (replicate 32 9) [] [0x1301, 0x0A0A] [0]
      (map wire_ext [ServerName ''a.b'', OtherExt 43 [2, 3, 4], Groups [29], Formats [0], ALPN [''h2'']])) @ [22]) [] example_meta True =
    Some (Inr [client_hello_event 7 example_meta 3 1 0x0303 [0x1301, 0x0A0A]
      [ServerName ''a.b'', OtherExt 43 [2, 3, 4], Groups [29], Formats [0], ALPN [''h2'']]])"
  by (rule tls_client_hello_roundtrip)
    (simp_all add: client_hello_def encode_ext_def sni_data_def groups_data_def formats_data_def alpn_data_def alpn_names_def)

text \<open>What the specification says of this example: the server name and the JA3 text.\<close>

lemma example_ja3:
  "server_name [ServerName ''a.b'', OtherExt 43 [2, 3, 4], Groups [29], Formats [0], ALPN [''h2'']] = ''a.b''"
  "ja3_text 0x0303 [0x1301, 0x0A0A] [ServerName ''a.b'', OtherExt 43 [2, 3, 4], Groups [29], Formats [0], ALPN [''h2'']] =
     ''771,4865,0-43-10-11-16,29,0''"
  by (simp_all add: server_name_def chosen_def map_filter_def ja3_text_def groups_def formats_def dashed_def no_grease_def
      grease_values_def upt_rec digit_char_def decimal.simps char_of_def bit_0)

end
