(* ===== verification/Http.thy ===== *)
theory Http
  imports Protocol
begin

text \<open>
  The HTTP/1.x parser (\<^verbatim>\<open>internal/protocol/http/parser.go\<close>), the one parser with state: per
  connection, the numbers of requests and responses seen, from which the identifiers that pair
  them are made.

  The readers of Go's \<^verbatim>\<open>net/http\<close> are the parameter \<open>net_http\<close>: given the unread bytes they return an
  error, or a message with its body stream and the bytes after the message. What the parser relies on is
  \<open>net_http_progress\<close>: a successful read consumes at least one byte. The map of connection
  states is the parser state \<open>'s\<close> of the other theories. A call of \<^verbatim>\<open>Parse\<close>, of \<^verbatim>\<open>OnConnClose\<close> and a
  sweep of the janitor are each one step on it.
\<close>

section \<open>Data\<close>

datatype http_error = EOF | UnexpectedEOF | OtherError string

type_synonym Header = "string \<rightharpoonup> string list"

text \<open>A body stream: the bytes it delivers, and whether it ends with an error.\<close>

record http_message =
  msg_Method :: string
  msg_RequestURI :: string
  msg_Host :: string
  msg_StatusCode :: int
  msg_Header :: Header
  msg_ContentLength :: int
  msg_Body :: bytes
  msg_BodyFails :: bool

record net_http =
  ReadRequest :: "bytes \<Rightarrow> http_error + http_message \<times> bytes"
  ReadResponse :: "bytes \<Rightarrow> http_error + http_message \<times> bytes"

record connState =
  reqSeq :: u64
  respSeq :: u64
  lastActivity :: int

type_synonym http_state = "u64 \<rightharpoonup> connState"

definition connStateTTL :: int where
  "connStateTTL = 15 * 60 * 10 ^ 9"

definition httpPrefixes :: "bytes list" where
  "httpPrefixes = map bytes_of [''GET '', ''POST '', ''PUT '', ''DELETE '', ''HEAD '', ''PATCH '', ''OPTIONS '',
     ''HTTP/'']"

section \<open>Helpers\<close>

definition Header_Get :: "Header \<Rightarrow> string \<Rightarrow> string" where
  "Header_Get h k = (case h k of Some (v # vs) \<Rightarrow> v | _ \<Rightarrow> [])"

definition flattenHeader :: "Header \<Rightarrow> (string \<rightharpoonup> string)" where
  "flattenHeader h = (\<lambda>k. map_option (\<lambda>v. Join v '', '') (h k))"

text \<open>
  \<^verbatim>\<open>io.ReadAll\<close> of the body limited to one byte more than the maximum; an error of the stream
  shows only if the limit is not reached before.
\<close>

definition readBody :: "int \<Rightarrow> bytes \<Rightarrow> bool \<Rightarrow> (bytes \<times> bool) go" where
  "readBody maxBodyBytes body fails =
     (if maxBodyBytes = 0 then Some ([], False)
      else do {
        let buf = take (nat (maxBodyBytes + 1)) body;
        let err = (fails \<and> len body \<le> maxBodyBytes);
        if err then
          (if maxBodyBytes < len buf then do { b \<leftarrow> go_upto buf maxBodyBytes; Some (b, True) }
           else Some (buf, False))
        else if maxBodyBytes < len buf then do { b \<leftarrow> go_upto buf maxBodyBytes; Some (b, True) }
        else Some (buf, False) })"

fun hex_pad :: "nat \<Rightarrow> nat \<Rightarrow> string" where
  "hex_pad 0 n = []"
| "hex_pad (Suc k) n = hex_pad k (n div 16) @ [hex_digit (n mod 16)]"

text \<open>\<^verbatim>\<open>fmt.Sprintf("%016x-%d", connID, seq)\<close>; 16 digits hold every 64-bit number.\<close>

definition makeUID :: "u64 \<Rightarrow> u64 \<Rightarrow> string" where
  "makeUID connID sq = hex_pad 16 (unat connID) @ ''-'' @ decimal (unat sq)"

definition int32 :: "int \<Rightarrow> int" where
  "int32 x = (x + 2 ^ 31) mod 2 ^ 32 - 2 ^ 31"

section \<open>The parser\<close>

definition NewHTTPParser :: "int \<Rightarrow> int" where
  "NewHTTPParser maxBodyBytes = (if maxBodyBytes < 0 then 0 else maxBodyBytes)"

definition http_Probe :: "bytes \<Rightarrow> bool \<Rightarrow> int go" where
  "http_Probe data isFromClient = Some (if list_ex (\<lambda>p. HasPrefix data p) httpPrefixes then 90 else 0)"

definition stateFor :: "http_state \<Rightarrow> u64 \<Rightarrow> connState" where
  "stateFor m connID =
     (case m connID of Some s \<Rightarrow> s | None \<Rightarrow> \<lparr>reqSeq = 0, respSeq = 0, lastActivity = 0\<rparr>)"

definition request_event ::
  "int \<Rightarrow> int \<Rightarrow> ConnMeta \<Rightarrow> http_message \<Rightarrow> connState \<Rightarrow> (ProtocolEvent \<times> connState) go" where
  "request_event maxBody now meta req s = do {
     (body, truncated) \<leftarrow> readBody maxBody (msg_Body req) (msg_BodyFails req);
     let s' = s\<lparr>reqSeq := reqSeq s + 1\<rparr>;
     let ev = (fillMeta (NewEvent now ''http'' DirectionRequest) meta)\<lparr>ev_UID := makeUID (cm_ConnID meta) (reqSeq s' - 1)\<rparr>;
     let host = (if msg_Host req = [] then Header_Get (msg_Header req) ''Host'' else msg_Host req);
     Some (ev\<lparr>ev_HTTPDetail := Some \<lparr>http_Method = msg_Method req, http_URL = msg_RequestURI req,
       http_Host = host, http_StatusCode = 0, http_Headers = flattenHeader (msg_Header req),
       http_ContentType = Header_Get (msg_Header req) ''Content-Type'',
       http_BodyLength = msg_ContentLength req, http_Body = body, http_BodyTruncated = truncated\<rparr>\<rparr>, s') }"

definition response_event ::
  "int \<Rightarrow> int \<Rightarrow> ConnMeta \<Rightarrow> http_message \<Rightarrow> connState \<Rightarrow> (ProtocolEvent \<times> connState) go" where
  "response_event maxBody now meta resp s = do {
     (body, truncated) \<leftarrow> readBody maxBody (msg_Body resp) (msg_BodyFails resp);
     let cl = Header_Get (msg_Header resp) ''Content-Length'';
     let contentLength =
       (if msg_ContentLength resp < 0 \<and> cl \<noteq> [] then case_option (msg_ContentLength resp) id (Atoi cl)
        else msg_ContentLength resp);
     let s' = s\<lparr>respSeq := respSeq s + 1\<rparr>;
     let ev = (fillMeta (NewEvent now ''http'' DirectionResponse) meta)\<lparr>ev_UID := makeUID (cm_ConnID meta) (respSeq s' - 1)\<rparr>;
     Some (ev\<lparr>ev_HTTPDetail := Some \<lparr>http_Method = [], http_URL = [], http_Host = [],
       http_StatusCode = int32 (msg_StatusCode resp), http_Headers = flattenHeader (msg_Header resp),
       http_ContentType = Header_Get (msg_Header resp) ''Content-Type'',
       http_BodyLength = contentLength, http_Body = body, http_BodyTruncated = truncated\<rparr>\<rparr>, s') }"

definition http_read :: "net_http \<Rightarrow> bool \<Rightarrow> bytes \<Rightarrow> http_error + http_message \<times> bytes" where
  "http_read L isFromClient data = (if isFromClient then ReadRequest L data else ReadResponse L data)"

definition http_event ::
  "bool \<Rightarrow> int \<Rightarrow> int \<Rightarrow> ConnMeta \<Rightarrow> http_message \<Rightarrow> connState \<Rightarrow> (ProtocolEvent \<times> connState) go" where
  "http_event isFromClient maxBody now meta msg s =
     (if isFromClient then request_event maxBody now meta msg s else response_event maxBody now meta msg s)"

text \<open>
  The loop of \<^verbatim>\<open>Parse\<close>: it ends with the first error. A reader that consumed nothing would make it
  run forever; that is \<^const>\<open>None\<close> here, and \<open>net_http_progress\<close> excludes it.
\<close>

function http_loop ::
  "net_http \<Rightarrow> int \<Rightarrow> int \<Rightarrow> ConnMeta \<Rightarrow> bool \<Rightarrow> connState \<Rightarrow> bytes \<Rightarrow> ProtocolEvent list \<Rightarrow>
     (connState \<times> ProtocolEvent list \<times> http_error) go" where
  "http_loop L maxBody now meta isFromClient s data events =
     (case http_read L isFromClient data of
        Inl err \<Rightarrow> Some (s, events, err)
      | Inr (msg, rest) \<Rightarrow>
          if length rest < length data then do {
            (ev, s) \<leftarrow> http_event isFromClient maxBody now meta msg s;
            http_loop L maxBody now meta isFromClient s rest (events @ [ev]) }
          else None)"
  by pat_completeness auto
termination
  by (relation "measure (\<lambda>(L, maxBody, now, meta, c, s, data, events). length data)") auto

declare http_loop.simps [simp del]

fun http_error_text :: "http_error \<Rightarrow> string" where
  "http_error_text EOF = ''EOF''"
| "http_error_text UnexpectedEOF = ''unexpected EOF''"
| "http_error_text (OtherError s) = s"

definition http_Parse ::
  "net_http \<Rightarrow> int \<Rightarrow> int \<Rightarrow> http_state \<Rightarrow> bytes \<Rightarrow> ConnMeta \<Rightarrow> bool \<Rightarrow> (http_state \<times> parse_result) go" where
  "http_Parse L maxBody now m data meta isFromClient = do {
     let s = (stateFor m (cm_ConnID meta))\<lparr>lastActivity := now\<rparr>;
     (s, events, err) \<leftarrow> http_loop L maxBody now meta isFromClient s data [];
     let m = m(cm_ConnID meta \<mapsto> s);
     Some (m, if 0 < len events then Inr events
              else if err = EOF \<or> err = UnexpectedEOF then Inr []
              else Inl (''http: parse: '' @ http_error_text err)) }"

definition http_OnConnClose :: "http_state \<Rightarrow> u64 \<Rightarrow> http_state" where
  "http_OnConnClose m connID = m(connID := None)"

text \<open>One sweep of the janitor (\<^verbatim>\<open>gcLoop\<close>) at time \<open>now\<close>.\<close>

definition http_gc :: "int \<Rightarrow> http_state \<Rightarrow> http_state" where
  "http_gc now m =
     (\<lambda>k. case m k of
        None \<Rightarrow> None
      | Some s \<Rightarrow> if lastActivity s < now - connStateTTL then None else Some s)"

text \<open>
  The janitor's life: the first \<^verbatim>\<open>Parse\<close> starts it (\<^verbatim>\<open>gcOnce\<close>), \<^verbatim>\<open>Close\<close> closes the channel
  \<^verbatim>\<open>gcStop\<close> unless it is closed already; closing a closed channel would panic.
\<close>

record janitor =
  gcStarted :: bool
  gcStopped :: bool

definition gcOnce_Do :: "janitor \<Rightarrow> janitor" where
  "gcOnce_Do j = j\<lparr>gcStarted := True\<rparr>"

definition close_gcStop :: "janitor \<Rightarrow> janitor go" where
  "close_gcStop j = (if gcStopped j then panic else Some (j\<lparr>gcStopped := True\<rparr>))"

definition http_Close :: "janitor \<Rightarrow> janitor go" where
  "http_Close j = (if gcStopped j then Some j else close_gcStop j)"

lemma http_Close_twice: "http_Close j \<bind> http_Close = http_Close j \<and> http_Close j = Some (j\<lparr>gcStopped := True\<rparr>)"
  by (cases j) (simp add: http_Close_def close_gcStop_def)

definition http_parser :: "net_http \<Rightarrow> int \<Rightarrow> http_state Parser" where
  "http_parser L maxBody =
     \<lparr>Name = ''http'', Ports = [80, 8080, 8000, 8888, 3000], Probe = http_Probe,
      Parse = (\<lambda>now st data spare meta c. http_Parse L (NewHTTPParser maxBody) now st data meta c),
      OnConnClose = Some http_OnConnClose\<rparr>"

section \<open>Lemmas: identifiers\<close>

lemma hex_digit_inj: "a < 16 \<Longrightarrow> b < 16 \<Longrightarrow> hex_digit a = hex_digit b \<Longrightarrow> a = b"
proof -
  have "\<forall>a \<in> set [0 ..< 16]. \<forall>b \<in> set [0 ..< 16]. hex_digit a = hex_digit b \<longrightarrow> a = b" by code_simp
  then show "a < 16 \<Longrightarrow> b < 16 \<Longrightarrow> hex_digit a = hex_digit b \<Longrightarrow> a = b" by simp
qed

lemma length_hex_pad [simp]: "length (hex_pad k n) = k"
  by (induction k n rule: hex_pad.induct) auto

lemma hex_pad_inj: "n < 16 ^ k \<Longrightarrow> m < 16 ^ k \<Longrightarrow> hex_pad k n = hex_pad k m \<Longrightarrow> n = m"
proof (induction k arbitrary: n m)
  case (Suc k)
  have "n div 16 < 16 ^ k" "m div 16 < 16 ^ k"
    using Suc.prems by (simp_all add: less_mult_imp_div_less mult.commute)
  moreover have "hex_pad k (n div 16) = hex_pad k (m div 16)" "hex_digit (n mod 16) = hex_digit (m mod 16)"
    using Suc.prems(3) by simp_all
  ultimately have "n div 16 = m div 16" "n mod 16 = m mod 16"
    using Suc.IH hex_digit_inj [of "n mod 16" "m mod 16"] by auto
  then show ?case by (metis div_mult_mod_eq)
qed simp

lemma decimal_inj: "decimal n = decimal m \<Longrightarrow> n = m"
  by (metis option.inject parse_decimal_decimal)

section \<open>Lemmas: one message\<close>

lemma readBody_eq:
  "0 \<le> maxBody \<Longrightarrow> readBody maxBody body fails =
     Some (if maxBody = 0 then ([], False) else (take (nat maxBody) body, maxBody < len body))"
  by (auto simp: readBody_def Let_def go_safe min_def nat_add_distrib)

definition dirSeq :: "bool \<Rightarrow> connState \<Rightarrow> u64" where
  "dirSeq c s = (if c then reqSeq s else respSeq s)"

definition bump :: "bool \<Rightarrow> connState \<Rightarrow> connState" where
  "bump c s = (if c then s\<lparr>reqSeq := reqSeq s + 1\<rparr> else s\<lparr>respSeq := respSeq s + 1\<rparr>)"

lemma bump_simps [simp]:
  "dirSeq c (bump c s) = dirSeq c s + 1" "c' \<noteq> c \<Longrightarrow> dirSeq c' (bump c s) = dirSeq c' s"
  "lastActivity (bump c s) = lastActivity s"
  "dirSeq c (s\<lparr>lastActivity := t\<rparr>) = dirSeq c s"
  by (auto simp: dirSeq_def bump_def)

definition http_event_ok :: "int \<Rightarrow> ConnMeta \<Rightarrow> ProtocolEvent \<Rightarrow> bool" where
  "http_event_ok maxBody meta e \<longleftrightarrow> tagged ''http'' meta e \<and>
     (\<exists>d. ev_HTTPDetail e = Some d \<and> len (http_Body d) \<le> maxBody)"

lemma http_event_spec:
  assumes "0 \<le> maxBody"
  shows "\<exists>ev. http_event c maxBody now meta msg s = Some (ev, bump c s) \<and> http_event_ok maxBody meta ev \<and>
    ev_UID ev = makeUID (cm_ConnID meta) (dirSeq c s)"
  using assms
  by (cases c) (auto simp: http_event_def request_event_def response_event_def readBody_eq Let_def
      http_event_ok_def dirSeq_def bump_def)

text \<open>The identifiers of \<open>n\<close> consecutive messages.\<close>

definition uid_seq :: "u64 \<Rightarrow> u64 \<Rightarrow> nat \<Rightarrow> string list" where
  "uid_seq connID start n = map (\<lambda>i. makeUID connID (start + of_nat i)) [0 ..< n]"

lemma uid_seq_Suc: "uid_seq conn s (Suc n) = makeUID conn s # uid_seq conn (s + 1) n"
  by (simp add: uid_seq_def map_upt_Suc algebra_simps del: upt_Suc)

lemma length_uid_seq [simp]: "length (uid_seq conn s n) = n"
  by (simp add: uid_seq_def)

lemma uid_seq_add: "uid_seq conn s (a + b) = uid_seq conn s a @ uid_seq conn (s + of_nat a) b"
  by (induction a arbitrary: s) (simp_all add: uid_seq_Suc algebra_simps, simp add: uid_seq_def)

definition net_http_progress :: "net_http \<Rightarrow> bool" where
  "net_http_progress L \<longleftrightarrow> (\<forall>c data msg rest. http_read L c data = Inr (msg, rest) \<longrightarrow> length rest < length data)"

definition loop_ok ::
  "int \<Rightarrow> ConnMeta \<Rightarrow> bool \<Rightarrow> connState \<Rightarrow> ProtocolEvent list \<Rightarrow> connState \<Rightarrow> ProtocolEvent list \<Rightarrow> bool" where
  "loop_ok maxBody meta c s evs s' evs' \<longleftrightarrow>
     (\<exists>new. evs' = evs @ new \<and> map ev_UID new = uid_seq (cm_ConnID meta) (dirSeq c s) (length new) \<and>
        (\<forall>e \<in> set new. http_event_ok maxBody meta e) \<and>
        dirSeq c s' = dirSeq c s + of_nat (length new) \<and> (\<forall>c'. c' \<noteq> c \<longrightarrow> dirSeq c' s' = dirSeq c' s) \<and>
        lastActivity s' = lastActivity s)"

lemma loop_ok_step:
  assumes "loop_ok maxBody meta c (bump c s) (evs @ [ev]) s' evs'" "http_event_ok maxBody meta ev"
    and "ev_UID ev = makeUID (cm_ConnID meta) (dirSeq c s)"
  shows "loop_ok maxBody meta c s evs s' evs'"
proof -
  obtain new where "evs' = (evs @ [ev]) @ new" "map ev_UID new = uid_seq (cm_ConnID meta) (dirSeq c s + 1) (length new)"
    "\<forall>e \<in> set new. http_event_ok maxBody meta e" "dirSeq c s' = dirSeq c s + 1 + of_nat (length new)"
    "\<forall>c'. c' \<noteq> c \<longrightarrow> dirSeq c' s' = dirSeq c' s" "lastActivity s' = lastActivity s"
    using assms(1) by (auto simp: loop_ok_def)
  then show ?thesis
    using assms(2,3) unfolding loop_ok_def
    by (intro exI [of _ "ev # new"]) (auto simp: uid_seq_Suc)
qed

lemma http_loop_spec:
  assumes "0 \<le> maxBody"
  shows "upon_return (http_loop L maxBody now meta c s data evs) (\<lambda>(s', evs', err). loop_ok maxBody meta c s evs s' evs')"
proof (induction "length data" arbitrary: s data evs rule: less_induct)
  case less
  show ?case
  proof (cases "http_read L c data")
    case (Inl err)
    then show ?thesis
      by (subst http_loop.simps) (simp add: wlp loop_ok_def uid_seq_def)
  next
    case (Inr p)
    obtain msg rest where p: "p = (msg, rest)" by (cases p)
    obtain ev where ev: "http_event c maxBody now meta msg s = Some (ev, bump c s)" "http_event_ok maxBody meta ev"
      "ev_UID ev = makeUID (cm_ConnID meta) (dirSeq c s)"
      using http_event_spec [OF assms] by blast
    have "upon_return (http_loop L maxBody now meta c (bump c s) rest (evs @ [ev]))
        (\<lambda>(s', evs', err). loop_ok maxBody meta c s evs s' evs')" if "length rest < length data"
      by (rule upon_return_mono [OF less.hyps [OF that]]) (use loop_ok_step ev(2,3) in auto)
    with Inr p ev(1) show ?thesis
      by (subst http_loop.simps) (simp add: wlp)
  qed
qed

lemma http_loop_returns:
  assumes "0 \<le> maxBody" "net_http_progress L"
  shows "\<exists>r. http_loop L maxBody now meta c s data evs = Some r"
proof (induction "length data" arbitrary: s data evs rule: less_induct)
  case less
  show ?case
  proof (cases "http_read L c data")
    case (Inl err)
    then show ?thesis by (subst http_loop.simps) simp
  next
    case (Inr p)
    obtain msg rest where p: "p = (msg, rest)" by (cases p)
    have lt: "length rest < length data" using assms(2) Inr p by (simp add: net_http_progress_def)
    obtain ev where "http_event c maxBody now meta msg s = Some (ev, bump c s)"
      using http_event_spec [OF assms(1)] by blast
    with less.hyps [OF lt] Inr p lt show ?thesis by (subst http_loop.simps) simp
  qed
qed

section \<open>Lemmas: calls\<close>

definition result_events :: "parse_result \<Rightarrow> ProtocolEvent list" where
  "result_events r = (case r of Inl err \<Rightarrow> [] | Inr evs \<Rightarrow> evs)"

definition call_ok ::
  "int \<Rightarrow> int \<Rightarrow> http_state \<Rightarrow> ConnMeta \<Rightarrow> bool \<Rightarrow> http_state \<Rightarrow> parse_result \<Rightarrow> bool" where
  "call_ok maxBody now m meta c m' r \<longleftrightarrow>
     (let conn = cm_ConnID meta; s = stateFor m conn; evs = result_events r
      in list_all (http_event_ok maxBody meta) evs \<and>
         map ev_UID evs = uid_seq conn (dirSeq c s) (length evs) \<and>
         (\<exists>s'. m' = m(conn \<mapsto> s') \<and> lastActivity s' = now \<and>
            dirSeq c s' = dirSeq c s + of_nat (length evs) \<and> dirSeq (\<not> c) s' = dirSeq (\<not> c) s))"

lemma http_Parse_call_ok:
  assumes "0 \<le> maxBody"
  shows "upon_return (http_Parse L maxBody now m data meta c) (\<lambda>(m', r). call_ok maxBody now m meta c m' r)"
proof -
  let ?s = "(stateFor m (cm_ConnID meta))\<lparr>lastActivity := now\<rparr>"
  have "call_ok maxBody now m meta c (m(cm_ConnID meta \<mapsto> s'))
      (if 0 < len evs then Inr evs else if err = EOF \<or> err = UnexpectedEOF then Inr []
       else Inl (''http: parse: '' @ http_error_text err))"
    if "loop_ok maxBody meta c ?s [] s' evs" for s' evs err
    using that by (cases evs) (auto simp: call_ok_def loop_ok_def result_events_def Let_def list_all_iff)
  then show ?thesis
    unfolding http_Parse_def
    by (auto simp: wlp intro!: upon_return_mono [OF http_loop_spec [OF assms]])
qed

lemma http_Parse_returns:
  assumes "0 \<le> maxBody" "net_http_progress L"
  shows "\<exists>m' r. http_Parse L maxBody now m data meta c = Some (m', r)"
proof -
  obtain s evs err where "http_loop L maxBody now meta c ((stateFor m (cm_ConnID meta))\<lparr>lastActivity := now\<rparr>) data [] =
      Some (s, evs, err)"
    using http_loop_returns [OF assms] by (metis prod_cases3)
  then show ?thesis by (simp add: http_Parse_def)
qed

interpretation http_iface: parser_contract "http_parser L maxBody" for L maxBody
proof
  show "\<exists>s. Probe (http_parser L maxBody) data c = Some s \<and> 0 \<le> s \<and> s \<le> 100" for data c
    by (simp add: http_parser_def http_Probe_def)
  fix now st data spare meta c st' evs e
  assume "Parse (http_parser L maxBody) now st data spare meta c = Some (st', Inr evs)" "e \<in> set evs"
  then show "tagged (Name (http_parser L maxBody)) meta e"
    using upon_returnD [OF http_Parse_call_ok [of "NewHTTPParser maxBody" L now st data meta c]]
    by (fastforce simp: http_parser_def NewHTTPParser_def call_ok_def result_events_def http_event_ok_def
        list_all_iff Let_def)
qed

text \<open>
  A run of the parser: calls of \<^verbatim>\<open>Parse\<close>, closes of connections and sweeps of the janitor, in any
  order. The log holds, per connection and side, the identifiers given since the connection was last
  closed or swept away.
\<close>

datatype http_call = HParse int bytes ConnMeta bool | HClose u64 | HSweep int

type_synonym uid_log = "u64 \<Rightarrow> bool \<Rightarrow> string list"

definition log_uids :: "uid_log \<Rightarrow> u64 \<Rightarrow> bool \<Rightarrow> string list \<Rightarrow> uid_log" where
  "log_uids uids conn c new = (\<lambda>k d. if k = conn \<and> d = c then uids k d @ new else uids k d)"

fun http_run :: "net_http \<Rightarrow> int \<Rightarrow> http_call list \<Rightarrow> http_state \<Rightarrow> uid_log \<Rightarrow> (http_state \<times> uid_log) go" where
  "http_run L maxBody [] m uids = Some (m, uids)"
| "http_run L maxBody (HParse now data meta c # calls) m uids = do {
     (m, r) \<leftarrow> http_Parse L maxBody now m data meta c;
     http_run L maxBody calls m (log_uids uids (cm_ConnID meta) c (map ev_UID (result_events r))) }"
| "http_run L maxBody (HClose conn # calls) m uids =
     http_run L maxBody calls (http_OnConnClose m conn) (uids(conn := (\<lambda>_. [])))"
| "http_run L maxBody (HSweep now # calls) m uids =
     http_run L maxBody calls (http_gc now m)
       (\<lambda>k. if http_gc now m k = None then (\<lambda>_. []) else uids k)"

definition numbered :: "http_state \<Rightarrow> uid_log \<Rightarrow> bool" where
  "numbered m uids \<longleftrightarrow>
     (\<forall>conn c. uids conn c = uid_seq conn 0 (length (uids conn c)) \<and>
        dirSeq c (stateFor m conn) = of_nat (length (uids conn c)))"

lemma numbered_Parse:
  assumes "numbered m uids" "call_ok maxBody now m meta c m' r"
  shows "numbered m' (log_uids uids (cm_ConnID meta) c (map ev_UID (result_events r)))"
proof -
  let ?conn = "cm_ConnID meta" and ?evs = "result_events r"
  obtain s' where s': "m' = m(?conn \<mapsto> s')" "dirSeq c s' = dirSeq c (stateFor m ?conn) + of_nat (length ?evs)"
    "dirSeq (\<not> c) s' = dirSeq (\<not> c) (stateFor m ?conn)"
    and u: "map ev_UID ?evs = uid_seq ?conn (dirSeq c (stateFor m ?conn)) (length ?evs)"
    using assms(2) by (auto simp: call_ok_def Let_def)
  have n: "uids k d = uid_seq k 0 (length (uids k d))" "dirSeq d (stateFor m k) = of_nat (length (uids k d))" for k d
    using assms(1) unfolding numbered_def by blast+
  have c': "uids ?conn c @ map ev_UID ?evs = uid_seq ?conn 0 (length (uids ?conn c @ map ev_UID ?evs))"
    using n(1) [of ?conn c] u n(2) [of c ?conn] by (simp add: uid_seq_add)
  have st: "stateFor m' k = (if k = ?conn then s' else stateFor m k)" for k
    using s'(1) by (simp add: stateFor_def)
  show ?thesis
    unfolding numbered_def
  proof (intro allI conjI)
    fix k d
    let ?u = "log_uids uids ?conn c (map ev_UID ?evs)"
    have "?u k d = (if k = ?conn \<and> d = c then uids ?conn c @ map ev_UID ?evs else uids k d)"
      by (auto simp: log_uids_def)
    then show "?u k d = uid_seq k 0 (length (?u k d))"
      using c' n(1) by (metis (full_types))
    have "d = (\<not> c)" if "d \<noteq> c" using that by simp
    then show "dirSeq d (stateFor m' k) = of_nat (length (?u k d))"
      using s'(2,3) n(2) by (cases "k = ?conn"; cases "d = c") (simp_all add: st log_uids_def)
  qed
qed

lemma numbered_Close: "numbered m uids \<Longrightarrow> numbered (http_OnConnClose m conn) (uids(conn := (\<lambda>_. [])))"
  by (auto simp: numbered_def http_OnConnClose_def stateFor_def dirSeq_def uid_seq_def)

lemma numbered_Sweep:
  "numbered m uids \<Longrightarrow> numbered (http_gc now m) (\<lambda>k. if http_gc now m k = None then (\<lambda>_. []) else uids k)"
  by (auto simp: numbered_def http_gc_def stateFor_def dirSeq_def uid_seq_def split: option.splits if_splits)

lemma http_run_numbered:
  assumes "0 \<le> maxBody" "net_http_progress L" "numbered m uids"
  shows "\<exists>m' uids'. http_run L maxBody calls m uids = Some (m', uids') \<and> numbered m' uids'"
  using assms(3)
proof (induction calls arbitrary: m uids)
  case (Cons call calls)
  show ?case
  proof (cases call)
    case (HParse now data meta c)
    obtain m1 r where p: "http_Parse L maxBody now m data meta c = Some (m1, r)"
      using http_Parse_returns [OF assms(1,2)] by blast
    then have "call_ok maxBody now m meta c m1 r"
      using upon_returnD [OF http_Parse_call_ok [OF assms(1)]] by blast
    from Cons.IH [OF numbered_Parse [OF Cons.prems this]] p HParse show ?thesis by simp
  next
    case (HClose conn)
    have "\<exists>m' uids'. http_run L maxBody calls (http_OnConnClose m conn) (uids(conn := (\<lambda>_. []))) =
        Some (m', uids') \<and> numbered m' uids'"
      by (rule Cons.IH [OF numbered_Close [OF Cons.prems]])
    then show ?thesis unfolding HClose http_run.simps .
  next
    case (HSweep now)
    from Cons.IH [OF numbered_Sweep [OF Cons.prems, of now]] show ?thesis
      unfolding HSweep http_run.simps .
  qed
qed simp

section \<open>Properties\<close>

text \<open>A reader for concrete instances: a message is one byte, and a zero byte is malformed.\<close>

definition byte_http :: net_http where
  "byte_http =
     (let rd = (\<lambda>data. case data of
          [] \<Rightarrow> Inl EOF
        | b # rest \<Rightarrow>
            if b = 0 then Inl (OtherError ''malformed'')
            else Inr (\<lparr>msg_Method = ''GET'', msg_RequestURI = ''/'', msg_Host = [], msg_StatusCode = 200,
              msg_Header = Map.empty, msg_ContentLength = 0, msg_Body = [b], msg_BodyFails = False\<rparr>, rest))
      in \<lparr>ReadRequest = rd, ReadResponse = rd\<rparr>)"

lemma byte_http_progress: "net_http_progress byte_http"
  by (auto simp: net_http_progress_def http_read_def byte_http_def Let_def split: list.splits if_splits)

text \<open>
  C2: Requests and responses pair up. Take any sequence of \<^verbatim>\<open>Parse\<close> calls, on any connections, sides and
  segmentations of the data, with connections closing and the janitor sweeping in between. The run does
  not panic or hang, and on every connection the requests since its last close or eviction carry the identifiers numbered \<open>0, 1, 2, ...\<close> of the
  connection, and so do the responses: the \<open>i\<close>-th request and the \<open>i\<close>-th response have the same
  identifier.
\<close>

theorem http_uids_pair:
  assumes "net_http_progress L" "0 \<le> maxBody"
  shows "\<exists>m uids. http_run L maxBody calls Map.empty (\<lambda>_ _. []) = Some (m, uids) \<and>
    (\<forall>conn c. uids conn c = map (\<lambda>i. makeUID conn (of_nat i)) [0 ..< length (uids conn c)])"
proof -
  have "numbered Map.empty (\<lambda>_ _. [])"
    by (simp add: numbered_def uid_seq_def stateFor_def dirSeq_def)
  from http_run_numbered [OF assms(2,1) this, of calls] show ?thesis
    by (auto simp: numbered_def uid_seq_def)
qed

theorem http_uids_pair_witness:
  "\<exists>m uids. http_run byte_http 4
      [HParse 1 [65, 66] example_meta True, HParse 2 [67] example_meta False, HClose 1, HParse 3 [68] example_meta True, HSweep 1000]
      Map.empty (\<lambda>_ _. []) = Some (m, uids) \<and>
    (\<forall>conn c. uids conn c = map (\<lambda>i. makeUID conn (of_nat i)) [0 ..< length (uids conn c)])"
  by (rule http_uids_pair [OF byte_http_progress]) simp

text \<open>
  Identifiers are unique: two messages get the same identifier only if they have the same
  connection identifier and the same sequence number.
\<close>

lemma makeUID_injective: "makeUID c s = makeUID c' s' \<longleftrightarrow> c = c' \<and> s = s'"
proof
  assume eq: "makeUID c s = makeUID c' s'"
  have b: "unat w < 16 ^ 16" for w :: u64 using unsigned_less [of w] by simp
  have "hex_pad 16 (unat c) = hex_pad 16 (unat c')" "decimal (unat s) = decimal (unat s')"
    using eq by (simp_all add: makeUID_def)
  then have "unat c = unat c'" "unat s = unat s'"
    using hex_pad_inj [OF b b] decimal_inj by blast+
  then show "c = c' \<and> s = s'" by (simp add: word_unat_eq_iff)
qed simp

text \<open>
  One call of the HTTP parser: it returns; its events belong to the connection, carry at most the
  configured number of body bytes and the next identifiers of their side; the counters of the other side
  and of all other connections are untouched.
\<close>

lemma http_Parse_call:
  assumes "net_http_progress L"
  shows "\<exists>m' r. http_Parse L (NewHTTPParser maxBody) now m data meta c = Some (m', r) \<and>
    call_ok (NewHTTPParser maxBody) now m meta c m' r"
proof -
  have mb: "0 \<le> NewHTTPParser maxBody" by (simp add: NewHTTPParser_def)
  obtain m' r where "http_Parse L (NewHTTPParser maxBody) now m data meta c = Some (m', r)"
    using http_Parse_returns [OF mb assms] by blast
  with upon_returnD [OF http_Parse_call_ok [OF mb] this] show ?thesis by auto
qed

text \<open>
  The captured body is the longest prefix of the body within the limit, and it is marked as truncated
  exactly if bytes are missing from it, whether or not the stream ends with an error; with limit 0
  nothing is captured.
\<close>

lemma readBody_correct:
  assumes "0 \<le> maxBody"
  shows "\<exists>b t. readBody maxBody body fails = Some (b, t) \<and> b = take (nat maxBody) body \<and>
    (t \<longleftrightarrow> maxBody \<noteq> 0 \<and> b \<noteq> body)"
  using assms by (auto simp: readBody_eq)

text \<open>
  State does not leak: closing a connection forgets its counters and no others, and a sweep of the
  janitor forgets exactly the connections idle for more than 15 minutes.
\<close>

lemma http_state_released:
  "http_OnConnClose m conn conn = None \<and> dom (http_OnConnClose m conn) = dom m - {conn} \<and>
   dom (http_gc now m) = dom m - {k. \<exists>s. m k = Some s \<and> lastActivity s < now - 15 * 60 * 10 ^ 9} \<and>
   http_gc now m \<subseteq>\<^sub>m m \<and> http_OnConnClose m conn \<subseteq>\<^sub>m m"
  by (auto simp: http_OnConnClose_def http_gc_def connStateTTL_def map_le_def dom_def split: option.splits if_splits)

end
