(* ===== verification/Netcap.thy ===== *)
theory Netcap
  imports Dispatch Config Mysql Postgres Mongodb Mqtt Redis TextProtocols Unknown Ssh Websocket Dns Tls Http
begin

text \<open>
  The program's own parser registry (\<^verbatim>\<open>cmd/netcap/main.go\<close>, \<^verbatim>\<open>buildRegistry\<close>) and what the
  dispatcher does with it. The registry interprets the locale \<open>parser_registry\<close>, so the dispatcher's
  lemmas hold for the parsers that the program runs. \<open>L\<close> is the HTTP message reader of
  \<^verbatim>\<open>net/http\<close> and \<open>U\<close> the case tables of \<^verbatim>\<open>unicode\<close>.
\<close>

definition buildRegistry :: "net_http \<Rightarrow> unicode \<Rightarrow> Config \<Rightarrow> http_state Registry" where
  "buildRegistry L U cfg =
     (let reg = NewRegistry;
          maxQ = dbc_MaxQueryLength (pc_DB (cfg_Protocols cfg));
          reg = Register (http_parser L (hc_MaxBodyCapture (pc_HTTP (cfg_Protocols cfg)))) reg;
          reg = Register dns_parser reg;
          reg = Register tls_parser reg;
          reg = Register (mysql_parser maxQ) reg;
          reg = Register (pg_parser maxQ) reg;
          reg = Register (redis_parser U maxQ) reg;
          reg = Register (mongo_parser maxQ) reg;
          reg = Register (smtp_parser U) reg;
          reg = Register (ftp_parser U) reg;
          reg = Register (imap_parser U) reg;
          reg = Register (pop3_parser U) reg;
          reg = Register mqtt_parser reg;
          reg = Register (websocket_parser U) reg;
          reg = Register ssh_parser reg;
          reg = Register unknown_parser reg
      in reg)"

section \<open>The registered parsers\<close>

definition netcap_parsers :: "net_http \<Rightarrow> unicode \<Rightarrow> Config \<Rightarrow> http_state Parser list" where
  "netcap_parsers L U cfg =
     (let maxQ = dbc_MaxQueryLength (pc_DB (cfg_Protocols cfg))
      in [http_parser L (hc_MaxBodyCapture (pc_HTTP (cfg_Protocols cfg))), dns_parser, tls_parser,
          mysql_parser maxQ, pg_parser maxQ, redis_parser U maxQ, mongo_parser maxQ, smtp_parser U,
          ftp_parser U, imap_parser U, pop3_parser U, mqtt_parser, websocket_parser U, ssh_parser,
          unknown_parser])"

lemma buildRegistry_fold: "buildRegistry L U cfg = fold Register (netcap_parsers L U cfg) NewRegistry"
  by (simp add: buildRegistry_def netcap_parsers_def Let_def)

lemma all_buildRegistry [simp]: "all (buildRegistry L U cfg) = netcap_parsers L U cfg"
  by (simp add: buildRegistry_fold all_build NewRegistry_def)

lemmas safe_contract = safe_parser.axioms(1)

lemmas netcap_parser_defs = http_parser_def dns_parser_def tls_parser_def mysql_parser_def pg_parser_def
  redis_parser_def mongo_parser_def smtp_parser_def ftp_parser_def imap_parser_def pop3_parser_def
  mqtt_parser_def websocket_parser_def ssh_parser_def unknown_parser_def

lemma netcap_parsers_contract: "p \<in> set (netcap_parsers L U cfg) \<Longrightarrow> parser_contract p"
  using http_iface.parser_contract_axioms dns_iface.parser_contract_axioms tls_iface.parser_contract_axioms
    redis_iface.parser_contract_axioms websocket_iface.parser_contract_axioms
    safe_contract [OF mysql_iface.safe_parser_axioms] safe_contract [OF pg_iface.safe_parser_axioms]
    safe_contract [OF mongo_iface.safe_parser_axioms] safe_contract [OF smtp_iface.safe_parser_axioms]
    safe_contract [OF ftp_iface.safe_parser_axioms] safe_contract [OF imap_iface.safe_parser_axioms]
    safe_contract [OF pop3_iface.safe_parser_axioms] safe_contract [OF mqtt_iface.safe_parser_axioms]
    safe_contract [OF ssh_iface.safe_parser_axioms] safe_contract [OF unknown_iface.safe_parser_axioms]
  by (auto simp: netcap_parsers_def Let_def)

lemma registry_wf_buildRegistry: "registry_wf (buildRegistry L U cfg)"
  unfolding buildRegistry_fold by (intro registry_wf_build registry_wf_New)

interpretation netcap: parser_registry "buildRegistry L U cfg" for L U cfg
  by (rule parser_registry.intro) (simp_all add: registry_wf_buildRegistry netcap_parsers_contract)

text \<open>All parsers but three are safe; the HTTP and WebSocket parsers under their libraries' documented behaviour.\<close>

lemma http_safe: "net_http_progress L \<Longrightarrow> safe_parser (http_parser L maxBody)"
  using http_iface.parser_contract_axioms http_Parse_returns [of "NewHTTPParser maxBody" L]
  by (simp add: safe_parser_def safe_parser_axioms_def http_parser_def NewHTTPParser_def)

lemma websocket_safe:
  assumes "unicode_lower_ok U"
  shows "safe_parser (websocket_parser U)"
  using websocket_iface.parser_contract_axioms
    returns_not_panic [OF websocket_Parse_ok [OF assms]]
  by (simp add: safe_parser_def safe_parser_axioms_def websocket_parser_def stateless_def)

definition fragile :: "string set" where
  "fragile = {''dns'', ''tls'', ''redis''}"

lemma netcap_parsers_safe:
  assumes "net_http_progress L" "unicode_lower_ok U" "p \<in> set (netcap_parsers L U cfg)" "Name p \<notin> fragile"
  shows "safe_parser p"
  using assms(3,4) http_safe [OF assms(1)] websocket_safe [OF assms(2)]
    mysql_iface.safe_parser_axioms pg_iface.safe_parser_axioms mongo_iface.safe_parser_axioms
    smtp_iface.safe_parser_axioms ftp_iface.safe_parser_axioms imap_iface.safe_parser_axioms
    pop3_iface.safe_parser_axioms mqtt_iface.safe_parser_axioms ssh_iface.safe_parser_axioms
    unknown_iface.safe_parser_axioms
  by (auto simp: netcap_parsers_def Let_def fragile_def dns_parser_def tls_parser_def redis_parser_def)

lemma netcap_NotifyClose: "NotifyClose (buildRegistry L U cfg) connID st = http_OnConnClose st connID"
  by (simp add: NotifyClose_def netcap_parsers_def Let_def netcap_parser_defs)

lemma portParsers_buildRegistry:
  "portParsers (buildRegistry L U cfg) port =
     concat (map (\<lambda>p. replicate (count_list (Ports p) port) p) (netcap_parsers L U cfg))"
  using registry_wf_buildRegistry [of L U cfg] by (simp add: registry_wf_def)

text \<open>The ports that some parser declares, and those that several do.\<close>

definition declared_ports :: "u16 list" where
  "declared_ports = [80, 8080, 8000, 8888, 3000, 53, 5353, 443, 8443, 993, 995, 465, 636, 3306, 33060, 5432,
     6379, 6380, 27017, 27018, 27019, 25, 587, 21, 143, 110, 1883, 8883, 22]"

definition shared_ports :: "u16 list" where
  "shared_ports = [80, 443, 993, 995, 8080]"

lemma declared_ports_complete:
  "set (concat (map Ports (netcap_parsers L U cfg))) = set declared_ports"
  by (auto simp: netcap_parsers_def Let_def netcap_parser_defs declared_ports_def)

lemma portParsers_undeclared:
  assumes "port \<notin> set declared_ports"
  shows "portParsers (buildRegistry L U cfg) port = []"
  using assms declared_ports_complete [of L U cfg]
  by (auto simp: portParsers_buildRegistry count_list_0_iff)

lemma shared_ports_declared:
  "\<forall>port \<in> set declared_ports. 1 \<le> length (portParsers (buildRegistry L U cfg) port) \<and>
     (2 \<le> length (portParsers (buildRegistry L U cfg) port) \<longleftrightarrow> port \<in> set shared_ports)"
  by (simp add: declared_ports_def shared_ports_def portParsers_buildRegistry netcap_parsers_def Let_def
      netcap_parser_defs)

lemma several_parsers_iff:
  "2 \<le> length (portParsers (buildRegistry L U cfg) port) \<longleftrightarrow> port \<in> set shared_ports"
  "portParsers (buildRegistry L U cfg) port = [] \<longleftrightarrow> port \<notin> set declared_ports"
proof -
  have "set shared_ports \<subseteq> set declared_ports" by (simp add: shared_ports_def declared_ports_def)
  then show "2 \<le> length (portParsers (buildRegistry L U cfg) port) \<longleftrightarrow> port \<in> set shared_ports"
    "portParsers (buildRegistry L U cfg) port = [] \<longleftrightarrow> port \<notin> set declared_ports"
    using shared_ports_declared [of L U cfg] portParsers_undeclared [of port L U cfg]
    by (cases "port \<in> set declared_ports"; force)+
qed

lemma score_nonneg: "p \<in> set (netcap_parsers L U cfg) \<Longrightarrow> 0 \<le> score p sample c"
  using parser_contract.probe_range [OF netcap_parsers_contract, of p L U cfg sample c]
  by (auto simp: score_def)

lemma unknown_scores: "sample \<noteq> [] \<Longrightarrow> score unknown_parser sample c = 1"
  by (simp add: score_def unknown_parser_def unknown_Probe_def)

section \<open>Properties\<close>

text \<open>Unicode tables and a message for concrete instances: a client's SSH greeting on port 22.\<close>

definition example_unicode :: unicode where
  "example_unicode = \<lparr>uniUpper = id, uniLower = id\<rparr>"

lemma example_unicode_ok: "unicode_lower_ok example_unicode"
  by (auto simp: unicode_lower_ok_def example_unicode_def dest: prefix_length_le)

definition example_message :: "bool \<Rightarrow> StreamData" where
  "example_message closed =
     \<lparr>sd_Net = \<lparr>flow_Src = [10, 0, 0, 1], flow_Dst = [10, 0, 0, 2]\<rparr>,
      sd_Transport = \<lparr>flow_Src = [156, 64], flow_Dst = [0, 22]\<rparr>,
      sd_Data = bytes_of ''SSH-2.0-x'', sd_IsClient = True, sd_Timestamp = 5,
      sd_ConnMeta = \<lparr>sm_SrcIP = ''10.0.0.1'', sm_DstIP = ''10.0.0.2'', sm_SrcPort = 40000, sm_DstPort = 22,
        sm_ConnID = 9\<rparr>,
      sd_Closed = closed\<rparr>"

definition example_dispatcher :: "http_state Dispatcher" where
  "example_dispatcher = \<lparr>parserState = [9 \<mapsto> stateFor Map.empty 9], emitted = []\<rparr>"

lemma netcap_parsers_ports: "p \<in> set (netcap_parsers L U cfg) \<Longrightarrow> distinct (Ports p)"
  by (auto simp: netcap_parsers_def Let_def netcap_parser_defs)

theorem Resolve_refines_witness:
  "Resolve (fold Register (netcap_parsers byte_http example_unicode Defaults) NewRegistry) 40000 443 [1, 2] True =
     Some (resolve_spec (netcap_parsers byte_http example_unicode Defaults) 40000 443 [1, 2] True)"
  by (rule Resolve_refines) (use netcap_parsers_ports netcap.probes_return in fastforce)

text \<open>
  C6: The dispatcher survives every input outside three parsers. Take the program's registry, any
  interleaving of reassembled TCP messages and UDP packets and any timing of the sends. If no message
  resolves to the DNS, TLS or Redis parser, the run does not panic; it only appends events, and each of
  them is tagged with the name of a registered parser and the addresses and ports of a message of the run.
\<close>

theorem dispatcher_survives:
  assumes "net_http_progress L" "unicode_lower_ok U"
    and "\<forall>j \<in> set js. \<forall>p. job_resolve (buildRegistry L U cfg) (snd (snd j)) = Some (Some p) \<longrightarrow>
           Name p \<notin> {''dns'', ''tls'', ''redis''}"
  shows "\<exists>d' new. dispatch_run (buildRegistry L U cfg) js d = Some d' \<and> emitted d' = emitted d @ new \<and>
    (\<forall>e \<in> set new. \<exists>j \<in> set js. \<exists>p \<in> set (all (buildRegistry L U cfg)).
       tagged (Name p) (job_meta (snd (snd j))) e)"
proof -
  have "safe_parser p"
    if "j \<in> set js" "job_resolve (buildRegistry L U cfg) (snd (snd j)) = Some (Some p)"
      "p \<in> set (all (buildRegistry L U cfg))" for j p
    using netcap_parsers_safe [OF assms(1,2)] assms(3) that by (auto simp: fragile_def)
  then have "\<exists>d'. dispatch_run (buildRegistry L U cfg) js d = Some d'"
    by (rule netcap.run_returns)
  then obtain d' where d': "dispatch_run (buildRegistry L U cfg) js d = Some d'" ..
  from netcap.run_tagged [OF d'] show ?thesis
    by (intro exI [of _ d']) (auto simp: d')
qed

lemma example_message_ssh:
  "job_resolve (buildRegistry L U cfg) (TCPJob (example_message False)) = Some (Some ssh_parser)"
  by (simp add: Resolve_def example_message_def portParsers_buildRegistry netcap_parsers_def Let_def
      netcap_parser_defs go_index_def)

theorem dispatcher_survives_witness:
  "\<exists>d' new. dispatch_run (buildRegistry byte_http example_unicode Defaults)
      [(3, \<lambda>i. True, TCPJob (example_message False))] example_dispatcher = Some d' \<and>
    emitted d' = emitted example_dispatcher @ new \<and>
    (\<forall>e \<in> set new. \<exists>j \<in> set [(3 :: int, \<lambda>i :: nat. True, TCPJob (example_message False))].
       \<exists>p \<in> set (all (buildRegistry byte_http example_unicode Defaults)). tagged (Name p) (job_meta (snd (snd j))) e)"
  by (rule dispatcher_survives [OF byte_http_progress example_unicode_ok])
    (simp add: example_message_ssh del: job_resolve.simps, simp add: ssh_parser_def)

text \<open>
  A close marker reaches the parsers. Whatever the state, handling a closed message of a connection
  makes the registry forget that connection's request and response counters, leaves the counters of
  every other connection alone and emits no event.
\<close>

lemma close_marker_releases:
  assumes "sd_Closed sd"
  shows "\<exists>d'. run_job (buildRegistry L U cfg) (now, sends, TCPJob sd) d = Some d' \<and> emitted d' = emitted d \<and>
    parserState d' (sm_ConnID (sd_ConnMeta sd)) = None \<and>
    (\<forall>conn. conn \<noteq> sm_ConnID (sd_ConnMeta sd) \<longrightarrow> parserState d' conn = parserState d conn)"
  using assms by (simp add: handleTCP_def netcap_NotifyClose http_OnConnClose_def)

text \<open>
  C18: The fallback parser and its limits. A non-empty payload is left without a parser exactly if its
  connection is looked up under one of the ports 80, 443, 993, 995 and 8080 that several parsers share, and
  each of those parsers gives it the score 0. The ports that count are those of the destination, or those of
  the source if no parser declares the destination's. On all other ports every payload gets a parser.
\<close>

theorem Resolve_fallback:
  assumes "sample \<noteq> []"
  shows "Resolve (buildRegistry L U cfg) srcPort dstPort sample c = Some None \<longleftrightarrow>
    (let port = (if dstPort \<in> set declared_ports then dstPort else srcPort)
     in port \<in> {80, 443, 993, 995, 8080} \<and>
        (\<forall>p \<in> set (portParsers (buildRegistry L U cfg) port). Probe p sample c = Some 0))"
proof -
  let ?r = "buildRegistry L U cfg" and ?port = "if dstPort \<in> set declared_ports then dstPort else srcPort"
  let ?ps = "portParsers ?r ?port"
  have ps: "port_candidates ?r srcPort dstPort = ?ps"
    using several_parsers_iff(2) [of L U cfg dstPort] by (simp add: port_candidates_def)
  have reg: "set ?ps \<subseteq> set (netcap_parsers L U cfg)"
    using portParsers_registered [OF registry_wf_buildRegistry, of L U cfg ?port] by simp
  have unk: "unknown_parser \<in> set (netcap_parsers L U cfg)" by (simp add: netcap_parsers_def Let_def)
  have "\<exists>b. Resolve ?r srcPort dstPort sample c = Some b \<and>
      (let ps = port_candidates ?r srcPort dstPort
       in if length ps = 1 then b = Some (hd ps) else first_best (if ps = [] then all ?r else ps) sample c b)"
    by (rule Resolve_returns [OF registry_wf_buildRegistry netcap.probes_return])
  then obtain b where b: "Resolve ?r srcPort dstPort sample c = Some b"
    and spec: "if length ?ps = 1 then b = Some (hd ?ps)
      else first_best (if ?ps = [] then netcap_parsers L U cfg else ?ps) sample c b"
    unfolding ps Let_def all_buildRegistry by blast
  have zero: "score p sample c \<le> 0 \<longleftrightarrow> Probe p sample c = Some 0" if "p \<in> set (netcap_parsers L U cfg)" for p
    using parser_contract.probe_range [OF netcap_parsers_contract [OF that], of sample c]
    by (auto simp: score_def)
  have many: "2 \<le> length ?ps \<longleftrightarrow> ?port \<in> {80, 443, 993, 995, 8080}"
    using several_parsers_iff(1) [of L U cfg ?port] by (simp add: shared_ports_def)
  show ?thesis
  proof (cases "2 \<le> length ?ps")
    case True
    then have "first_best ?ps sample c b" using spec by (auto split: if_splits)
    then have "b = None \<longleftrightarrow> (\<forall>p \<in> set ?ps. score p sample c \<le> 0)"
      by (cases b) (auto simp: first_best_def)
    then show ?thesis using True many b reg zero by (auto simp: Let_def subset_iff)
  next
    case False
    have "b \<noteq> None"
    proof (cases ?ps)
      case Nil
      have "first_best (netcap_parsers L U cfg) sample c b" using spec unfolding Nil by simp
      moreover have "\<not> score (unknown_parser :: http_state Parser) sample c \<le> 0"
        by (simp add: unknown_scores [OF assms])
      ultimately show ?thesis using unk by (cases b) (auto simp: first_best_def)
    next
      case (Cons q qs)
      then show ?thesis using False spec by (cases qs) auto
    qed
    then show ?thesis using False many b by (auto simp: Let_def)
  qed
qed

theorem Resolve_fallback_witness:
  "Resolve (buildRegistry byte_http example_unicode Defaults) 40000 443 [1, 2] True = Some None \<longleftrightarrow>
    (let port = (if (443 :: u16) \<in> set declared_ports then 443 else 40000)
     in port \<in> {80, 443, 993, 995, 8080} \<and>
        (\<forall>p \<in> set (portParsers (buildRegistry byte_http example_unicode Defaults) port). Probe p [1, 2] True = Some 0))"
  by (rule Resolve_fallback) simp

end
