(* ===== verification/Json.thy ===== *)
theory Json
  imports GoStrings "HOL-Library.List_Lexorder"
begin

text \<open>
  What the program uses of Go's \<^verbatim>\<open>encoding/json\<close>, \<^verbatim>\<open>encoding/base64\<close> and \<^verbatim>\<open>unicode/utf8\<close> to
  serialize events (\<^verbatim>\<open>internal/output/serializer.go\<close> calls \<^verbatim>\<open>json.Marshal\<close>).

  \<^item> \<open>json\<close> is a JSON value, objects with their members in order; \<open>json_print\<close> is the compact text that
    \<^verbatim>\<open>json.Marshal\<close> writes. \<open>appendString\<close> is its string encoder: HTML characters and control
    characters are escaped, every byte that is not part of a UTF-8 sequence becomes U+FFFD.
  \<^item> \<open>omitempty\<close> and the field functions build the members of a struct.
  \<^item> \<open>json_parse\<close> is a reader of compact JSON texts, the reference for what a consumer sees. It
    has fuel; \<open>json_parse_print\<close> shows that the length of the text is enough.
  \<^item> The lemmas: printing is inverted by reading, up to the replacement of invalid bytes;
    base64 round-trips; a map is recovered from its sorted members.
\<close>

section \<open>UTF-8\<close>

definition code :: "char \<Rightarrow> nat" where
  "code c = of_char c"

definition isCont :: "char \<Rightarrow> bool" where
  "isCont c \<longleftrightarrow> 0x80 \<le> code c \<and> code c \<le> 0xBF"

text \<open>
  The tables of \<^verbatim>\<open>unicode/utf8\<close>: the number of bytes that a lead byte announces (0 for an invalid one) and
  the range of the second byte.
\<close>

definition utf8_lead :: "char \<Rightarrow> nat \<times> nat \<times> nat" where
  "utf8_lead a =
     (if code a < 0x80 then (1, 0, 0)
      else if code a < 0xC2 then (0, 0, 0)
      else if code a \<le> 0xDF then (2, 0x80, 0xBF)
      else if code a = 0xE0 then (3, 0xA0, 0xBF)
      else if code a = 0xED then (3, 0x80, 0x9F)
      else if code a \<le> 0xEF then (3, 0x80, 0xBF)
      else if code a = 0xF0 then (4, 0x90, 0xBF)
      else if code a \<le> 0xF3 then (4, 0x80, 0xBF)
      else if code a = 0xF4 then (4, 0x80, 0x8F)
      else (0, 0, 0))"

text \<open>
  The size that \<^verbatim>\<open>utf8.DecodeRuneInString\<close> reports for the rune at the start of a string, and 0
  where it reports \<^verbatim>\<open>(RuneError, 1)\<close> or the string is empty.
\<close>

fun rune_size :: "string \<Rightarrow> nat" where
  "rune_size [] = 0"
| "rune_size (a # s) =
     (case utf8_lead a of (n, lo, hi) \<Rightarrow>
        if n \<le> 1 then n
        else if length s < n - 1 then 0
        else if lo \<le> code (hd s) \<and> code (hd s) \<le> hi \<and> list_all isCont (take (n - 2) (tl s)) then n
        else 0)"

text \<open>The encoding of U+FFFD, and that of the line separators U+2028 and U+2029.\<close>

definition replacement :: string where
  "replacement = map (char_of :: nat \<Rightarrow> char) [0xEF, 0xBF, 0xBD]"

definition line_separator :: string where
  "line_separator = map (char_of :: nat \<Rightarrow> char) [0xE2, 0x80, 0xA8]"

definition paragraph_separator :: string where
  "paragraph_separator = map (char_of :: nat \<Rightarrow> char) [0xE2, 0x80, 0xA9]"

text \<open>A string with every invalid byte replaced, and the strings that this leaves alone.\<close>

function toValid :: "string \<Rightarrow> string" where
  "toValid [] = []"
| "toValid (c # s) =
     (if rune_size (c # s) = 0 then replacement @ toValid s
      else take (rune_size (c # s)) (c # s) @ toValid (drop (rune_size (c # s)) (c # s)))"
  by pat_completeness auto
termination
  by (relation "measure length") (auto simp del: rune_size.simps)

function validUTF8 :: "string \<Rightarrow> bool" where
  "validUTF8 [] = True"
| "validUTF8 (c # s) =
     (if rune_size (c # s) = 0 then False else validUTF8 (drop (rune_size (c # s)) (c # s)))"
  by pat_completeness auto
termination
  by (relation "measure length") (auto simp del: rune_size.simps)

declare toValid.simps(2) [simp del] validUTF8.simps(2) [simp del]

section \<open>Strings\<close>

definition htmlSafe :: "char \<Rightarrow> bool" where
  "htmlSafe c \<longleftrightarrow> 0x20 \<le> code c \<and> c \<notin> set [CHR 0x22, CHR 0x5C, CHR ''<'', CHR ''>'', CHR ''&'']"

definition escape_byte :: "char \<Rightarrow> string" where
  "escape_byte c =
     (if htmlSafe c then [c]
      else if c = CHR 0x5C \<or> c = CHR 0x22 then [CHR 0x5C, c]
      else if code c = 8 then [CHR 0x5C, CHR ''b'']
      else if code c = 12 then [CHR 0x5C, CHR ''f'']
      else if code c = 10 then [CHR 0x5C, CHR ''n'']
      else if code c = 13 then [CHR 0x5C, CHR ''r'']
      else if code c = 9 then [CHR 0x5C, CHR ''t'']
      else [CHR 0x5C, CHR ''u'', CHR ''0'', CHR ''0'', hex_digit (code c div 16), hex_digit (code c mod 16)])"

function escape :: "string \<Rightarrow> string" where
  "escape [] = []"
| "escape (c # s) =
     (if code c < 0x80 then escape_byte c @ escape s
      else if rune_size (c # s) = 0 then CHR 0x5C # ''ufffd'' @ escape s
      else (if take (rune_size (c # s)) (c # s) = line_separator then CHR 0x5C # ''u2028''
            else if take (rune_size (c # s)) (c # s) = paragraph_separator then CHR 0x5C # ''u2029''
            else take (rune_size (c # s)) (c # s))
           @ escape (drop (rune_size (c # s)) (c # s)))"
  by pat_completeness auto
termination
  by (relation "measure length") (auto simp del: rune_size.simps)

declare escape.simps(2) [simp del]

definition appendString :: "string \<Rightarrow> string" where
  "appendString s = CHR 0x22 # escape s @ [CHR 0x22]"

section \<open>Base64\<close>

definition base64_alphabet :: string where
  "base64_alphabet = ''ABCDEFGHIJKLMNOPQRSTUVWXYZabcdefghijklmnopqrstuvwxyz0123456789+/''"

definition sextet :: "nat \<Rightarrow> char" where
  "sextet i = base64_alphabet ! (i mod 64)"

text \<open>\<^verbatim>\<open>base64.StdEncoding\<close>: three bytes are four characters, the rest is padded.\<close>

fun base64 :: "bytes \<Rightarrow> string" where
  "base64 [] = []"
| "base64 [a] = (let v = unat a * 65536 in [sextet (v div 262144), sextet (v div 4096), CHR ''='', CHR ''=''])"
| "base64 [a, b] =
     (let v = unat a * 65536 + unat b * 256
      in [sextet (v div 262144), sextet (v div 4096), sextet (v div 64), CHR ''=''])"
| "base64 (a # b # c # r) =
     (let v = unat a * 65536 + unat b * 256 + unat c
      in [sextet (v div 262144), sextet (v div 4096), sextet (v div 64), sextet v] @ base64 r)"

section \<open>Values\<close>

datatype json = JNull | JBool bool | JInt int | JString string | JArray "json list" | JObject "(string \<times> json) list"

fun json_print :: "json \<Rightarrow> string" where
  "json_print JNull = ''null''"
| "json_print (JBool b) = (if b then ''true'' else ''false'')"
| "json_print (JInt i) = Itoa i"
| "json_print (JString s) = appendString s"
| "json_print (JArray xs) = ''['' @ Join (map json_print xs) '','' @ '']''"
| "json_print (JObject ms) = ''{'' @ Join (map (\<lambda>(k, v). appendString k @ '':'' @ json_print v) ms) '','' @ ''}''"

text \<open>
  The members of a struct. A \<^verbatim>\<open>[]byte\<close> is base64 text and \<^verbatim>\<open>null\<close> when it is nil (the empty list of
  the model is the nil slice); a map is an object with its keys in increasing order.
\<close>

definition json_bytes :: "bytes \<Rightarrow> json" where
  "json_bytes b = (if b = [] then JNull else JString (base64 b))"

definition json_map :: "(string \<rightharpoonup> string) \<Rightarrow> json" where
  "json_map m = JObject (map (\<lambda>k. (k, JString (the (m k)))) (sorted_list_of_set (dom m)))"

definition omitempty :: "bool \<Rightarrow> string \<Rightarrow> json \<Rightarrow> (string \<times> json) list" where
  "omitempty isEmpty k v = (if isEmpty then [] else [(k, v)])"

section \<open>Reading\<close>

text \<open>The UTF-8 encoding of a code point below \<open>2 ^ 16\<close>, which is what \<^verbatim>\<open>\u\<close> escapes denote.\<close>

definition utf8_encode :: "nat \<Rightarrow> string" where
  "utf8_encode n = map (char_of :: nat \<Rightarrow> char)
     (if n < 0x80 then [n]
      else if n < 0x800 then [0xC0 + n div 64, 0x80 + n mod 64]
      else [0xE0 + n div 4096, 0x80 + n div 64 mod 64, 0x80 + n mod 64])"

definition hex_value :: "char \<Rightarrow> nat option" where
  "hex_value c =
     (if CHR ''0'' \<le> c \<and> c \<le> CHR ''9'' then Some (code c - 48)
      else if CHR ''a'' \<le> c \<and> c \<le> CHR ''f'' then Some (code c - 87) else None)"

definition unescape :: "char \<Rightarrow> char option" where
  "unescape c = map_of
     [(CHR 0x22, CHR 0x22), (CHR 0x5C, CHR 0x5C), (CHR ''/'', CHR ''/''), (CHR ''b'', CHR 0x08), (CHR ''f'', CHR 0x0C),
      (CHR ''n'', CHR 0x0A), (CHR ''r'', CHR 0x0D), (CHR ''t'', CHR 0x09)] c"

definition read_hex4 :: "char \<Rightarrow> char \<Rightarrow> char \<Rightarrow> char \<Rightarrow> string option" where
  "read_hex4 a b c d = do {
     a \<leftarrow> hex_value a; b \<leftarrow> hex_value b; c \<leftarrow> hex_value c; d \<leftarrow> hex_value d;
     Some (utf8_encode (4096 * a + 256 * b + 16 * c + d)) }"

text \<open>The rest of a string literal after its opening quote: its content and what follows.\<close>

fun read_string :: "string \<Rightarrow> (string \<times> string) option" where
  "read_string [] = None"
| "read_string (c # s) =
     (if c = CHR 0x22 then Some ([], s)
      else if c = CHR 0x5C then
        (case s of
           [] \<Rightarrow> None
         | e # s \<Rightarrow>
             if e = CHR ''u'' then
               (case s of
                  h1 # h2 # h3 # h4 # s \<Rightarrow> do { r \<leftarrow> read_hex4 h1 h2 h3 h4; (t, s) \<leftarrow> read_string s; Some (r @ t, s) }
                | _ \<Rightarrow> None)
             else do { r \<leftarrow> unescape e; (t, s) \<leftarrow> read_string s; Some (r # t, s) })
      else do { (t, s) \<leftarrow> read_string s; Some (c # t, s) })"

definition isDigit :: "char \<Rightarrow> bool" where
  "isDigit c \<longleftrightarrow> CHR ''0'' \<le> c \<and> c \<le> CHR ''9''"

definition read_int :: "string \<Rightarrow> (json \<times> string) option" where
  "read_int s =
     (let neg = (s \<noteq> [] \<and> hd s = CHR ''-''); s = (if neg then tl s else s); ds = takeWhile isDigit s
      in if ds = [] then None
         else do { n \<leftarrow> parse_decimal ds 0; Some (JInt (if neg then - int n else int n), dropWhile isDigit s) })"

definition read_word :: "string \<Rightarrow> json \<Rightarrow> string \<Rightarrow> (json \<times> string) option" where
  "read_word w j s = (if prefix w s then Some (j, drop (length w) s) else None)"

text \<open>
  Values, and the rest of an array or object after an opening bracket or a comma. The first argument
  is fuel, one unit per call.
\<close>

fun read_value :: "nat \<Rightarrow> string \<Rightarrow> (json \<times> string) option"
  and read_elems :: "nat \<Rightarrow> string \<Rightarrow> (json list \<times> string) option"
  and read_members :: "nat \<Rightarrow> string \<Rightarrow> ((string \<times> json) list \<times> string) option" where
  "read_value 0 s = None"
| "read_value (Suc n) s =
     (case s of
        [] \<Rightarrow> None
      | c # r \<Rightarrow>
          if c = CHR 0x22 then do { (t, r) \<leftarrow> read_string r; Some (JString t, r) }
          else if c = CHR ''['' then
            (if r \<noteq> [] \<and> hd r = CHR '']'' then Some (JArray [], tl r)
             else do { (xs, r) \<leftarrow> read_elems n r; Some (JArray xs, r) })
          else if c = CHR ''{'' then
            (if r \<noteq> [] \<and> hd r = CHR ''}'' then Some (JObject [], tl r)
             else do { (ms, r) \<leftarrow> read_members n r; Some (JObject ms, r) })
          else if c = CHR ''n'' then read_word ''null'' JNull s
          else if c = CHR ''t'' then read_word ''true'' (JBool True) s
          else if c = CHR ''f'' then read_word ''false'' (JBool False) s
          else read_int s)"
| "read_elems 0 s = None"
| "read_elems (Suc n) s = do {
     (x, s) \<leftarrow> read_value n s;
     case s of
       c # r \<Rightarrow> if c = CHR '']'' then Some ([x], r)
                else if c = CHR '','' then do { (xs, r) \<leftarrow> read_elems n r; Some (x # xs, r) }
                else None
     | [] \<Rightarrow> None }"
| "read_members 0 s = None"
| "read_members (Suc n) s =
     (case s of
        c # r \<Rightarrow>
          if c = CHR 0x22 then do {
            (k, r) \<leftarrow> read_string r;
            if r \<noteq> [] \<and> hd r = CHR '':'' then do {
              (x, s) \<leftarrow> read_value n (tl r);
              case s of
                c # r \<Rightarrow> if c = CHR ''}'' then Some ([(k, x)], r)
                         else if c = CHR '','' then do { (ms, r) \<leftarrow> read_members n r; Some ((k, x) # ms, r) }
                         else None
              | [] \<Rightarrow> None }
            else None }
          else None
      | [] \<Rightarrow> None)"

definition json_parse :: "string \<Rightarrow> json option" where
  "json_parse s = (case read_value (length s) s of Some (j, []) \<Rightarrow> Some j | _ \<Rightarrow> None)"

definition sextet_value :: "char \<Rightarrow> nat option" where
  "sextet_value c = (case find (\<lambda>i. base64_alphabet ! i = c) [0 ..< 64] of None \<Rightarrow> None | Some i \<Rightarrow> Some i)"

fun base64_decode :: "string \<Rightarrow> bytes option" where
  "base64_decode [] = Some []"
| "base64_decode (a # b # c # d # s) = do {
     x \<leftarrow> sextet_value a; y \<leftarrow> sextet_value b;
     if c = CHR ''='' \<and> d = CHR ''='' \<and> s = [] then Some [of_nat (4 * x + y div 16)]
     else do {
       z \<leftarrow> sextet_value c;
       if d = CHR ''='' \<and> s = [] then Some [of_nat (4 * x + y div 16), of_nat (y mod 16 * 16 + z div 4)]
       else do {
         w \<leftarrow> sextet_value d; r \<leftarrow> base64_decode s;
         Some (of_nat (4 * x + y div 16) # of_nat (y mod 16 * 16 + z div 4) # of_nat (z mod 4 * 64 + w) # r) } } }"
| "base64_decode _ = None"

section \<open>Lemmas: UTF-8 and strings\<close>

lemma code_less [simp]: "code c < 256"
  unfolding code_def by (metis char_of_char mod_less_divisor of_char_of zero_less_numeral)

lemma code_char_of [simp]: "n < 256 \<Longrightarrow> code (char_of n) = n"
  by (simp add: code_def of_char_of)

lemma char_of_code [simp]: "char_of (code c) = c"
  by (simp add: code_def)

lemma utf8_lead_range: "utf8_lead a = (n, lo, hi) \<Longrightarrow> 1 < n \<Longrightarrow> 0x80 \<le> lo"
  by (auto simp: utf8_lead_def split: if_splits)

lemma utf8_lead_ascii [simp]: "code c < 0x80 \<Longrightarrow> utf8_lead c = (1, 0, 0)"
  by (simp add: utf8_lead_def)

lemma toValid_ascii: "code c < 0x80 \<Longrightarrow> toValid (c # s) = c # toValid s"
  by (simp add: toValid.simps)

lemma rune_tail_high:
  assumes "c \<in> set (take (rune_size (a # s) - 1) s)"
  shows "0x80 \<le> code c"
proof -
  obtain n lo hi where l: "utf8_lead a = (n, lo, hi)" by (metis prod.exhaust)
  with assms have n: "1 < n" "rune_size (a # s) = n" "s \<noteq> []" "lo \<le> code (hd s)" "list_all isCont (take (n - 2) (tl s))"
    by (auto split: if_splits)
  then have "take (n - 1) s = hd s # take (n - 2) (tl s)"
    by (cases s) (auto simp: take_Cons' numeral_2_eq_2)
  with assms n utf8_lead_range [OF l n(1)] show ?thesis
    by (auto simp: list_all_iff isCont_def simp del: rune_size.simps)
qed

lemma rune_high: "0x80 \<le> code a \<Longrightarrow> c \<in> set (take (rune_size (a # s)) (a # s)) \<Longrightarrow> 0x80 \<le> code c"
  using rune_tail_high [of c a s] by (cases "rune_size (a # s)") auto

lemma toValid_valid: "validUTF8 s \<Longrightarrow> toValid s = s"
  by (induction s rule: validUTF8.induct) (auto simp: validUTF8.simps(2) toValid.simps(2) simp del: rune_size.simps)

lemma validUTF8_ascii: "isASCII s \<Longrightarrow> validUTF8 s"
  by (induction s) (auto simp: isASCII_def validUTF8.simps(2) code_def)

lemma hex_value_digit: "d < 16 \<Longrightarrow> hex_value (hex_digit d) = Some d"
proof -
  have "list_all (\<lambda>d. hex_value (hex_digit d) = Some d) [0 ..< 16]" by code_simp
  then show "d < 16 \<Longrightarrow> hex_value (hex_digit d) = Some d" by (simp add: list_all_iff)
qed

text \<open>Reading a prefix that denotes \<open>t\<close>.\<close>

definition denotes :: "string \<Rightarrow> string \<Rightarrow> bool" where
  "denotes p t \<longleftrightarrow> (\<forall>r u s. read_string r = Some (u, s) \<longrightarrow> read_string (p @ r) = Some (t @ u, s))"

lemma denotes_append: "denotes p t \<Longrightarrow> denotes q u \<Longrightarrow> denotes (p @ q) (t @ u)"
  by (simp add: denotes_def)

lemma denotes_if: "(b \<Longrightarrow> denotes p t) \<Longrightarrow> (\<not> b \<Longrightarrow> denotes q t) \<Longrightarrow> denotes (if b then p else q) t"
  by simp

lemma denotes_char: "c \<noteq> CHR 0x22 \<Longrightarrow> c \<noteq> CHR 0x5C \<Longrightarrow> denotes [c] [c]"
  by (simp add: denotes_def)

lemma denotes_chars: "\<forall>c \<in> set p. c \<noteq> CHR 0x22 \<and> c \<noteq> CHR 0x5C \<Longrightarrow> denotes p p"
proof (induction p)
  case (Cons c p)
  then show ?case using denotes_append [OF denotes_char [of c], of p p] by simp
qed (simp add: denotes_def)

lemma denotes_unescape: "unescape e = Some c \<Longrightarrow> e \<noteq> CHR ''u'' \<Longrightarrow> denotes [CHR 0x5C, e] [c]"
  by (simp add: denotes_def)

lemma denotes_hex: "read_hex4 a b c d = Some t \<Longrightarrow> denotes (CHR 0x5C # CHR ''u'' # [a, b, c, d]) t"
  by (simp add: denotes_def)

lemma high_not_special: "0x80 \<le> code c \<Longrightarrow> c \<noteq> CHR 0x22 \<and> c \<noteq> CHR 0x5C"
  by (auto simp: code_def)

lemma code_eq: "code c = n \<Longrightarrow> c = char_of n"
  using char_of_code [of c] by simp

lemma read_hex4_00:
  assumes "code c < 0x80"
  shows "read_hex4 (CHR ''0'') (CHR ''0'') (hex_digit (code c div 16)) (hex_digit (code c mod 16)) = Some [c]"
proof -
  have "hex_value (CHR ''0'') = Some 0" by code_simp
  with assms show ?thesis
    by (simp add: read_hex4_def hex_value_digit utf8_encode_def)
qed

lemma escape_byte_denotes:
  assumes "code c < 0x80"
  shows "denotes (escape_byte c) [c]"
proof -
  have u: "unescape (CHR 0x22) = Some (CHR 0x22)" "unescape (CHR 0x5C) = Some (CHR 0x5C)"
    "unescape (CHR ''b'') = Some (char_of (8 :: nat))" "unescape (CHR ''f'') = Some (char_of (12 :: nat))"
    "unescape (CHR ''n'') = Some (char_of (10 :: nat))" "unescape (CHR ''r'') = Some (char_of (13 :: nat))"
    "unescape (CHR ''t'') = Some (char_of (9 :: nat))"
    by code_simp+
  have x: "denotes [CHR 0x5C, CHR ''u'', CHR ''0'', CHR ''0'', hex_digit (code c div 16), hex_digit (code c mod 16)] [c]"
    using denotes_hex [OF read_hex4_00 [OF assms]] .
  have h: "denotes [c] [c]" if "htmlSafe c"
    using that by (intro denotes_char) (simp_all add: htmlSafe_def)
  have e: "denotes [CHR 0x5C, e] [c]" if "e \<noteq> CHR ''u''" "unescape e = Some (char_of n)" "code c = n" for n e
    using that(1,2) code_eq [OF that(3)] by (intro denotes_unescape) simp_all
  have q: "denotes [CHR 0x5C, c] [c]" if "c = CHR 0x5C \<or> c = CHR 0x22"
    using that u(1,2) by (intro denotes_unescape) auto
  show ?thesis
    unfolding escape_byte_def
    by (intro denotes_if h q x e [OF _ u(3)] e [OF _ u(4)] e [OF _ u(5)] e [OF _ u(6)] e [OF _ u(7)]) simp_all
qed

lemma escape_denotes: "denotes (escape s) (toValid s)"
proof (induction s rule: escape.induct)
  case (2 c s)
  let ?n = "rune_size (c # s)"
  have v: "hex_value (CHR ''f'') = Some 15" "hex_value (CHR ''d'') = Some 13" "hex_value (CHR ''2'') = Some 2"
    "hex_value (CHR ''0'') = Some 0" "hex_value (CHR ''8'') = Some 8" "hex_value (CHR ''9'') = Some 9"
    by code_simp+
  have hex: "read_hex4 (CHR ''f'') (CHR ''f'') (CHR ''f'') (CHR ''d'') = Some replacement"
    "read_hex4 (CHR ''2'') (CHR ''0'') (CHR ''2'') (CHR ''8'') = Some line_separator"
    "read_hex4 (CHR ''2'') (CHR ''0'') (CHR ''2'') (CHR ''9'') = Some paragraph_separator"
    by (simp_all add: read_hex4_def v utf8_encode_def replacement_def line_separator_def paragraph_separator_def)
  consider "code c < 0x80" | "0x80 \<le> code c" "?n = 0" | "0x80 \<le> code c" "?n \<noteq> 0" by linarith
  then show ?case
  proof cases
    case 1
    then show ?thesis
      using denotes_append [OF escape_byte_denotes [OF 1] "2.IH"(1) [OF 1]] by (simp add: escape.simps(2) toValid_ascii)
  next
    case 2
    then have "\<not> code c < 0x80" by simp
    with 2 show ?thesis
      using denotes_append [OF denotes_hex [OF hex(1)] "2.IH"(2)]
      by (simp add: escape.simps(2) toValid.simps(2) del: rune_size.simps)
  next
    case 3
    then have c: "\<not> code c < 0x80" by simp
    let ?e = "if take ?n (c # s) = line_separator then CHR 0x5C # ''u2028''
      else if take ?n (c # s) = paragraph_separator then CHR 0x5C # ''u2029'' else take ?n (c # s)"
    have "denotes ?e (take ?n (c # s))"
      using denotes_hex [OF hex(2)] denotes_hex [OF hex(3)] denotes_chars [of "take ?n (c # s)"]
        rune_high [OF 3(1)] high_not_special
      by (auto simp del: rune_size.simps)
    then have "denotes (?e @ escape (drop ?n (c # s))) (take ?n (c # s) @ toValid (drop ?n (c # s)))"
      by (rule denotes_append) (use 3 c "2.IH"(3) in blast)
    with 3 c show ?thesis by (simp add: escape.simps(2) toValid.simps(2) del: rune_size.simps)
  qed
qed (simp add: denotes_def)

lemma read_appendString: "read_string (escape s @ CHR 0x22 # r) = Some (toValid s, r)"
  using escape_denotes [of s] by (simp add: denotes_def)

section \<open>Lemmas: base64\<close>

lemma sextet_value_sextet [simp]: "sextet_value (sextet i) = Some (i mod 64)"
proof -
  have "list_all (\<lambda>i. sextet_value (sextet i) = Some i) [0 ..< 64]" by code_simp
  then have "sextet_value (sextet (i mod 64)) = Some (i mod 64)" by (simp add: list_all_iff)
  then show ?thesis by (simp add: sextet_def)
qed

lemma sextet_not_pad [simp]: "sextet i \<noteq> CHR ''=''"
proof -
  have "list_all (\<lambda>i. sextet i \<noteq> CHR ''='') [0 ..< 64]" by code_simp
  then have "sextet (i mod 64) \<noteq> CHR ''=''" by (simp add: list_all_iff)
  then show ?thesis by (simp add: sextet_def)
qed

lemma sextets_split:
  fixes a1 a0 b1 b0 c1 c0 :: nat
  assumes "a1 < 64" "a0 < 4" "b1 < 16" "b0 < 16" "c1 < 4" "c0 < 64"
    and v: "v = 262144 * a1 + 65536 * a0 + 4096 * b1 + 256 * b0 + 64 * c1 + c0"
  shows "v div 262144 mod 64 = a1" "v div 4096 mod 64 = a0 * 16 + b1"
    "v div 64 mod 64 = b0 * 4 + c1" "v mod 64 = c0"
proof -
  have "v div 262144 = a1"
    using assms by (intro div_nat_eqI) simp_all
  moreover have "v div 4096 = 64 * a1 + (a0 * 16 + b1)"
    using assms by (intro div_nat_eqI) simp_all
  moreover have "v div 64 = 64 * (a1 * 64 + a0 * 16 + b1) + (b0 * 4 + c1)"
    using assms by (intro div_nat_eqI) simp_all
  moreover have "v = 64 * (a1 * 4096 + a0 * 1024 + b1 * 64 + b0 * 4 + c1) + c0"
    using v by simp
  moreover have "a0 * 16 + b1 < 64" "b0 * 4 + c1 < 64" using assms(1-6) by linarith+
  ultimately show "v div 262144 mod 64 = a1" "v div 4096 mod 64 = a0 * 16 + b1"
    "v div 64 mod 64 = b0 * 4 + c1" "v mod 64 = c0"
    using assms(1,6) by (simp_all only: mod_mult_self4 mod_less)
qed

lemma sextets:
  fixes a b c :: nat
  assumes "a < 256" "b < 256" "c < 256"
  shows "(a * 65536 + b * 256 + c) div 262144 mod 64 = a div 4"
    "(a * 65536 + b * 256 + c) div 4096 mod 64 = a mod 4 * 16 + b div 16"
    "(a * 65536 + b * 256 + c) div 64 mod 64 = b mod 16 * 4 + c div 64"
    "(a * 65536 + b * 256 + c) mod 64 = c mod 64"
proof -
  have r: "a div 4 < 64" "a mod 4 < 4" "b div 16 < 16" "b mod 16 < 16" "c div 64 < 4" "c mod 64 < 64"
    using assms by (simp_all add: less_mult_imp_div_less)
  have "a * 65536 + b * 256 + c =
      262144 * (a div 4) + 65536 * (a mod 4) + 4096 * (b div 16) + 256 * (b mod 16) + 64 * (c div 64) + c mod 64"
    using mult_div_mod_eq [of 4 a] mult_div_mod_eq [of 16 b] mult_div_mod_eq [of 64 c] by linarith
  note split = sextets_split [OF r this]
  show "(a * 65536 + b * 256 + c) div 262144 mod 64 = a div 4"
    "(a * 65536 + b * 256 + c) div 4096 mod 64 = a mod 4 * 16 + b div 16"
    "(a * 65536 + b * 256 + c) div 64 mod 64 = b mod 16 * 4 + c div 64"
    "(a * 65536 + b * 256 + c) mod 64 = c mod 64"
    by (fact split)+
qed

lemma octets:
  fixes a b c :: nat
  assumes "a < 256" "b < 256" "c < 256"
  shows "4 * (a div 4) + (a mod 4 * 16 + b div 16) div 16 = a"
    "(a mod 4 * 16 + b div 16) mod 16 * 16 + (b mod 16 * 4 + c div 64) div 4 = b"
    "(b mod 16 * 4 + c div 64) mod 4 * 64 + c mod 64 = c"
  using assms by (simp_all add: less_mult_imp_div_less)

lemma base64_decode_groups:
  "base64_decode (sextet i # sextet j # sextet k # sextet l # s) =
     map_option (\<lambda>r. of_nat (4 * (i mod 64) + j mod 64 div 16) # of_nat (j mod 64 mod 16 * 16 + k mod 64 div 4) #
       of_nat (k mod 64 mod 4 * 64 + l mod 64) # r) (base64_decode s)"
  "base64_decode [sextet i, sextet j, sextet k, CHR ''=''] =
     Some [of_nat (4 * (i mod 64) + j mod 64 div 16), of_nat (j mod 64 mod 16 * 16 + k mod 64 div 4)]"
  "base64_decode [sextet i, sextet j, CHR ''='', CHR ''=''] = Some [of_nat (4 * (i mod 64) + j mod 64 div 16)]"
  by (cases "base64_decode s"; simp del: of_nat_add of_nat_mult)+

lemma word_of_sextets:
  fixes a b c :: byte
  defines "v \<equiv> unat a * 65536 + unat b * 256 + unat c"
  shows "of_nat (4 * (v div 262144 mod 64) + v div 4096 mod 64 div 16) = a"
    "of_nat (v div 4096 mod 64 mod 16 * 16 + v div 64 mod 64 div 4) = b"
    "of_nat (v div 64 mod 64 mod 4 * 64 + v mod 64) = c"
  unfolding v_def sextets [OF unat_byte_less unat_byte_less unat_byte_less]
    octets [OF unat_byte_less unat_byte_less unat_byte_less]
  by simp_all

lemma base64_decode_base64: "base64_decode (base64 b) = Some b"
proof (induction b rule: base64.induct)
  case (2 a)
  show ?case unfolding base64.simps Let_def base64_decode_groups
    using word_of_sextets(1) [of a 0 0] by (simp only: unat_0 mult_zero_left add_0_right)
next
  case (3 a b)
  show ?case unfolding base64.simps Let_def base64_decode_groups
    using word_of_sextets(1,2) [of a b 0] by (simp only: unat_0 add_0_right)
next
  case (4 a b c r)
  then show ?case unfolding base64.simps Let_def append_Cons append_Nil base64_decode_groups word_of_sextets
    by (simp only: option.map)
qed simp

section \<open>Lemmas: values\<close>

text \<open>What a reader sees of a value: every string with its invalid bytes replaced.\<close>

fun json_clean :: "json \<Rightarrow> json" where
  "json_clean (JString s) = JString (toValid s)"
| "json_clean (JArray xs) = JArray (map json_clean xs)"
| "json_clean (JObject ms) = JObject (map (\<lambda>(k, v). (toValid k, json_clean v)) ms)"
| "json_clean j = j"

text \<open>The fuel that reading a value takes.\<close>

fun json_fuel :: "json \<Rightarrow> nat" where
  "json_fuel (JArray xs) = Suc (sum_list (map (\<lambda>x. Suc (json_fuel x)) xs))"
| "json_fuel (JObject ms) = Suc (sum_list (map (\<lambda>(k, v). Suc (json_fuel v)) ms))"
| "json_fuel j = 1"

definition no_digit :: "string \<Rightarrow> bool" where
  "no_digit s \<longleftrightarrow> s = [] \<or> \<not> isDigit (hd s)"

lemma no_digit_simps [simp]:
  "no_digit []" "no_digit (CHR '','' # r)" "no_digit (CHR '']'' # r)" "no_digit (CHR ''}'' # r)"
  by (simp_all add: no_digit_def isDigit_def less_eq_char_def)

lemma isDigit_digit_char: "d < 10 \<Longrightarrow> isDigit (digit_char d)"
  by (simp add: isDigit_def less_eq_char_def)

lemma decimal_digits: "c \<in> set (decimal n) \<Longrightarrow> isDigit c"
  using decimal_chars isDigit_digit_char by blast

lemma takeWhile_decimal: "no_digit r \<Longrightarrow> takeWhile isDigit (decimal n @ r) = decimal n"
  and dropWhile_decimal: "no_digit r \<Longrightarrow> dropWhile isDigit (decimal n @ r) = r"
  using decimal_digits [of _ n] by (cases r; force simp: no_digit_def takeWhile_append2 dropWhile_append2)+

lemma Itoa_hd: "Itoa i \<noteq> [] \<and> (hd (Itoa i) = CHR ''-'' \<or> isDigit (hd (Itoa i)))"
  using decimal_hd [of "nat i"] isDigit_digit_char by (auto simp: Itoa_def)

lemma read_int_Itoa: "no_digit r \<Longrightarrow> read_int (Itoa i @ r) = Some (JInt i, r)"
proof (cases "i < 0")
  case True
  moreover assume "no_digit r"
  moreover have "decimal (nat (- i)) \<noteq> []" using decimal_hd [of "nat (- i)"] by auto
  ultimately show ?thesis
    by (simp add: read_int_def Itoa_def takeWhile_decimal dropWhile_decimal parse_decimal_decimal Let_def)
next
  case False
  assume r: "no_digit r"
  obtain d cs where d: "decimal (nat i) = digit_char d # cs" "d < 10" using decimal_hd by blast
  then have "hd (decimal (nat i) @ r) \<noteq> CHR ''-''" "decimal (nat i) \<noteq> []" using digit_char_no_sign by auto
  with False r show ?thesis
    by (simp add: read_int_def Itoa_def takeWhile_decimal dropWhile_decimal parse_decimal_decimal Let_def)
qed

lemma Itoa_first: "\<exists>c cs. Itoa i = c # cs \<and> c \<notin> {CHR 0x22, CHR ''['', CHR '']'', CHR ''{'', CHR ''n'', CHR ''t'', CHR ''f''}"
proof -
  have d: "c \<notin> {CHR 0x22, CHR ''['', CHR '']'', CHR ''{'', CHR ''n'', CHR ''t'', CHR ''f''}" if "isDigit c" for c
    using that by (auto simp: isDigit_def less_eq_char_def)
  obtain c cs where c: "Itoa i = c # cs" "c = CHR ''-'' \<or> isDigit c" using Itoa_hd [of i] by (cases "Itoa i") auto
  then have "c \<notin> {CHR 0x22, CHR ''['', CHR '']'', CHR ''{'', CHR ''n'', CHR ''t'', CHR ''f''}" using d by auto
  with c(1) show ?thesis by blast
qed

lemma json_print_hd: "json_print j \<noteq> [] \<and> hd (json_print j) \<noteq> CHR '']''"
proof (cases j)
  case (JInt i)
  then show ?thesis using Itoa_first [of i] by auto
qed (auto simp: appendString_def)

lemma json_fuel_pos: "0 < json_fuel j"
  by (cases j) auto

definition reads :: "json \<Rightarrow> bool" where
  "reads j \<longleftrightarrow> (\<forall>n r. json_fuel j \<le> n \<longrightarrow> no_digit r \<longrightarrow> read_value n (json_print j @ r) = Some (json_clean j, r))"

lemma readsD: "reads j \<Longrightarrow> json_fuel j \<le> n \<Longrightarrow> no_digit r \<Longrightarrow> read_value n (json_print j @ r) = Some (json_clean j, r)"
  by (simp add: reads_def)

lemma read_elems_print:
  assumes "xs \<noteq> []" "\<forall>x \<in> set xs. reads x" "sum_list (map (\<lambda>x. Suc (json_fuel x)) xs) \<le> n"
  shows "read_elems n (Join (map json_print xs) '','' @ CHR '']'' # r) = Some (map json_clean xs, r)"
  using assms
proof (induction xs arbitrary: n)
  case (Cons x xs)
  then obtain m where n: "n = Suc m" by (cases n) auto
  show ?case
  proof (cases "xs = []")
    case True
    with Cons.prems n show ?thesis by (simp add: readsD)
  next
    case False
    with Cons.prems n have "read_elems m (Join (map json_print xs) '','' @ CHR '']'' # r) = Some (map json_clean xs, r)"
      by (intro Cons.IH) auto
    with False Cons.prems n show ?thesis by (simp add: readsD Join_Cons)
  qed
qed simp

lemma read_members_print:
  assumes "ms \<noteq> []" "\<forall>(k, v) \<in> set ms. reads v" "sum_list (map (\<lambda>(k, v). Suc (json_fuel v)) ms) \<le> n"
  shows "read_members n (Join (map (\<lambda>(k, v). appendString k @ '':'' @ json_print v) ms) '','' @ CHR ''}'' # r) =
    Some (map (\<lambda>(k, v). (toValid k, json_clean v)) ms, r)"
  using assms
proof (induction ms arbitrary: n)
  case (Cons m ms)
  obtain k v where m: "m = (k, v)" by (cases m)
  from Cons.prems m obtain n' where n: "n = Suc n'" by (cases n) auto
  have v: "read_value n' (json_print v @ s) = Some (json_clean v, s)" if "no_digit s" for s
    using Cons.prems m n that by (intro readsD) auto
  show ?case
  proof (cases "ms = []")
    case True
    with m n show ?thesis by (simp add: v appendString_def read_appendString)
  next
    case False
    with Cons.prems m n have "read_members n' (Join (map (\<lambda>(k, v). appendString k @ '':'' @ json_print v) ms) '','' @ CHR ''}'' # r) =
        Some (map (\<lambda>(k, v). (toValid k, json_clean v)) ms, r)"
      by (intro Cons.IH) auto
    with False m n show ?thesis by (simp add: v appendString_def read_appendString Join_Cons)
  qed
qed simp

lemma reads_all: "reads j"
proof (induction j rule: json_print.induct)
  case (3 i)
  have "read_value (Suc n) (Itoa i @ r) = read_int (Itoa i @ r)" for n r
    using Itoa_first [of i] by auto
  then show ?case by (auto simp: reads_def read_int_Itoa Suc_le_eq dest!: gr0_implies_Suc simp del: read_value.simps)
next
  case (5 xs)
  show ?case unfolding reads_def
  proof (intro allI impI)
    fix n r assume f: "json_fuel (JArray xs) \<le> n"
    then obtain m where m: "n = Suc m" "sum_list (map (\<lambda>x. Suc (json_fuel x)) xs) \<le> m" by (cases n) auto
    have h: "Join (map json_print xs) '','' @ s \<noteq> [] \<and> hd (Join (map json_print xs) '','' @ s) \<noteq> CHR '']''" if "xs \<noteq> []" for s
      using that json_print_hd [of "hd xs"] by (cases xs; cases "tl xs") auto
    show "read_value n (json_print (JArray xs) @ r) = Some (json_clean (JArray xs), r)"
      using m h [of "CHR '']'' # r"] read_elems_print [of xs m r] 5 by (cases "xs = []") simp_all
  qed
next
  case (6 ms)
  show ?case unfolding reads_def
  proof (intro allI impI)
    fix n r assume f: "json_fuel (JObject ms) \<le> n"
    then obtain m where m: "n = Suc m" "sum_list (map (\<lambda>(k, v). Suc (json_fuel v)) ms) \<le> m" by (cases n) auto
    let ?t = "Join (map (\<lambda>(k, v). appendString k @ '':'' @ json_print v) ms) '',''"
    have h: "?t @ s \<noteq> [] \<and> hd (?t @ s) \<noteq> CHR ''}''" if "ms \<noteq> []" for s
      using that by (cases ms; cases "tl ms") (auto simp: appendString_def)
    have "\<forall>(k, v) \<in> set ms. reads v" using 6 by auto
    then show "read_value n (json_print (JObject ms) @ r) = Some (json_clean (JObject ms), r)"
      using m h [of "CHR ''}'' # r"] read_members_print [of ms m r] by (cases "ms = []") simp_all
  qed
qed (auto simp: reads_def appendString_def read_appendString read_word_def Suc_le_eq dest!: gr0_implies_Suc)

lemma length_Join: "xs \<noteq> [] \<Longrightarrow> Suc (length (Join xs [c])) = sum_list (map (\<lambda>x. Suc (length x)) xs)"
proof (induction xs)
  case (Cons x xs)
  then show ?case by (cases "xs = []") (simp_all add: Join_Cons)
qed simp

lemma json_fuel_le: "json_fuel j \<le> length (json_print j)"
proof (induction j rule: json_print.induct)
  case (3 i)
  then show ?case using Itoa_first [of i] by auto
next
  case (5 xs)
  have "sum_list (map (\<lambda>x. Suc (json_fuel x)) xs) \<le> sum_list (map (\<lambda>x. Suc (length (json_print x))) xs)"
    by (rule sum_list_mono) (use 5 in simp)
  then show ?case using length_Join [of "map json_print xs" "CHR '',''"] by (cases "xs = []") (simp_all add: comp_def)
next
  case (6 ms)
  let ?m = "\<lambda>(k, v). appendString k @ '':'' @ json_print v"
  have "sum_list (map (\<lambda>(k, v). Suc (json_fuel v)) ms) \<le> sum_list (map (\<lambda>m. Suc (length (?m m))) ms)"
    by (rule sum_list_mono) (use 6 in \<open>force simp: appendString_def\<close>)
  then show ?case using length_Join [of "map ?m ms" "CHR '',''"] by (cases "ms = []") (simp_all add: comp_def)
qed (simp_all add: appendString_def)

lemma json_parse_print: "json_parse (json_print j) = Some (json_clean j)"
  using readsD [OF reads_all json_fuel_le, of "[]"] by (simp add: json_parse_def)

section \<open>Lemmas: struct members\<close>

lemma map_of_omitempty [simp]:
  "map_of (omitempty e k v) k' = (if k' = k then (if e then None else Some v) else None)"
  "map_of (omitempty e k v @ ms) k' = (if k' = k then (if e then map_of ms k' else Some v) else map_of ms k')"
  by (simp_all add: omitempty_def)

lemma omitempty_clean: "map (\<lambda>(k, v). (toValid k, json_clean v)) (omitempty e k v) = omitempty e (toValid k) (json_clean v)"
  by (simp add: omitempty_def)

lemma map_of_map_keys: "map_of (map (\<lambda>k. (k, f k)) ks) k = (if k \<in> set ks then Some (f k) else None)"
  by (induction ks) auto

lemma json_clean_map:
  assumes "finite (dom m)" "\<forall>k \<in> dom m. validUTF8 k"
  shows "json_clean (json_map m) = JObject (map (\<lambda>k. (k, JString (toValid (the (m k))))) (sorted_list_of_set (dom m)))"
  using assms by (simp add: json_map_def toValid_valid)

lemma base64_ascii: "isASCII (base64 b)"
proof -
  have "isASCII base64_alphabet" by (simp add: base64_alphabet_def isASCII_def)
  moreover have "sextet i \<in> set base64_alphabet" for i
    unfolding sextet_def by (rule nth_mem) (simp add: base64_alphabet_def)
  ultimately have s: "of_char (sextet i) < (128 :: nat)" for i by (auto simp: isASCII_def list_all_iff)
  have p: "of_char (CHR ''='') < (128 :: nat)" by simp
  show ?thesis
    by (induction b rule: base64.induct)
      (simp_all only: isASCII_def base64.simps Let_def list.pred_inject list_all_append s p simp_thms)
qed

lemma json_clean_bytes [simp]: "json_clean (json_bytes b) = json_bytes b"
  by (simp add: json_bytes_def toValid_valid validUTF8_ascii base64_ascii)

end
