(* ===== verification/Serializer.thy ===== *)
theory Serializer
  imports Event Json
begin

text \<open>
  The JSON serializer of \<^verbatim>\<open>internal/output/serializer.go\<close>: \<open>Marshal\<close> encodes an event as
  \<^verbatim>\<open>json.Marshal\<close> does. The members of each struct are those of the JSON tags of \<^verbatim>\<open>proto/event.go\<close>, in the
  order of the fields; \<open>omitempty\<close> leaves a zero field out.

  \<open>json_Unmarshal\<close> is the reference decoder of a consumer: it reads the text and looks the members up by name, an
  absent member being the zero value. \<open>clean_event\<close> is the event with the bytes of its strings that are not UTF-8 replaced,
  which is all that serialization loses.
\<close>

section \<open>Encoding\<close>

definition json_string_list :: "string list \<Rightarrow> json" where
  "json_string_list xs = JArray (map JString xs)"

definition http_json :: "HTTPDetail \<Rightarrow> json" where
  "http_json d = JObject
     (omitempty (http_Method d = []) ''method'' (JString (http_Method d)) @
      omitempty (http_URL d = []) ''url'' (JString (http_URL d)) @
      omitempty (http_Host d = []) ''host'' (JString (http_Host d)) @
      omitempty (http_StatusCode d = 0) ''status_code'' (JInt (http_StatusCode d)) @
      omitempty (http_Headers d = Map.empty) ''headers'' (json_map (http_Headers d)) @
      omitempty (http_ContentType d = []) ''content_type'' (JString (http_ContentType d)) @
      omitempty (http_BodyLength d = 0) ''body_length'' (JInt (http_BodyLength d)) @
      omitempty (http_Body d = []) ''body'' (json_bytes (http_Body d)) @
      omitempty (\<not> http_BodyTruncated d) ''body_truncated'' (JBool (http_BodyTruncated d)))"

definition question_json :: "DNSQuestion \<Rightarrow> json" where
  "question_json q = JObject
     [(''name'', JString (dq_Name q)), (''type'', JString (dq_Type q)), (''class'', JString (dq_Class q))]"

definition answer_json :: "DNSAnswer \<Rightarrow> json" where
  "answer_json a = JObject
     [(''name'', JString (da_Name a)), (''type'', JString (da_Type a)), (''class'', JString (da_Class a)),
      (''ttl'', JInt (uint (da_TTL a))), (''data'', JString (da_Data a))]"

definition dns_json :: "DNSDetail \<Rightarrow> json" where
  "dns_json d = JObject
     (omitempty (dns_TransactionID d = 0) ''transaction_id'' (JInt (uint (dns_TransactionID d))) @
      omitempty (dns_OpCode d = 0) ''op_code'' (JInt (dns_OpCode d)) @
      omitempty (dns_ResponseCode d = 0) ''response_code'' (JInt (dns_ResponseCode d)) @
      omitempty (dns_Questions d = []) ''questions'' (JArray (map question_json (dns_Questions d))) @
      omitempty (dns_Answers d = []) ''answers'' (JArray (map answer_json (dns_Answers d))))"

definition tls_json :: "TLSDetail \<Rightarrow> json" where
  "tls_json d = JObject
     (omitempty (tls_Version d = []) ''version'' (JString (tls_Version d)) @
      omitempty (tls_CipherSuite d = []) ''cipher_suite'' (JString (tls_CipherSuite d)) @
      omitempty (tls_ServerName d = []) ''server_name'' (JString (tls_ServerName d)) @
      omitempty (tls_HandshakeType d = 0) ''handshake_type'' (JInt (tls_HandshakeType d)) @
      omitempty (tls_CertificateChain d = []) ''certificate_chain'' (json_string_list (tls_CertificateChain d)) @
      omitempty (tls_ALPNProtocols d = []) ''alpn_protocols'' (json_string_list (tls_ALPNProtocols d)))"

definition db_json :: "DBDetail \<Rightarrow> json" where
  "db_json d = JObject
     (omitempty (db_System d = []) ''system'' (JString (db_System d)) @
      omitempty (db_Operation d = []) ''operation'' (JString (db_Operation d)) @
      omitempty (db_Statement d = []) ''statement'' (JString (db_Statement d)) @
      omitempty (db_Database d = []) ''database'' (JString (db_Database d)) @
      omitempty (db_Table d = []) ''table'' (JString (db_Table d)) @
      omitempty (db_ErrorCode d = 0) ''error_code'' (JInt (db_ErrorCode d)) @
      omitempty (db_ErrorMsg d = []) ''error_msg'' (JString (db_ErrorMsg d)) @
      omitempty (db_Latency d = 0) ''latency'' (JInt (db_Latency d)) @
      omitempty (db_RowCount d = 0) ''row_count'' (JInt (db_RowCount d)))"

definition direction_int :: "Direction \<Rightarrow> int" where
  "direction_int dir = (case dir of DirectionUnknown \<Rightarrow> 0 | DirectionRequest \<Rightarrow> 1 | DirectionResponse \<Rightarrow> 2)"

definition omitnil :: "string \<Rightarrow> ('a \<Rightarrow> json) \<Rightarrow> 'a option \<Rightarrow> (string \<times> json) list" where
  "omitnil k f d = (case d of None \<Rightarrow> [] | Some x \<Rightarrow> [(k, f x)])"

definition event_json :: "ProtocolEvent \<Rightarrow> json" where
  "event_json ev = JObject
     ([(''timestamp_ns'', JInt (ev_TimestampNs ev))] @
      omitempty (ev_UID ev = []) ''uid'' (JString (ev_UID ev)) @
      [(''src_ip'', json_bytes (ev_SrcIP ev)), (''dst_ip'', json_bytes (ev_DstIP ev)),
       (''src_port'', JInt (uint (ev_SrcPort ev))), (''dst_port'', JInt (uint (ev_DstPort ev))),
       (''protocol'', JString (ev_Protocol ev)), (''direction'', JInt (direction_int (ev_Direction ev)))] @
      omitempty (ev_Metadata ev = Map.empty) ''metadata'' (json_map (ev_Metadata ev)) @
      omitempty (ev_RawExcerpt ev = []) ''raw_excerpt'' (json_bytes (ev_RawExcerpt ev)) @
      omitnil ''http_detail'' http_json (ev_HTTPDetail ev) @
      omitnil ''dns_detail'' dns_json (ev_DNSDetail ev) @
      omitnil ''tls_detail'' tls_json (ev_TLSDetail ev) @
      omitnil ''db_detail'' db_json (ev_DBDetail ev))"

text \<open>No value of these types makes \<^verbatim>\<open>json.Marshal\<close> fail.\<close>

definition Marshal :: "ProtocolEvent \<Rightarrow> error + bytes" where
  "Marshal event = Inr (bytes_of (json_print (event_json event)))"

definition ContentType :: string where
  "ContentType = ''application/json''"

section \<open>Decoding\<close>

type_synonym members = "(string \<times> json) list"

definition string_field :: "members \<Rightarrow> string \<Rightarrow> string option" where
  "string_field ms k = (case map_of ms k of None \<Rightarrow> Some [] | Some (JString s) \<Rightarrow> Some s | _ \<Rightarrow> None)"

definition int_field :: "members \<Rightarrow> string \<Rightarrow> int option" where
  "int_field ms k = (case map_of ms k of None \<Rightarrow> Some 0 | Some (JInt i) \<Rightarrow> Some i | _ \<Rightarrow> None)"

definition bool_field :: "members \<Rightarrow> string \<Rightarrow> bool option" where
  "bool_field ms k = (case map_of ms k of None \<Rightarrow> Some False | Some (JBool b) \<Rightarrow> Some b | _ \<Rightarrow> None)"

definition bytes_field :: "members \<Rightarrow> string \<Rightarrow> bytes option" where
  "bytes_field ms k =
     (case map_of ms k of None \<Rightarrow> Some [] | Some JNull \<Rightarrow> Some [] | Some (JString s) \<Rightarrow> base64_decode s | _ \<Rightarrow> None)"

fun string_of_json :: "json \<Rightarrow> string option" where
  "string_of_json (JString s) = Some s"
| "string_of_json _ = None"

definition map_field :: "members \<Rightarrow> string \<Rightarrow> (string \<rightharpoonup> string) option" where
  "map_field ms k =
     (case map_of ms k of
        None \<Rightarrow> Some Map.empty
      | Some (JObject kvs) \<Rightarrow>
          map_option map_of (those (map (\<lambda>(k, v). map_option (\<lambda>s. (k, s)) (string_of_json v)) kvs))
      | _ \<Rightarrow> None)"

definition list_field :: "(json \<Rightarrow> 'a option) \<Rightarrow> members \<Rightarrow> string \<Rightarrow> 'a list option" where
  "list_field f ms k =
     (case map_of ms k of None \<Rightarrow> Some [] | Some (JArray xs) \<Rightarrow> those (map f xs) | _ \<Rightarrow> None)"

definition pointer_field :: "(json \<Rightarrow> 'a option) \<Rightarrow> members \<Rightarrow> string \<Rightarrow> 'a option option" where
  "pointer_field f ms k = (case map_of ms k of None \<Rightarrow> Some None | Some j \<Rightarrow> map_option Some (f j))"

fun members :: "json \<Rightarrow> members option" where
  "members (JObject ms) = Some ms"
| "members _ = None"

definition read_http :: "json \<Rightarrow> HTTPDetail option" where
  "read_http j = do {
     ms \<leftarrow> members j;
     m \<leftarrow> string_field ms ''method''; u \<leftarrow> string_field ms ''url''; h \<leftarrow> string_field ms ''host'';
     st \<leftarrow> int_field ms ''status_code''; hs \<leftarrow> map_field ms ''headers''; ct \<leftarrow> string_field ms ''content_type'';
     bl \<leftarrow> int_field ms ''body_length''; b \<leftarrow> bytes_field ms ''body''; t \<leftarrow> bool_field ms ''body_truncated'';
     Some \<lparr>http_Method = m, http_URL = u, http_Host = h, http_StatusCode = st, http_Headers = hs,
       http_ContentType = ct, http_BodyLength = bl, http_Body = b, http_BodyTruncated = t\<rparr> }"

definition read_question :: "json \<Rightarrow> DNSQuestion option" where
  "read_question j = do {
     ms \<leftarrow> members j;
     n \<leftarrow> string_field ms ''name''; t \<leftarrow> string_field ms ''type''; c \<leftarrow> string_field ms ''class'';
     Some \<lparr>dq_Name = n, dq_Type = t, dq_Class = c\<rparr> }"

definition read_answer :: "json \<Rightarrow> DNSAnswer option" where
  "read_answer j = do {
     ms \<leftarrow> members j;
     n \<leftarrow> string_field ms ''name''; t \<leftarrow> string_field ms ''type''; c \<leftarrow> string_field ms ''class'';
     l \<leftarrow> int_field ms ''ttl''; d \<leftarrow> string_field ms ''data'';
     Some \<lparr>da_Name = n, da_Type = t, da_Class = c, da_TTL = of_int l, da_Data = d\<rparr> }"

definition read_dns :: "json \<Rightarrow> DNSDetail option" where
  "read_dns j = do {
     ms \<leftarrow> members j;
     i \<leftarrow> int_field ms ''transaction_id''; oc \<leftarrow> int_field ms ''op_code''; rc \<leftarrow> int_field ms ''response_code'';
     qs \<leftarrow> list_field read_question ms ''questions''; as \<leftarrow> list_field read_answer ms ''answers'';
     Some \<lparr>dns_TransactionID = of_int i, dns_OpCode = oc, dns_ResponseCode = rc, dns_Questions = qs, dns_Answers = as\<rparr> }"

definition read_tls :: "json \<Rightarrow> TLSDetail option" where
  "read_tls j = do {
     ms \<leftarrow> members j;
     v \<leftarrow> string_field ms ''version''; c \<leftarrow> string_field ms ''cipher_suite''; n \<leftarrow> string_field ms ''server_name'';
     h \<leftarrow> int_field ms ''handshake_type''; ch \<leftarrow> list_field string_of_json ms ''certificate_chain'';
     al \<leftarrow> list_field string_of_json ms ''alpn_protocols'';
     Some \<lparr>tls_Version = v, tls_CipherSuite = c, tls_ServerName = n, tls_HandshakeType = h,
       tls_CertificateChain = ch, tls_ALPNProtocols = al\<rparr> }"

definition read_db :: "json \<Rightarrow> DBDetail option" where
  "read_db j = do {
     ms \<leftarrow> members j;
     s \<leftarrow> string_field ms ''system''; oper \<leftarrow> string_field ms ''operation''; st \<leftarrow> string_field ms ''statement'';
     d \<leftarrow> string_field ms ''database''; t \<leftarrow> string_field ms ''table''; ec \<leftarrow> int_field ms ''error_code'';
     em \<leftarrow> string_field ms ''error_msg''; l \<leftarrow> int_field ms ''latency''; r \<leftarrow> int_field ms ''row_count'';
     Some \<lparr>db_System = s, db_Operation = oper, db_Statement = st, db_Database = d, db_Table = t,
       db_ErrorCode = ec, db_ErrorMsg = em, db_Latency = l, db_RowCount = r\<rparr> }"

definition read_direction :: "int \<Rightarrow> Direction" where
  "read_direction i = (if i = 1 then DirectionRequest else if i = 2 then DirectionResponse else DirectionUnknown)"

definition read_event :: "json \<Rightarrow> ProtocolEvent option" where
  "read_event j = do {
     ms \<leftarrow> members j;
     ts \<leftarrow> int_field ms ''timestamp_ns''; uid \<leftarrow> string_field ms ''uid'';
     sip \<leftarrow> bytes_field ms ''src_ip''; dip \<leftarrow> bytes_field ms ''dst_ip'';
     sp \<leftarrow> int_field ms ''src_port''; dp \<leftarrow> int_field ms ''dst_port'';
     pr \<leftarrow> string_field ms ''protocol''; dir \<leftarrow> int_field ms ''direction'';
     md \<leftarrow> map_field ms ''metadata''; raw \<leftarrow> bytes_field ms ''raw_excerpt'';
     h \<leftarrow> pointer_field read_http ms ''http_detail''; d \<leftarrow> pointer_field read_dns ms ''dns_detail'';
     t \<leftarrow> pointer_field read_tls ms ''tls_detail''; b \<leftarrow> pointer_field read_db ms ''db_detail'';
     Some \<lparr>ev_TimestampNs = ts, ev_UID = uid, ev_SrcIP = sip, ev_DstIP = dip, ev_SrcPort = of_int sp, ev_DstPort = of_int dp,
       ev_Protocol = pr, ev_Direction = read_direction dir, ev_Metadata = md, ev_RawExcerpt = raw,
       ev_HTTPDetail = h, ev_DNSDetail = d, ev_TLSDetail = t, ev_DBDetail = b\<rparr> }"

definition json_Unmarshal :: "bytes \<Rightarrow> ProtocolEvent option" where
  "json_Unmarshal data = Option.bind (json_parse (string_of data)) read_event"

section \<open>What a consumer sees\<close>

definition clean_map :: "(string \<rightharpoonup> string) \<Rightarrow> (string \<rightharpoonup> string)" where
  "clean_map m = (\<lambda>k. map_option toValid (m k))"

definition clean_http :: "HTTPDetail \<Rightarrow> HTTPDetail" where
  "clean_http d = d\<lparr>http_Method := toValid (http_Method d), http_URL := toValid (http_URL d), http_Host := toValid (http_Host d),
     http_Headers := clean_map (http_Headers d), http_ContentType := toValid (http_ContentType d)\<rparr>"

definition clean_question :: "DNSQuestion \<Rightarrow> DNSQuestion" where
  "clean_question q = \<lparr>dq_Name = toValid (dq_Name q), dq_Type = toValid (dq_Type q), dq_Class = toValid (dq_Class q)\<rparr>"

definition clean_answer :: "DNSAnswer \<Rightarrow> DNSAnswer" where
  "clean_answer a = a\<lparr>da_Name := toValid (da_Name a), da_Type := toValid (da_Type a), da_Class := toValid (da_Class a),
     da_Data := toValid (da_Data a)\<rparr>"

definition clean_dns :: "DNSDetail \<Rightarrow> DNSDetail" where
  "clean_dns d = d\<lparr>dns_Questions := map clean_question (dns_Questions d), dns_Answers := map clean_answer (dns_Answers d)\<rparr>"

definition clean_tls :: "TLSDetail \<Rightarrow> TLSDetail" where
  "clean_tls d = d\<lparr>tls_Version := toValid (tls_Version d), tls_CipherSuite := toValid (tls_CipherSuite d),
     tls_ServerName := toValid (tls_ServerName d), tls_CertificateChain := map toValid (tls_CertificateChain d),
     tls_ALPNProtocols := map toValid (tls_ALPNProtocols d)\<rparr>"

definition clean_db :: "DBDetail \<Rightarrow> DBDetail" where
  "clean_db d = d\<lparr>db_System := toValid (db_System d), db_Operation := toValid (db_Operation d),
     db_Statement := toValid (db_Statement d), db_Database := toValid (db_Database d), db_Table := toValid (db_Table d),
     db_ErrorMsg := toValid (db_ErrorMsg d)\<rparr>"

definition clean_event :: "ProtocolEvent \<Rightarrow> ProtocolEvent" where
  "clean_event ev = ev\<lparr>ev_UID := toValid (ev_UID ev), ev_Protocol := toValid (ev_Protocol ev),
     ev_Metadata := clean_map (ev_Metadata ev), ev_HTTPDetail := map_option clean_http (ev_HTTPDetail ev),
     ev_DNSDetail := map_option clean_dns (ev_DNSDetail ev), ev_TLSDetail := map_option clean_tls (ev_TLSDetail ev),
     ev_DBDetail := map_option clean_db (ev_DBDetail ev)\<rparr>"

text \<open>All texts of an event are UTF-8.\<close>

definition valid_map :: "(string \<rightharpoonup> string) \<Rightarrow> bool" where
  "valid_map m \<longleftrightarrow> (\<forall>v \<in> ran m. validUTF8 v)"

definition texts_valid :: "ProtocolEvent \<Rightarrow> bool" where
  "texts_valid ev \<longleftrightarrow>
     validUTF8 (ev_UID ev) \<and> validUTF8 (ev_Protocol ev) \<and> valid_map (ev_Metadata ev) \<and>
     pred_option (\<lambda>d. list_all validUTF8 [http_Method d, http_URL d, http_Host d, http_ContentType d] \<and>
       valid_map (http_Headers d)) (ev_HTTPDetail ev) \<and>
     pred_option (\<lambda>d. list_all (\<lambda>q. list_all validUTF8 [dq_Name q, dq_Type q, dq_Class q]) (dns_Questions d) \<and>
       list_all (\<lambda>a. list_all validUTF8 [da_Name a, da_Type a, da_Class a, da_Data a]) (dns_Answers d)) (ev_DNSDetail ev) \<and>
     pred_option (\<lambda>d. list_all validUTF8 ([tls_Version d, tls_CipherSuite d, tls_ServerName d] @
       tls_CertificateChain d @ tls_ALPNProtocols d)) (ev_TLSDetail ev) \<and>
     pred_option (\<lambda>d. list_all validUTF8 [db_System d, db_Operation d, db_Statement d, db_Database d, db_Table d,
       db_ErrorMsg d]) (ev_DBDetail ev)"

text \<open>The maps of an event are finite, as Go's are, and their keys are UTF-8.\<close>

definition map_ok :: "(string \<rightharpoonup> string) \<Rightarrow> bool" where
  "map_ok m \<longleftrightarrow> finite (dom m) \<and> (\<forall>k \<in> dom m. validUTF8 k)"

definition maps_ok :: "ProtocolEvent \<Rightarrow> bool" where
  "maps_ok ev \<longleftrightarrow> map_ok (ev_Metadata ev) \<and> (\<forall>d. ev_HTTPDetail ev = Some d \<longrightarrow> map_ok (http_Headers d))"

section \<open>Lemmas\<close>

definition cleaned :: "members \<Rightarrow> members" where
  "cleaned ms = map (\<lambda>(k, v). (toValid k, json_clean v)) ms"

lemma json_clean_object: "json_clean (JObject ms) = JObject (cleaned ms)"
  by (simp add: cleaned_def)

declare json_clean.simps(3) [simp del] map_of_append [simp del] json_clean_object [simp]

definition ascii_keys :: "members \<Rightarrow> bool" where
  "ascii_keys ms \<longleftrightarrow> (\<forall>(k, v) \<in> set ms. isASCII k)"

lemma ascii_keys_simps [simp]:
  "ascii_keys []" "ascii_keys ((k, v) # ms) = (isASCII k \<and> ascii_keys ms)" "ascii_keys (ms @ ns) = (ascii_keys ms \<and> ascii_keys ns)"
  "ascii_keys (omitempty e k v) = (e \<or> isASCII k)" "ascii_keys (omitnil k f d) = (d = None \<or> isASCII k)"
  by (auto simp: ascii_keys_def omitempty_def omitnil_def split: option.splits)

lemma map_of_cleaned: "ascii_keys ms \<Longrightarrow> map_of (cleaned ms) k = map_option json_clean (map_of ms k)"
  by (induction ms) (auto simp: cleaned_def ascii_keys_def toValid_valid validUTF8_ascii)

lemma map_of_omitnil [simp]:
  "map_of (omitnil k f d) k' = (if k' = k then map_option f d else None)"
  "map_of (omitnil k f d @ ms) k' = (if k' = k \<and> d \<noteq> None then map_option f d else map_of ms k')"
  by (cases d; auto simp: omitnil_def)+

lemma those_map_Some: "(\<And>x. x \<in> set xs \<Longrightarrow> f x = Some (g x)) \<Longrightarrow> those (map f xs) = Some (map g xs)"
  by (induction xs) auto

lemma toValid_Nil_iff [simp]: "toValid s = [] \<longleftrightarrow> s = []"
  by (cases s) (auto simp: toValid.simps(2) replacement_def simp del: rune_size.simps)

text \<open>A field reads back what its member was made from.\<close>

lemma string_fieldI: "ascii_keys ms \<Longrightarrow> (s = [] \<Longrightarrow> map_of ms k = None) \<Longrightarrow>
    (s \<noteq> [] \<Longrightarrow> map_of ms k = Some (JString s)) \<Longrightarrow> string_field (cleaned ms) k = Some (toValid s)"
  and string_fieldI': "ascii_keys ms \<Longrightarrow> map_of ms k = Some (JString s) \<Longrightarrow> string_field (cleaned ms) k = Some (toValid s)"
  by (cases "s = []"; simp add: string_field_def map_of_cleaned)+

lemma int_fieldI: "ascii_keys ms \<Longrightarrow> (i = 0 \<Longrightarrow> map_of ms k = None) \<Longrightarrow>
    (i \<noteq> 0 \<Longrightarrow> map_of ms k = Some (JInt i)) \<Longrightarrow> int_field (cleaned ms) k = Some i"
  and int_fieldI': "ascii_keys ms \<Longrightarrow> map_of ms k = Some (JInt i) \<Longrightarrow> int_field (cleaned ms) k = Some i"
  by (cases "i = 0"; simp add: int_field_def map_of_cleaned)+

lemma word_fieldI:
  fixes w :: "'a :: len word"
  shows "ascii_keys ms \<Longrightarrow> (w = 0 \<Longrightarrow> map_of ms k = None) \<Longrightarrow> (w \<noteq> 0 \<Longrightarrow> map_of ms k = Some (JInt (uint w))) \<Longrightarrow>
    int_field (cleaned ms) k = Some (uint w)"
  by (cases "w = 0"; simp add: int_field_def map_of_cleaned)

lemma bool_fieldI: "ascii_keys ms \<Longrightarrow> (\<not> b \<Longrightarrow> map_of ms k = None) \<Longrightarrow> (b \<Longrightarrow> map_of ms k = Some (JBool b)) \<Longrightarrow> bool_field (cleaned ms) k = Some b"
  by (cases b; simp add: bool_field_def map_of_cleaned)

lemma bytes_fieldI: "ascii_keys ms \<Longrightarrow> (b = [] \<Longrightarrow> map_of ms k = None) \<Longrightarrow>
    (b \<noteq> [] \<Longrightarrow> map_of ms k = Some (json_bytes b)) \<Longrightarrow> bytes_field (cleaned ms) k = Some b"
  and bytes_fieldI': "ascii_keys ms \<Longrightarrow> map_of ms k = Some (json_bytes b) \<Longrightarrow> bytes_field (cleaned ms) k = Some b"
  by (cases "b = []"; simp add: bytes_field_def map_of_cleaned json_bytes_def base64_decode_base64 toValid_valid validUTF8_ascii base64_ascii)+

lemma map_fieldI:
  assumes "ascii_keys ms" "m = Map.empty \<Longrightarrow> map_of ms k = None" "m \<noteq> Map.empty \<Longrightarrow> map_of ms k = Some (json_map m)" "map_ok m"
  shows "map_field (cleaned ms) k = Some (clean_map m)"
proof (cases "m = Map.empty")
  case True
  with assms show ?thesis by (simp add: map_field_def map_of_cleaned clean_map_def)
next
  case False
  let ?ks = "sorted_list_of_set (dom m)"
  have fin: "finite (dom m)" and valid: "\<And>k. k \<in> dom m \<Longrightarrow> toValid k = k"
    using assms(4) by (auto simp: map_ok_def toValid_valid)
  have "cleaned (map (\<lambda>k. (k, JString (the (m k)))) ?ks) = map (\<lambda>k. (k, JString (toValid (the (m k))))) ?ks"
    using fin valid by (simp add: cleaned_def)
  then have "map_field (cleaned ms) k = Some (map_of (map (\<lambda>k. (k, toValid (the (m k)))) ?ks))"
    using assms(1,3) False
    by (simp add: map_field_def map_of_cleaned json_map_def comp_def
        those_map_Some [where g = "\<lambda>k. (k, toValid (the (m k)))" and xs = ?ks])
  also have "map_of (map (\<lambda>k. (k, toValid (the (m k)))) ?ks) = clean_map m"
    using fin by (auto simp: map_of_map_keys clean_map_def fun_eq_iff)
  finally show ?thesis .
qed

lemma list_fieldI:
  assumes "ascii_keys ms" "xs = [] \<Longrightarrow> map_of ms k = None" "xs \<noteq> [] \<Longrightarrow> map_of ms k = Some (JArray (map g xs))"
    and "\<And>x. f (json_clean (g x)) = Some (h x)"
  shows "list_field f (cleaned ms) k = Some (map h xs)"
  using assms those_map_Some [of xs "\<lambda>x. f (json_clean (g x))" h]
  by (cases "xs = []") (auto simp: list_field_def map_of_cleaned comp_def)

lemma pointer_fieldI:
  assumes "ascii_keys ms" "map_of ms k = map_option g d" "\<And>x. d = Some x \<Longrightarrow> f (json_clean (g x)) = Some (h x)"
  shows "pointer_field f (cleaned ms) k = Some (map_option h d)"
  using assms by (cases d) (auto simp: pointer_field_def map_of_cleaned)

lemmas struct_simps = isASCII_def comp_def

lemma read_question_json: "read_question (json_clean (question_json q)) = Some (clean_question q)"
  unfolding read_question_def question_json_def json_clean_object members.simps bind.bind_lunit
  by (simp add: clean_question_def struct_simps
      string_fieldI' [where s = "dq_Name q" and k = "''name''"]
      string_fieldI' [where s = "dq_Type q" and k = "''type''"]
      string_fieldI' [where s = "dq_Class q" and k = "''class''"])

lemma read_answer_json: "read_answer (json_clean (answer_json a)) = Some (clean_answer a)"
  unfolding read_answer_def answer_json_def json_clean_object members.simps bind.bind_lunit
  by (simp add: clean_answer_def struct_simps
      string_fieldI' [where s = "da_Name a" and k = "''name''"]
      string_fieldI' [where s = "da_Type a" and k = "''type''"]
      string_fieldI' [where s = "da_Class a" and k = "''class''"]
      int_fieldI' [where i = "uint (da_TTL a)" and k = "''ttl''"]
      string_fieldI' [where s = "da_Data a" and k = "''data''"])

lemma read_db_json: "read_db (json_clean (db_json d)) = Some (clean_db d)"
  unfolding read_db_def db_json_def json_clean_object members.simps bind.bind_lunit
  by (simp add: clean_db_def struct_simps
      string_fieldI [where s = "db_System d" and k = "''system''"]
      string_fieldI [where s = "db_Operation d" and k = "''operation''"]
      string_fieldI [where s = "db_Statement d" and k = "''statement''"]
      string_fieldI [where s = "db_Database d" and k = "''database''"]
      string_fieldI [where s = "db_Table d" and k = "''table''"]
      int_fieldI [where i = "db_ErrorCode d" and k = "''error_code''"]
      string_fieldI [where s = "db_ErrorMsg d" and k = "''error_msg''"]
      int_fieldI [where i = "db_Latency d" and k = "''latency''"]
      int_fieldI [where i = "db_RowCount d" and k = "''row_count''"])

lemma read_tls_json: "read_tls (json_clean (tls_json d)) = Some (clean_tls d)"
  unfolding read_tls_def tls_json_def json_clean_object members.simps bind.bind_lunit
  by (simp add: clean_tls_def struct_simps json_string_list_def
      string_fieldI [where s = "tls_Version d" and k = "''version''"]
      string_fieldI [where s = "tls_CipherSuite d" and k = "''cipher_suite''"]
      string_fieldI [where s = "tls_ServerName d" and k = "''server_name''"]
      int_fieldI [where i = "tls_HandshakeType d" and k = "''handshake_type''"]
      list_fieldI [where g = JString and h = toValid and xs = "tls_CertificateChain d" and k = "''certificate_chain''"]
      list_fieldI [where g = JString and h = toValid and xs = "tls_ALPNProtocols d" and k = "''alpn_protocols''"])

lemma read_dns_json: "read_dns (json_clean (dns_json d)) = Some (clean_dns d)"
  unfolding read_dns_def dns_json_def json_clean_object members.simps bind.bind_lunit
  by (simp add: clean_dns_def struct_simps read_question_json read_answer_json
      word_fieldI [where w = "dns_TransactionID d" and k = "''transaction_id''"]
      int_fieldI [where i = "dns_OpCode d" and k = "''op_code''"]
      int_fieldI [where i = "dns_ResponseCode d" and k = "''response_code''"]
      list_fieldI [where g = question_json and h = clean_question and xs = "dns_Questions d" and k = "''questions''"]
      list_fieldI [where g = answer_json and h = clean_answer and xs = "dns_Answers d" and k = "''answers''"])

lemma read_http_json:
  assumes "map_ok (http_Headers d)"
  shows "read_http (json_clean (http_json d)) = Some (clean_http d)"
  using assms
  unfolding read_http_def http_json_def json_clean_object members.simps bind.bind_lunit
  by (simp add: clean_http_def struct_simps
      string_fieldI [where s = "http_Method d" and k = "''method''"]
      string_fieldI [where s = "http_URL d" and k = "''url''"]
      string_fieldI [where s = "http_Host d" and k = "''host''"]
      int_fieldI [where i = "http_StatusCode d" and k = "''status_code''"]
      map_fieldI [where m = "http_Headers d" and k = "''headers''"]
      string_fieldI [where s = "http_ContentType d" and k = "''content_type''"]
      int_fieldI [where i = "http_BodyLength d" and k = "''body_length''"]
      bytes_fieldI [where b = "http_Body d" and k = "''body''"]
      bool_fieldI [where b = "http_BodyTruncated d" and k = "''body_truncated''"])


lemma read_direction_int: "read_direction (direction_int dir) = dir"
  by (cases dir) (simp_all add: read_direction_def direction_int_def)

lemma read_event_json:
  assumes "maps_ok ev"
  shows "read_event (json_clean (event_json ev)) = Some (clean_event ev)"
proof -
  have m: "map_ok (ev_Metadata ev)" "\<And>d. ev_HTTPDetail ev = Some d \<Longrightarrow> map_ok (http_Headers d)"
    using assms by (auto simp: maps_ok_def)
  show ?thesis
    unfolding read_event_def event_json_def json_clean_object members.simps bind.bind_lunit
    by (simp add: clean_event_def struct_simps read_direction_int m read_http_json read_dns_json read_tls_json read_db_json
        int_fieldI' [where i = "ev_TimestampNs ev" and k = "''timestamp_ns''"]
        string_fieldI [where s = "ev_UID ev" and k = "''uid''"]
        bytes_fieldI' [where b = "ev_SrcIP ev" and k = "''src_ip''"]
        bytes_fieldI' [where b = "ev_DstIP ev" and k = "''dst_ip''"]
        int_fieldI' [where i = "uint (ev_SrcPort ev)" and k = "''src_port''"]
        int_fieldI' [where i = "uint (ev_DstPort ev)" and k = "''dst_port''"]
        string_fieldI' [where s = "ev_Protocol ev" and k = "''protocol''"]
        int_fieldI' [where i = "direction_int (ev_Direction ev)" and k = "''direction''"]
        map_fieldI [where m = "ev_Metadata ev" and k = "''metadata''"]
        bytes_fieldI [where b = "ev_RawExcerpt ev" and k = "''raw_excerpt''"]
        pointer_fieldI [where d = "ev_HTTPDetail ev" and g = http_json and h = clean_http and k = "''http_detail''"]
        pointer_fieldI [where d = "ev_DNSDetail ev" and g = dns_json and h = clean_dns and k = "''dns_detail''"]
        pointer_fieldI [where d = "ev_TLSDetail ev" and g = tls_json and h = clean_tls and k = "''tls_detail''"]
        pointer_fieldI [where d = "ev_DBDetail ev" and g = db_json and h = clean_db and k = "''db_detail''"])
qed

lemma Unmarshal_Marshal:
  assumes "maps_ok ev"
  shows "\<exists>data. Marshal ev = Inr data \<and> json_Unmarshal data = Some (clean_event ev)"
  using read_event_json [OF assms] by (simp add: Marshal_def json_Unmarshal_def json_parse_print)

declare map_of_append [simp]

lemma clean_map_valid: "valid_map m \<Longrightarrow> clean_map m = m"
proof (rule ext)
  fix k
  assume "valid_map m"
  then show "clean_map m k = m k" by (cases "m k") (auto simp: valid_map_def clean_map_def toValid_valid ranI)
qed

lemma clean_event_valid: "texts_valid ev \<Longrightarrow> clean_event ev = ev"
proof -
  assume v: "texts_valid ev"
  have "map_option clean_http (ev_HTTPDetail ev) = ev_HTTPDetail ev"
    using v by (cases "ev_HTTPDetail ev") (auto simp: texts_valid_def clean_http_def toValid_valid clean_map_valid)
  moreover have "map_option clean_dns (ev_DNSDetail ev) = ev_DNSDetail ev"
    using v by (cases "ev_DNSDetail ev")
      (auto simp: texts_valid_def clean_dns_def clean_question_def clean_answer_def toValid_valid list_all_iff
        intro!: DNSDetail.equality map_idI)
  moreover have "map_option clean_tls (ev_TLSDetail ev) = ev_TLSDetail ev"
    using v by (cases "ev_TLSDetail ev")
      (auto simp: texts_valid_def clean_tls_def toValid_valid list_all_iff intro!: TLSDetail.equality map_idI)
  moreover have "map_option clean_db (ev_DBDetail ev) = ev_DBDetail ev"
    using v by (cases "ev_DBDetail ev") (auto simp: texts_valid_def clean_db_def toValid_valid)
  ultimately show ?thesis
    using v by (simp add: texts_valid_def clean_event_def toValid_valid clean_map_valid)
qed

section \<open>Properties\<close>

text \<open>
  C9: Serialization loses nothing but bytes that are not UTF-8. Marshalling never fails, and a consumer
  that parses the JSON text and looks the members up gets the event back with the invalid bytes of its texts
  replaced by U+FFFD: the very same event if its texts are UTF-8. Addresses, bodies and excerpts, which travel in
  base64, numbers, absent fields and the details survive in any case.
\<close>

theorem Marshal_roundtrip:
  assumes "maps_ok ev"
  shows "\<exists>data. Marshal ev = Inr data \<and> json_Unmarshal data = Some (clean_event ev) \<and>
    (texts_valid ev \<longrightarrow> json_Unmarshal data = Some ev)"
  using Unmarshal_Marshal [OF assms] clean_event_valid [of ev] by auto

text \<open>An event with a quotation mark, a control character and a byte that is not UTF-8 in its metadata.\<close>

definition example_noisy :: ProtocolEvent where
  "example_noisy = (fillMeta (NewEvent 7 ''ftp'' DirectionRequest) example_meta)
     \<lparr>ev_Metadata := [''line'' \<mapsto> [CHR 0x22, CHR 0x0A, CHR 0xFF, CHR ''<'']], ev_RawExcerpt := [1, 2, 3, 4]\<rparr>"

theorem Marshal_roundtrip_witness:
  "\<exists>data. Marshal example_noisy = Inr data \<and>
     json_Unmarshal data = Some (example_noisy
       \<lparr>ev_Metadata := [''line'' \<mapsto> [CHR 0x22, CHR 0x0A, CHR 0xEF, CHR 0xBF, CHR 0xBD, CHR ''<'']]\<rparr>)"
proof -
  have "maps_ok example_noisy"
    by (simp add: maps_ok_def map_ok_def example_noisy_def fillMeta_def NewEvent_def validUTF8_ascii isASCII_def)
  from Marshal_roundtrip [OF this] obtain data
    where data: "Marshal example_noisy = Inr data" "json_Unmarshal data = Some (clean_event example_noisy)" by blast
  have "toValid [CHR 0x22, CHR 0x0A, CHR 0xFF, CHR ''<''] =
      [CHR 0x22, CHR 0x0A, CHR 0xEF, CHR 0xBF, CHR 0xBD, CHR ''<'']"
    by code_simp
  moreover have "toValid (ev_UID example_noisy) = ev_UID example_noisy" "toValid (ev_Protocol example_noisy) = ''ftp''"
    by (simp_all add: example_noisy_def fillMeta_def NewEvent_def example_meta_def toValid_valid validUTF8_ascii isASCII_def)
  ultimately have "clean_event example_noisy = example_noisy
      \<lparr>ev_Metadata := [''line'' \<mapsto> [CHR 0x22, CHR 0x0A, CHR 0xEF, CHR 0xBF, CHR 0xBD, CHR ''<'']]\<rparr>"
    by (auto simp: clean_event_def clean_map_def example_noisy_def fillMeta_def NewEvent_def fun_eq_iff)
  with data show ?thesis by metis
qed

text \<open>
  The text of that event, in full: the quotation mark and the line feed are escaped, the angle bracket and the
  invalid byte are written as code points.
\<close>

lemma event_json_example:
  "event_json example_noisy = JObject
     [(''timestamp_ns'', JInt 7), (''src_ip'', json_bytes [10, 0, 0, 1]), (''dst_ip'', json_bytes [10, 0, 0, 2]),
      (''src_port'', JInt 40000), (''dst_port'', JInt 6379), (''protocol'', JString ''ftp''), (''direction'', JInt 1),
      (''metadata'', JObject [(''line'', JString [CHR 0x22, CHR 0x0A, CHR 0xFF, CHR ''<''])]),
      (''raw_excerpt'', json_bytes [1, 2, 3, 4])]"
  by (simp add: event_json_def example_noisy_def fillMeta_def NewEvent_def example_meta_def direction_int_def omitempty_def
      omitnil_def json_map_def)

lemma print_string_example:
  "appendString [CHR 0x22, CHR 0x0A, CHR 0xFF, CHR ''<''] =
     [CHR 0x22, CHR 0x5C, CHR 0x22, CHR 0x5C, CHR ''n'', CHR 0x5C] @ ''ufffd'' @ [CHR 0x5C] @ ''u003c'' @ [CHR 0x22]"
  by code_simp

lemma print_base64_example:
  "base64 [10, 0, 0, 1] = ''CgAAAQ==''" "base64 [10, 0, 0, 2] = ''CgAAAg==''" "base64 [1, 2, 3, 4] = ''AQIDBA==''"
  by (simp_all add: sextet_def base64_alphabet_def)

lemma print_int_example: "Itoa 7 = ''7''" "Itoa 40000 = ''40000''" "Itoa 6379 = ''6379''" "Itoa 1 = ''1''"
  by (simp_all add: Itoa_def decimal.simps digit_char_def char_of_def bit_0)

lemma escape_plain: "list_all (\<lambda>c. code c < 0x80 \<and> htmlSafe c) s \<Longrightarrow> escape s = s"
  by (induction s) (simp_all add: escape.simps(2) escape_byte_def)

lemma appendString_plain: "list_all (\<lambda>c. code c < 0x80 \<and> htmlSafe c) s \<Longrightarrow> appendString s = CHR 0x22 # s @ [CHR 0x22]"
  by (simp add: appendString_def escape_plain)

lemma Marshal_example:
  \<open>json_print (event_json example_noisy) =
     ''{"timestamp_ns":7,"src_ip":"CgAAAQ==","dst_ip":"CgAAAg==","src_port":40000,"dst_port":6379,'' @
     ''"protocol":"ftp","direction":1,"metadata":{"line":"'' @
     [CHR 0x5C, CHR 0x22, CHR 0x5C, CHR ''n'', CHR 0x5C] @ ''ufffd'' @ [CHR 0x5C] @ ''u003c"},"raw_excerpt":"AQIDBA=="}''\<close>
  unfolding event_json_example
  by (simp add: json_bytes_def print_string_example print_base64_example print_int_example appendString_plain
      code_def htmlSafe_def del: base64.simps)

end
