(* ===== verification/Typing.thy ===== *)
theory Typing
  imports Netcap Serializer
begin

text \<open>
  Type soundness of the events. The structs of \<^verbatim>\<open>proto/event.go\<close> have integers of 32 and 64 bits and finite
  maps, which the model keeps as \<^typ>\<open>int\<close> and as HOL maps. \<open>event_typed\<close> states that an event fits its
  Go type and that the keys of its maps are ASCII; the lemmas show it for every event of every parser,
  and the properties for every event that the dispatcher emits. With it, whatever reaches the Kafka
  producer is serialized and read back.
\<close>

section \<open>Types\<close>

definition int32_ok :: "int \<Rightarrow> bool" where
  "int32_ok i \<longleftrightarrow> - (2 ^ 31) \<le> i \<and> i < 2 ^ 31"

definition int64_ok :: "int \<Rightarrow> bool" where
  "int64_ok i \<longleftrightarrow> - (2 ^ 63) \<le> i \<and> i < 2 ^ 63"

definition typed_map :: "(string \<rightharpoonup> 'a) \<Rightarrow> bool" where
  "typed_map m \<longleftrightarrow> finite (dom m) \<and> (\<forall>k \<in> dom m. isASCII k)"

definition event_typed :: "ProtocolEvent \<Rightarrow> bool" where
  "event_typed ev \<longleftrightarrow>
     int64_ok (ev_TimestampNs ev) \<and> typed_map (ev_Metadata ev) \<and>
     (\<forall>d. ev_HTTPDetail ev = Some d \<longrightarrow>
        int32_ok (http_StatusCode d) \<and> typed_map (http_Headers d) \<and> int64_ok (http_BodyLength d)) \<and>
     (\<forall>d. ev_DNSDetail ev = Some d \<longrightarrow> int32_ok (dns_OpCode d) \<and> int32_ok (dns_ResponseCode d)) \<and>
     (\<forall>d. ev_TLSDetail ev = Some d \<longrightarrow> int32_ok (tls_HandshakeType d)) \<and>
     (\<forall>d. ev_DBDetail ev = Some d \<longrightarrow>
        int32_ok (db_ErrorCode d) \<and> int64_ok (db_Latency d) \<and> int64_ok (db_RowCount d))"

text \<open>
  What \<^verbatim>\<open>net/http\<close> documents of the messages it returns: header names are valid tokens and hence ASCII, and
  \<^verbatim>\<open>ContentLength\<close> is an \<^verbatim>\<open>int64\<close>.
\<close>

definition net_http_typed :: "net_http \<Rightarrow> bool" where
  "net_http_typed L \<longleftrightarrow>
     (\<forall>c data msg rest. http_read L c data = Inr (msg, rest) \<longrightarrow>
        typed_map (msg_Header msg) \<and> int64_ok (msg_ContentLength msg))"

section \<open>Lemmas: events\<close>

lemma typed_map_empty [simp]: "typed_map Map.empty"
  by (simp add: typed_map_def)

lemma typed_map_update [simp]: "isASCII k \<Longrightarrow> typed_map m \<Longrightarrow> typed_map (m(k \<mapsto> v))"
  by (simp add: typed_map_def)

lemma typed_map_ok: "typed_map m \<Longrightarrow> map_ok m"
  by (auto simp: typed_map_def map_ok_def validUTF8_ascii)

lemma event_typed_maps: "event_typed ev \<Longrightarrow> maps_ok ev"
  by (auto simp: event_typed_def maps_ok_def typed_map_ok)

lemma int_ok_0 [simp]: "int32_ok 0" "int64_ok 0"
  by (simp_all add: int32_ok_def int64_ok_def)

lemma int32_ok_byte [simp]: "int32_ok (uint (b :: byte))"
  using uint_byte_less [of b] order_trans [OF _ uint_nonnegative, of "- 2147483648" b] by (simp add: int32_ok_def)

lemma int32_ok_u16 [simp]: "int32_ok (uint (w :: u16))"
  using uint_bounded [of w] order_trans [OF _ uint_nonnegative, of "- 2147483648" w] by (simp add: int32_ok_def)

lemma int32_ok_int32 [simp]: "int32_ok (int32 x)"
  by (simp add: int32_ok_def int32_def)

lemma event_typed_new: "int64_ok now \<Longrightarrow> event_typed (fillMeta (NewEvent now name dir) meta)"
  by (simp add: event_typed_def fillMeta_def NewEvent_def)

lemma event_typed_Metadata: "event_typed ev \<Longrightarrow> typed_map m \<Longrightarrow> event_typed (ev\<lparr>ev_Metadata := m\<rparr>)"
  by (simp add: event_typed_def)

lemma event_typed_RawExcerpt: "event_typed ev \<Longrightarrow> event_typed (ev\<lparr>ev_RawExcerpt := r\<rparr>)"
  by (simp add: event_typed_def)

lemma event_typed_DBDetail:
  "event_typed ev \<Longrightarrow> int32_ok (db_ErrorCode d) \<Longrightarrow> int64_ok (db_Latency d) \<Longrightarrow> int64_ok (db_RowCount d) \<Longrightarrow>
     event_typed (ev\<lparr>ev_DBDetail := Some d\<rparr>)"
  by (simp add: event_typed_def)

lemma event_typed_TLSDetail: "event_typed ev \<Longrightarrow> int32_ok (tls_HandshakeType d) \<Longrightarrow> event_typed (ev\<lparr>ev_TLSDetail := Some d\<rparr>)"
  by (simp add: event_typed_def)

lemmas event_typed_intros = event_typed_new event_typed_Metadata event_typed_RawExcerpt event_typed_DBDetail
  event_typed_TLSDetail

section \<open>Lemmas: parsers\<close>

definition typed_result :: "parse_result \<Rightarrow> bool" where
  "typed_result r \<longleftrightarrow> (\<forall>evs. r = Inr evs \<longrightarrow> (\<forall>e \<in> set evs. event_typed e))"

lemma typed_result_simps [simp]: "typed_result (Inl err)" "typed_result (Inr evs) = (\<forall>e \<in> set evs. event_typed e)"
  by (simp_all add: typed_result_def)

text \<open>A parser whose events are typed when the clock is.\<close>

locale typed_parser =
  fixes p :: "'s Parser"
  assumes parse_typed: "int64_ok now \<Longrightarrow> Parse p now st data spare meta c = Some (st', Inr evs) \<Longrightarrow> e \<in> set evs \<Longrightarrow> event_typed e"

lemma stateless_typed:
  assumes "Parse p = stateless f" "\<And>now d sp m c. int64_ok now \<Longrightarrow> upon_return (f now d sp m c) typed_result"
  shows "typed_parser p"
  by unfold_locales (use assms(2) in \<open>fastforce simp: assms(1) stateless_def dest: upon_returnD\<close>)

lemma frame_loop_upon:
  assumes "\<And>d. upon_return (step d) (\<lambda>r. \<forall>es n. r = Some (es, n) \<longrightarrow> (\<forall>e \<in> set es. P e))"
  shows "upon_return (frame_loop step d) (\<lambda>es. \<forall>e \<in> set es. P e)"
proof (rule upon_returnI, rule ballI)
  fix es e assume "frame_loop step d = Some es" "e \<in> set es"
  then show "P e" by (rule frame_loop_all) (use upon_returnD [OF assms] in blast)
qed

lemma line_loop_upon:
  assumes "\<And>s. upon_return (body s) (\<lambda>ev. \<forall>e. ev = Some e \<longrightarrow> P e)"
  shows "upon_return (line_loop body ls) (\<lambda>es. \<forall>e \<in> set es. P e)"
proof (induction ls)
  case (Cons l ls)
  have "\<forall>e \<in> set (opt_list ev @ evs). P e" if "body (string_of l) = Some ev" "\<forall>e \<in> set evs. P e" for ev evs
    using upon_returnD [OF assms that(1)] that(2) by auto
  with Cons show ?case by (auto simp: upon_return_def bind_eq_Some_conv split: option.splits)
qed (simp add: wlp)

lemma upon_any: "(\<And>x. P x) \<Longrightarrow> upon_return m P"
  by (auto intro: upon_returnI)

lemma upon_binary:
  "(\<And>v. P v) \<Longrightarrow> upon_return (be16 b) P" "(\<And>v. P v) \<Longrightarrow> upon_return (le16 b) P"
  "(\<And>v. Q v) \<Longrightarrow> upon_return (be32 b) Q" "(\<And>v. Q v) \<Longrightarrow> upon_return (le32 b) Q"
  "(\<And>v. R v) \<Longrightarrow> upon_return (le24 b) R"
  by (auto intro: upon_returnI)

lemma typed_frames:
  "upon_return (frame_loop step d) (\<lambda>es. \<forall>e \<in> set es. event_typed e) \<Longrightarrow>
     upon_return (map_option Inr (frame_loop step d)) typed_result"
  by (simp add: wlp)

interpretation mysql_typed: typed_parser "mysql_parser maxq" for maxq
proof (rule stateless_typed)
  fix now :: int and d sp :: bytes and m c
  assume now: "int64_ok now"
  have dec: "upon_return (mysql_decodePacket maxq now pl m c) (\<lambda>ev. \<forall>e. ev = Some e \<longrightarrow> event_typed e)" for pl
    using now by (auto simp: mysql_decodePacket_def mysql_decodeCommand_def mysql_decodeResponse_def zeroDBDetail_def
        mysql_extractString_eq wlp intro!: upon_binary event_typed_intros)
  show "upon_return (mysql_Parse maxq now d m c) typed_result"
    unfolding mysql_Parse_def
    by (intro typed_frames frame_loop_upon) (auto simp: mysql_next_def wlp intro!: upon_binary upon_return_mono [OF dec])
qed (simp add: mysql_parser_def)

interpretation pg_typed: typed_parser "pg_parser maxq" for maxq
proof (rule stateless_typed)
  fix now :: int and d sp :: bytes and m c
  assume now: "int64_ok now"
  have dec: "upon_return (pg_decodeMessage maxq now tag pl m c) (\<lambda>ev. \<forall>e. ev = Some e \<longrightarrow> event_typed e)" for tag pl
    using now by (auto simp: pg_decodeMessage_def pg_decodeSimpleQuery_def pg_decodeParse_def pg_decodeErrorResponse_def
        zeroDBDetail_def Let_def upon_return_def bind_eq_Some_conv intro!: event_typed_intros split: option.splits)
  have "upon_return (frame_loop (pg_next maxq now m c) r) (\<lambda>es. \<forall>e \<in> set es. event_typed e)" for r
    by (intro frame_loop_upon) (auto simp: pg_next_def wlp intro!: upon_binary upon_return_mono [OF dec])
  then show "upon_return (pg_Parse maxq now d m c) typed_result"
    by (auto simp: pg_Parse_def wlp intro!: upon_any [where m = "pg_skip_startup d c"])
qed (simp add: pg_parser_def)

interpretation mongo_typed: typed_parser "mongo_parser maxq" for maxq
proof (rule stateless_typed)
  fix now :: int and d sp :: bytes and m c
  assume now: "int64_ok now"
  have dec: "upon_return (mongo_decodeMessage now oc pl m c) (\<lambda>ev. \<forall>e. ev = Some e \<longrightarrow> event_typed e)" for oc pl
    using now by (auto simp: mongo_decodeMessage_def mongo_decodeOpMsg_def mongo_decodeOpQuery_def
        zeroDBDetail_def wlp intro!: upon_any [where m = "extractFirstKey b" for b] event_typed_intros)
  show "upon_return (mongo_Parse now d m c) typed_result"
    unfolding mongo_Parse_def
    by (intro typed_frames frame_loop_upon) (auto simp: mongo_next_def wlp intro!: upon_binary upon_return_mono [OF dec])
qed (simp add: mongo_parser_def)

interpretation mqtt_typed: typed_parser mqtt_parser
proof (rule stateless_typed)
  fix now :: int and d sp :: bytes and m c
  assume now: "int64_ok now"
  have keys: "isASCII ''packet_type''" "isASCII ''client_id''" "isASCII ''topic''" by (simp_all add: isASCII_def)
  have dec: "upon_return (mqtt_event now m c b t pl) event_typed" for b t pl
    using now keys by (auto simp: mqtt_event_def wlp intro!: upon_any [where m = "extractConnectClientID b" for b]
        upon_any [where m = "extractPublishTopic b c" for b c] event_typed_intros)
  show "upon_return (mqtt_Parse now d m c) typed_result"
    unfolding mqtt_Parse_def
    by (intro typed_frames frame_loop_upon)
      (auto simp: mqtt_next_def wlp intro!: upon_any [where m = "decodeRemainingLength b" for b] upon_return_mono [OF dec])
qed (simp add: mqtt_parser_def)

interpretation redis_typed: typed_parser "redis_parser U maxq" for U maxq
proof (rule stateless_typed)
  fix now :: int and d sp :: bytes and m c
  assume now: "int64_ok now"
  have arr: "upon_return (redis_array_event U maxq now m c r) (\<lambda>(ev, n). \<forall>e. ev = Some e \<longrightarrow> event_typed e)" for r
    using now by (auto simp: redis_array_event_def zeroDBDetail_def wlp intro!: event_typed_intros split: prod.splits)
  have dec: "upon_return (redis_decodeOne U maxq now b m c) (\<lambda>(ev, n). \<forall>e. ev = Some e \<longrightarrow> event_typed e)" for b
    using now by (auto simp: redis_decodeOne_def redis_decodeArray_def redis_decodeError_def zeroDBDetail_def wlp
        intro!: upon_any [where m = "readLine b" for b] upon_any [where m = "readRESPValue b" for b]
          upon_any [where m = "redis_args i b j as" for i b j as] arr event_typed_intros split: prod.splits)
  show "upon_return (redis_Parse U maxq now d m c) typed_result"
    unfolding redis_Parse_def
    by (intro typed_frames frame_loop_upon) (auto simp: redis_next_def wlp intro!: upon_return_mono [OF dec])
qed (simp add: redis_parser_def)

lemma metadata_keys_ascii [simp]:
  "isASCII ''code''" "isASCII ''message''" "isASCII ''command''" "isASCII ''line''" "isASCII ''tag''" "isASCII ''status''"
  "isASCII ''raw_hex''" "isASCII ''total_size''" "isASCII ''version_string''" "isASCII ''protocol_version''" "isASCII ''software''"
  "isASCII ''type''" "isASCII ''request_line''" "isASCII ''ws_key''" "isASCII ''ws_protocol''" "isASCII ''opcode''"
  "isASCII ''fin''" "isASCII ''masked''" "isASCII ''payload_len''" "isASCII ''ja3''" "isASCII ''ja3_raw''"
  by (simp_all add: isASCII_def)

lemma typed_lines:
  assumes "\<And>s. upon_return (body s) (\<lambda>ev. \<forall>e. ev = Some e \<longrightarrow> event_typed e)"
  shows "upon_return (parse_lines body d) typed_result"
  using line_loop_upon [OF assms] by (simp add: parse_lines_def wlp)

lemma status_line_typed:
  "int64_ok now \<Longrightarrow> upon_return (status_line name now m s) (\<lambda>ev. \<forall>e. ev = Some e \<longrightarrow> event_typed e)"
  by (auto simp: status_line_def wlp intro!: event_typed_intros)

interpretation ftp_typed: typed_parser "ftp_parser U" for U
  by (rule stateless_typed, simp add: ftp_parser_def, unfold ftp_Parse_def, rule typed_lines)
    (auto simp: ftp_line_def wlp upper_verb_eq status_line_typed intro!: event_typed_intros)

interpretation smtp_typed: typed_parser "smtp_parser U" for U
  by (rule stateless_typed, simp add: smtp_parser_def, unfold smtp_Parse_def, rule typed_lines)
    (auto simp: smtp_line_def wlp status_line_typed intro!: upon_any [where m = "extractCommand U s" for s] event_typed_intros)

interpretation imap_typed: typed_parser "imap_parser U" for U
  by (rule stateless_typed, simp add: imap_parser_def, unfold imap_Parse_def, rule typed_lines)
    (auto simp: imap_line_def wlp intro!: upon_any [where m = "truncate_string s n" for s n] event_typed_intros)

interpretation pop3_typed: typed_parser "pop3_parser U" for U
  by (rule stateless_typed, simp add: pop3_parser_def, unfold pop3_Parse_def, rule typed_lines)
    (auto simp: pop3_line_def wlp upper_verb_eq intro!: upon_any [where m = "truncate_string s n" for s n] event_typed_intros)

interpretation unknown_typed: typed_parser unknown_parser
  by (rule stateless_typed, simp add: unknown_parser_def)
    (auto simp: unknown_Parse_def wlp intro!: upon_any [where m = "intToStr n" for n] event_typed_intros)

interpretation ssh_typed: typed_parser ssh_parser
  by (rule stateless_typed, simp add: ssh_parser_def)
    (auto simp: ssh_Parse_def wlp intro!: upon_any [where m = "ssh_version_line d" for d] event_typed_intros)

lemma upgrade_headers_typed: "typed_map md \<Longrightarrow> upon_return (upgrade_headers U ls md) typed_map"
proof (induction ls arbitrary: md)
  case (Cons l ls)
  have "upon_return (upgrade_header U l md) typed_map"
    using Cons.prems by (auto simp: upgrade_header_def wlp)
  then show ?case using Cons.IH by (auto simp: wlp elim!: upon_return_mono)
qed (simp add: wlp)

interpretation websocket_typed: typed_parser "websocket_parser U" for U
proof (rule stateless_typed)
  fix now :: int and d sp :: bytes and m c
  assume now: "int64_ok now"
  have up: "upon_return (parseUpgrade U now d m c) (\<lambda>ev. \<forall>e. ev = Some e \<longrightarrow> event_typed e)"
    using now by (auto simp: parseUpgrade_def wlp intro!: upon_any [where m = "head_string b n" for b n]
        upon_return_mono [OF upgrade_headers_typed] event_typed_intros)
  have fr: "upon_return (parseFrame now d m c) (\<lambda>ev. \<forall>e. ev = Some e \<longrightarrow> event_typed e)"
    using now by (auto simp: parseFrame_def wlp intro!: event_typed_intros)
  show "upon_return (websocket_Parse U now d m c) typed_result"
    by (auto simp: websocket_Parse_def wlp intro!: upon_return_mono [OF up] upon_return_mono [OF fr])
qed (simp add: websocket_parser_def)

lemma dns_event_typed: "int64_ok now \<Longrightarrow> event_typed (dns_event now txID flags m qs as)"
  by (simp add: event_typed_def dns_event_def Let_def fillMeta_def NewEvent_def)

interpretation dns_typed: typed_parser dns_parser
  by (rule stateless_typed, simp add: dns_parser_def)
    (auto simp: dns_Parse_def wlp dns_event_typed intro!: upon_any [where m = "u16_at b n" for b n]
      upon_any [where m = "dns_questions i b n qs" for i b n qs] upon_any [where m = "dns_answers i b n qs" for i b n qs])

lemma tls_event_typed: "int64_ok now \<Longrightarrow> event_typed (tls_event now m a b v cs x)"
  by (simp add: event_typed_def tls_event_def Let_def fillMeta_def NewEvent_def int32_ok_def)

interpretation tls_typed: typed_parser tls_parser
proof (rule stateless_typed)
  fix now :: int and d sp :: bytes and m c
  assume now: "int64_ok now"
  have hello: "upon_return (parseClientHello now hs bh a b m) typed_result" for hs bh a b
    using now by (auto simp: parseClientHello_def wlp tls_event_typed intro!: upon_any [where m = "u16_of b n" for b n]
        upon_any [where m = "cipher_loop hs bh n k i cs" for hs bh n k i cs] upon_any [where m = "hello_extensions hs n" for hs n])
  have rec: "upon_return (tls_hello now d m) (\<lambda>h. \<forall>r. h = Inl r \<longrightarrow> typed_result r)"
    using now by (auto simp: tls_hello_def wlp intro!: upon_any [where m = "u16_of b n" for b n] event_typed_intros)
  show "upon_return (tls_Parse now d sp m c) typed_result"
    by (auto simp: tls_Parse_def wlp intro!: upon_return_mono [OF rec] hello split: prod.splits)
qed (simp add: tls_parser_def)

lemma typed_map_flatten: "typed_map h \<Longrightarrow> typed_map (flattenHeader h)"
  by (auto simp: typed_map_def flattenHeader_def dom_def)

lemma http_event_typed:
  assumes "int64_ok now" "typed_map (msg_Header msg)" "int64_ok (msg_ContentLength msg)"
  shows "upon_return (http_event c maxBody now meta msg s) (\<lambda>(ev, s'). event_typed ev)"
  using assms typed_map_flatten [OF assms(2)] Atoi_range
  by (cases c) (auto simp: http_event_def request_event_def response_event_def event_typed_def fillMeta_def NewEvent_def
      wlp int64_ok_def intro!: upon_any [where m = "readBody n b f" for n b f] split: option.splits)

lemma http_loop_typed:
  assumes "net_http_typed L" "int64_ok now" "\<forall>e \<in> set evs. event_typed e"
  shows "upon_return (http_loop L maxBody now meta c s data evs) (\<lambda>(s', evs', err). \<forall>e \<in> set evs'. event_typed e)"
  using assms(3)
proof (induction "length data" arbitrary: s data evs rule: less_induct)
  case less
  show ?case
  proof (cases "http_read L c data")
    case (Inl err)
    with less.prems show ?thesis by (subst http_loop.simps) (simp add: wlp)
  next
    case (Inr p)
    obtain msg rest where p: "p = (msg, rest)" by (cases p)
    have "typed_map (msg_Header msg)" "int64_ok (msg_ContentLength msg)"
      using assms(1) Inr p by (auto simp: net_http_typed_def)
    note ev = http_event_typed [OF assms(2) this, of c maxBody meta s]
    have "upon_return (http_loop L maxBody now meta c s' rest (evs @ [e])) (\<lambda>(s', evs', err). \<forall>e \<in> set evs'. event_typed e)"
      if "length rest < length data" "event_typed e" for s' e
      using less.hyps [OF that(1)] less.prems that(2) by simp
    with Inr p show ?thesis
      by (subst http_loop.simps) (auto simp: wlp intro!: upon_return_mono [OF ev])
  qed
qed

lemma http_typed:
  assumes "net_http_typed L"
  shows "typed_parser (http_parser L maxBody)"
proof
  fix now st data spare meta c st' evs e
  assume now: "int64_ok now" and p: "Parse (http_parser L maxBody) now st data spare meta c = Some (st', Inr evs)" and e: "e \<in> set evs"
  have "upon_return (http_Parse L (NewHTTPParser maxBody) now st data meta c) (\<lambda>(st', r). typed_result r)"
    using http_loop_typed [OF assms now, of "[]"]
    by (auto simp: http_Parse_def wlp intro!: upon_return_mono [OF http_loop_typed [OF assms now, of "[]"]])
  then show "event_typed e" using p e by (auto simp: http_parser_def upon_return_def)
qed

section \<open>The program's registry\<close>

lemma netcap_parsers_typed:
  assumes "net_http_typed L" "p \<in> set (netcap_parsers L U cfg)"
  shows "typed_parser p"
  using assms(2) http_typed [OF assms(1)] dns_typed.typed_parser_axioms tls_typed.typed_parser_axioms
    mysql_typed.typed_parser_axioms pg_typed.typed_parser_axioms redis_typed.typed_parser_axioms
    mongo_typed.typed_parser_axioms smtp_typed.typed_parser_axioms ftp_typed.typed_parser_axioms
    imap_typed.typed_parser_axioms pop3_typed.typed_parser_axioms mqtt_typed.typed_parser_axioms
    websocket_typed.typed_parser_axioms ssh_typed.typed_parser_axioms unknown_typed.typed_parser_axioms
  by (auto simp: netcap_parsers_def Let_def)

lemma netcap_parsed_typed:
  assumes "net_http_typed L"
  shows "netcap.parsed L U cfg (\<lambda>now meta e. int64_ok now \<longrightarrow> event_typed e)"
  unfolding netcap.parsed_def using typed_parser.parse_typed [OF netcap_parsers_typed [OF assms]] by auto

lemma netcap_emits_typed:
  assumes "net_http_typed L" "list_all (\<lambda>j. int64_ok (fst j)) js" "dispatch_run (buildRegistry L U cfg) js d = Some d'"
  shows "\<exists>new. emitted d' = emitted d @ new \<and> list_all event_typed new"
  using netcap.run_all [OF netcap_parsed_typed [OF assms(1)] assms(3)] assms(2) by (fastforce simp: list_all_iff)

section \<open>Properties\<close>

text \<open>
  C10: Type soundness. Every event that the dispatcher emits fits its Go type: with a clock of 64 bits, whatever the
  messages, their order and the parsers that handle them, timestamps and body lengths are 64-bit integers,
  status, operation, response and error codes 32-bit integers, and the maps are finite with ASCII keys. So no conversion of
  the model hides an overflow in an event.
\<close>

theorem emitted_events_typed:
  assumes "net_http_typed L" "list_all (\<lambda>j. int64_ok (fst j)) js"
    and "dispatch_run (buildRegistry L U cfg) js d = Some d'"
  shows "\<exists>new. emitted d' = emitted d @ new \<and> list_all event_typed new"
  by (rule netcap_emits_typed [OF assms])

lemma byte_http_typed: "net_http_typed byte_http"
  by (auto simp: net_http_typed_def http_read_def byte_http_def Let_def int64_ok_def split: list.splits if_splits)

text \<open>The program's registry handles a client's SSH greeting: the run returns.\<close>

lemma example_message_run:
  "\<exists>d'. dispatch_run (buildRegistry byte_http example_unicode Defaults)
     [(3, \<lambda>i. True, TCPJob (example_message False))] example_dispatcher = Some d'"
  using example_message_ssh [of byte_http example_unicode Defaults] ssh_iface.safe_parser_axioms
  by (intro netcap.run_returns) (simp del: job_resolve.simps)

theorem emitted_events_typed_witness:
  "\<exists>d' new. dispatch_run (buildRegistry byte_http example_unicode Defaults)
      [(3, \<lambda>i. True, TCPJob (example_message False))] example_dispatcher = Some d' \<and>
     emitted d' = emitted example_dispatcher @ new \<and> list_all event_typed new"
proof -
  obtain d' where d': "dispatch_run (buildRegistry byte_http example_unicode Defaults)
      [(3, \<lambda>i. True, TCPJob (example_message False))] example_dispatcher = Some d'"
    using example_message_run by blast
  with emitted_events_typed [OF byte_http_typed _ d'] show ?thesis by (simp add: int64_ok_def)
qed

end
