(* ===== verification/Session.thy ===== *)
theory Session
  imports Typing
begin

text \<open>
  One TCP connection from its segments to its events: the stream callbacks of the reassembly stage
  (\<^verbatim>\<open>internal/reassembly/stream.go\<close>) composed with the dispatcher (\<^verbatim>\<open>internal/dispatch\<close>) and the program's
  parsers.

  \<^item> \<open>session_messages\<close> is the reference: the messages of a completed connection as a function of the bytes of its two directions.
    As long as both directions stay below the flush threshold, the stage produces exactly these messages, however
    the bytes were cut into segments and interleaved.
  \<^item> \<open>session_jobs\<close> are the messages that the channel accepted (\<open>sent_messages\<close>) as jobs of the dispatcher. For a MySQL or PostgreSQL
    connection the events are those of the client's packets, by the specification of the parser's theory.
  \<^item> Above the threshold a message of the protocol can be cut in two, and both calls of the parser miss it.
\<close>

section \<open>The messages of a connection\<close>

definition data_message :: "gopacket \<Rightarrow> Flow \<Rightarrow> Flow \<Rightarrow> int option \<Rightarrow> bool \<Rightarrow> bytes \<Rightarrow> StreamData" where
  "data_message G netFlow tcpFlow ts c data =
     \<lparr>sd_Net = netFlow, sd_Transport = tcpFlow, sd_Data = data, sd_IsClient = c, sd_Timestamp = case_option 0 id ts,
      sd_ConnMeta = streamMeta G (stream_New G netFlow tcpFlow) (the (extractPorts tcpFlow)), sd_Closed = False\<rparr>"

definition close_message :: "gopacket \<Rightarrow> Flow \<Rightarrow> Flow \<Rightarrow> StreamData" where
  "close_message G netFlow tcpFlow =
     \<lparr>sd_Net = netFlow, sd_Transport = tcpFlow, sd_Data = [], sd_IsClient = False, sd_Timestamp = 0,
      sd_ConnMeta = streamMeta G (stream_New G netFlow tcpFlow) (the (extractPorts tcpFlow)), sd_Closed = True\<rparr>"

definition direction_messages :: "gopacket \<Rightarrow> Flow \<Rightarrow> Flow \<Rightarrow> int option \<Rightarrow> bool \<Rightarrow> bytes \<Rightarrow> StreamData list" where
  "direction_messages G netFlow tcpFlow ts c data =
     (if data = [] then [] else [data_message G netFlow tcpFlow ts c data])"

definition session_messages :: "gopacket \<Rightarrow> Flow \<Rightarrow> Flow \<Rightarrow> int option \<Rightarrow> bytes \<Rightarrow> bytes \<Rightarrow> StreamData list" where
  "session_messages G netFlow tcpFlow ts client server =
     direction_messages G netFlow tcpFlow ts True client @ direction_messages G netFlow tcpFlow ts False server @
     [close_message G netFlow tcpFlow]"

section \<open>Lemmas: the stream\<close>

text \<open>The stream of a connection with given buffers.\<close>

definition buffering :: "gopacket \<Rightarrow> Flow \<Rightarrow> Flow \<Rightarrow> bytes \<Rightarrow> bytes \<Rightarrow> biStream" where
  "buffering G netFlow tcpFlow client server = (stream_New G netFlow tcpFlow)\<lparr>clientBuf := client, serverBuf := server\<rparr>"

lemma buffering_New: "stream_New G netFlow tcpFlow = buffering G netFlow tcpFlow [] []"
  by (simp add: buffering_def stream_New_def)

lemma buffering_simps [simp]:
  "clientBuf (buffering G n t a b) = a" "serverBuf (buffering G n t a b) = b"
  "direction_buf c (buffering G n t a b) = (if c then a else b)"
  "set_buf c x (buffering G n t a b) = (if c then buffering G n t x b else buffering G n t a x)"
  "bs_net (buffering G n t a b) = n" "bs_transport (buffering G n t a b) = t"
  "streamMeta G (buffering G n t a b) = streamMeta G (stream_New G n t)"
  by (auto simp: buffering_def stream_New_def direction_buf_def set_buf_def streamMeta_def fun_eq_iff)

text \<open>Sending into a channel with room.\<close>

definition room_for :: "nat \<Rightarrow> link \<Rightarrow> bool" where
  "room_for k l \<longleftrightarrow> buffered l + k \<le> capacity l"

definition sent :: "StreamData list \<Rightarrow> link \<Rightarrow> link" where
  "sent xs l = l\<lparr>buffered := buffered l + length xs, attempts := attempts l @ map (\<lambda>x. (x, True)) xs\<rparr>"

lemma sent_simps [simp]:
  "sent [] l = l" "sent ys (sent xs l) = sent (xs @ ys) l" "room_for k (sent xs l) \<longleftrightarrow> room_for (length xs + k) l"
  "attempts (sent xs l) = attempts l @ map (\<lambda>x. (x, True)) xs"
  by (simp_all add: sent_def room_for_def add.assoc)

text \<open>The messages that the channel accepted.\<close>

definition sent_messages :: "link \<Rightarrow> StreamData list" where
  "sent_messages l = map fst (filter snd (attempts l))"

lemma sent_messages_all: "attempts l = map (\<lambda>m. (m, True)) ms \<Longrightarrow> sent_messages l = ms"
  by (simp add: sent_messages_def comp_def)

lemma room_for_less: "room_for k l \<Longrightarrow> j \<le> k \<Longrightarrow> room_for j l"
  by (simp add: room_for_def)

lemma try_send_room: "room_for (Suc k) l \<Longrightarrow> try_send x l = sent [x] l"
  by (simp add: try_send_def room_for_def sent_def)

lemma flush_room:
  assumes "room_for (Suc k) l"
  shows "flushDirectionLocked G c ts (buffering G n t a b) l =
    Some (if c then buffering G n t [] b else buffering G n t a [],
      sent (direction_messages G n t ts c (if c then a else b)) l)"
proof -
  obtain ports where "extractPorts t = Some ports" using extractPorts_returns by blast
  then show ?thesis
    using try_send_room [OF assms]
    by (auto simp: flushDirectionLocked_def direction_messages_def data_message_def Let_def)
qed

lemma Complete_room:
  assumes "room_for (length (session_messages G n t ts a b)) l"
  shows "ReassemblyComplete G ts (buffering G n t a b) l =
    Some (buffering G n t [] [], sent (session_messages G n t ts a b) l, False)"
proof -
  obtain ports where p: "extractPorts t = Some ports" using extractPorts_returns by blast
  let ?a = "direction_messages G n t ts True a" and ?b = "direction_messages G n t ts False b"
  have r: "room_for (Suc 0) l" "room_for (Suc 0) (sent ?a l)" "room_for (Suc 0) (sent (?a @ ?b) l)"
    using assms unfolding sent_simps by (auto simp: room_for_def session_messages_def)
  show ?thesis
    using guarded_flush [of True "buffering G n t a b" G ts l] guarded_flush [of False "buffering G n t [] b" G ts "sent ?a l"]
      flush_room [OF r(1), of G True ts n t a b] flush_room [OF r(2), of G False ts n t "[]" b] try_send_room [OF r(3)] p
    by (simp add: ReassemblyComplete_def emitCloseLocked_def session_messages_def close_message_def Let_def)
qed

lemma stream_run_buffers:
  assumes "len (a @ segment_bytes True evs) < maxBufferSize" "len (b @ segment_bytes False evs) < maxBufferSize"
  shows "\<exists>l'. stream_run G evs (buffering G n t a b) l =
      Some (buffering G n t (a @ segment_bytes True evs) (b @ segment_bytes False evs), l') \<and>
    attempts l' = attempts l \<and> capacity l' = capacity l \<and> buffered l' \<le> buffered l"
  using assms
proof (induction evs arbitrary: a b l)
  case Nil
  then show ?case by (simp add: segment_bytes_def)
next
  case (Cons ev evs)
  show ?case
  proof (cases ev)
    case (Segment data c ts)
    let ?a = "if c then a @ data else a" and ?b = "if c then b else b @ data"
    have "ReassembledSG G data c ts (buffering G n t a b) l = Some (buffering G n t ?a ?b, l)"
      using Cons.prems Segment by (auto simp: ReassembledSG_def Let_def segment_bytes_def)
    with Cons.IH [of ?a ?b l] Cons.prems Segment show ?thesis
      by (auto simp: segment_bytes_def)
  next
    case Taken
    with Cons.IH [of a b "l\<lparr>buffered := buffered l - 1\<rparr>"] Cons.prems show ?thesis
      by (fastforce simp: segment_bytes_def)
  qed
qed

lemma stream_run_append:
  "stream_run G (xs @ ys) s l = Option.bind (stream_run G xs s l) (\<lambda>(s, l). stream_run G ys s l)"
proof (induction xs arbitrary: s l)
  case (Cons x xs)
  then show ?case by (cases x) (auto split: prod.splits intro: Option.bind_cong)
qed simp

lemma session_run:
  assumes "len (segment_bytes True evs) < maxBufferSize" "len (segment_bytes False evs) < maxBufferSize" "3 \<le> n"
  shows "\<exists>s l s' l'. stream_run G evs (stream_New G netFlow tcpFlow) (idle_link n) = Some (s, l) \<and>
    ReassemblyComplete G ts s l = Some (s', l', False) \<and>
    attempts l' = map (\<lambda>m. (m, True))
      (session_messages G netFlow tcpFlow ts (segment_bytes True evs) (segment_bytes False evs))"
proof -
  obtain l where l: "stream_run G evs (buffering G netFlow tcpFlow [] []) (idle_link n) =
      Some (buffering G netFlow tcpFlow (segment_bytes True evs) (segment_bytes False evs), l)"
    "attempts l = []" "capacity l = n" "buffered l = 0"
    using stream_run_buffers [of "[]" evs "[]" G netFlow tcpFlow "idle_link n"] assms(1,2)
    by (auto simp: idle_link_def)
  then have "room_for (length (session_messages G netFlow tcpFlow ts (segment_bytes True evs) (segment_bytes False evs))) l"
    using assms(3) by (auto simp: room_for_def session_messages_def direction_messages_def)
  from l Complete_room [OF this] show ?thesis by (simp add: buffering_New)
qed

text \<open>
  A client direction that reaches the threshold once, with the segment \<open>x\<close>: what has arrived by then is a message of its own.
\<close>

lemma split_run:
  assumes "len (segment_bytes True evs1) < maxBufferSize" "maxBufferSize \<le> len (segment_bytes True evs1 @ x)"
    and "len (segment_bytes True evs2) < maxBufferSize" "len (segment_bytes False (evs1 @ evs2)) < maxBufferSize" "4 \<le> n"
  shows "\<exists>s l s' l'. stream_run G (evs1 @ Segment x True ts1 # evs2) (stream_New G netFlow tcpFlow) (idle_link n) = Some (s, l) \<and>
    ReassemblyComplete G ts s l = Some (s', l', False) \<and>
    attempts l' = map (\<lambda>m. (m, True))
      (data_message G netFlow tcpFlow ts1 True (segment_bytes True evs1 @ x) #
       session_messages G netFlow tcpFlow ts (segment_bytes True evs2) (segment_bytes False (evs1 @ evs2)))"
proof -
  let ?a = "segment_bytes True evs1" and ?b = "segment_bytes False evs1"
  let ?m = "data_message G netFlow tcpFlow ts1 True (?a @ x)"
  have server: "segment_bytes False (evs1 @ evs2) = ?b @ segment_bytes False evs2" by (simp add: segment_bytes_def)
  obtain l1 where l1: "stream_run G evs1 (buffering G netFlow tcpFlow [] []) (idle_link n) =
      Some (buffering G netFlow tcpFlow ?a ?b, l1)" "attempts l1 = []" "capacity l1 = n" "buffered l1 = 0"
    using stream_run_buffers [of "[]" evs1 "[]" G netFlow tcpFlow "idle_link n"] assms(1,4)
    by (auto simp: idle_link_def server)
  have "room_for (Suc 0) l1" using l1 assms(5) by (simp add: room_for_def)
  from flush_room [OF this, of G True ts1 netFlow tcpFlow "?a @ x" ?b]
  have sg: "ReassembledSG G x True ts1 (buffering G netFlow tcpFlow ?a ?b) l1 =
      Some (buffering G netFlow tcpFlow [] ?b, sent [?m] l1)"
    using assms(1,2) by (auto simp: ReassembledSG_def Let_def direction_messages_def)
  obtain l2 where l2: "stream_run G evs2 (buffering G netFlow tcpFlow [] ?b) (sent [?m] l1) =
      Some (buffering G netFlow tcpFlow (segment_bytes True evs2) (segment_bytes False (evs1 @ evs2)), l2)"
    "attempts l2 = [(?m, True)]" "capacity l2 = n" "buffered l2 \<le> 1"
    using stream_run_buffers [of "[]" evs2 ?b G netFlow tcpFlow "sent [?m] l1"] assms(3,4) l1
    by (auto simp: server sent_def)
  then have "room_for (length (session_messages G netFlow tcpFlow ts (segment_bytes True evs2) (segment_bytes False (evs1 @ evs2)))) l2"
    using assms(5) by (auto simp: room_for_def session_messages_def direction_messages_def)
  from Complete_room [OF this] l1 l2 sg show ?thesis
    by (simp add: buffering_New stream_run_append)
qed

section \<open>Lemmas: the dispatcher\<close>

definition session_jobs :: "int \<Rightarrow> StreamData list \<Rightarrow> (int \<times> (nat \<Rightarrow> bool) \<times> job) list" where
  "session_jobs now ms = map (\<lambda>m. (now, \<lambda>i. True, TCPJob m)) ms"

definition session_meta :: "gopacket \<Rightarrow> Flow \<Rightarrow> Flow \<Rightarrow> ConnMeta" where
  "session_meta G netFlow tcpFlow = tcpMeta (close_message G netFlow tcpFlow)"

lemma data_message_meta [simp]: "tcpMeta (data_message G n t ts c data) = session_meta G n t"
  by (simp add: session_meta_def tcpMeta_def data_message_def close_message_def)

lemma dispatch_run_append: "dispatch_run R (xs @ ys) d = Option.bind (dispatch_run R xs d) (dispatch_run R ys)"
proof (induction xs arbitrary: d)
  case (Cons j xs)
  then show ?case by (cases "run_job R j d") simp_all
qed simp

lemma session_jobs_append: "session_jobs now (xs @ ys) = session_jobs now xs @ session_jobs now ys"
  by (simp add: session_jobs_def)


lemma emit_all: "emit (\<lambda>i. True) k evs = evs"
  by (induction evs arbitrary: k) simp_all

lemma direction_events:
  assumes "extractPorts t = Some (sp, dp)" "Resolve R sp dp data c = Some (Some p)"
    and "Parse p now (parserState d) data [] (session_meta G n t) c = Some (parserState d, Inr evs)" "data = [] \<Longrightarrow> evs = []"
  shows "dispatch_run R (session_jobs now (direction_messages G n t ts c data)) d = Some (d\<lparr>emitted := emitted d @ evs\<rparr>)"
proof (cases "data = []")
  case True
  with assms(4) show ?thesis by (simp add: session_jobs_def direction_messages_def)
next
  case False
  let ?m = "data_message G n t ts c data"
  have "\<not> sd_Closed ?m" "sd_Data ?m = data" "sd_IsClient ?m = c" "sm_SrcPort (sd_ConnMeta ?m) = sp" "sm_DstPort (sd_ConnMeta ?m) = dp"
    using assms(1) by (simp_all add: data_message_def streamMeta_def)
  with False assms(2,3) show ?thesis
    by (simp add: session_jobs_def direction_messages_def handleTCP_def parse_and_emit_def emit_all)
qed

lemma close_session:
  "\<exists>d'. dispatch_run R (session_jobs now [close_message G n t]) d = Some d' \<and> emitted d' = emitted d"
  by (simp add: session_jobs_def handleTCP_def close_message_def)

text \<open>
  What the composition relies on: the registry gives a port to one parser, and the parser keeps no state. The lemmas
  take a connection to that port from its messages, or from its segments, to its events.
\<close>

locale port_session =
  fixes registry :: "'s Registry" and port :: u16 and p :: "'s Parser"
    and parse :: "int \<Rightarrow> bytes \<Rightarrow> ConnMeta \<Rightarrow> bool \<Rightarrow> parse_result go"
  assumes resolves: "Resolve registry sp port sample c = Some (Some p)"
    and stateless_parse: "Parse p now st data [] meta c = map_option (\<lambda>r. (st, r)) (parse now data meta c)"
    and parse_empty: "parse now [] meta c = Some (Inr [])"
begin

lemma direction:
  assumes "extractPorts t = Some (sp, port)" "parse now data (session_meta G n t) c = Some (Inr evs)"
  shows "dispatch_run registry (session_jobs now (direction_messages G n t ts c data)) d =
    Some (d\<lparr>emitted := emitted d @ evs\<rparr>)"
  by (rule direction_events [OF assms(1) resolves]) (use assms(2) parse_empty in \<open>auto simp: stateless_parse\<close>)

lemma messages:
  assumes "extractPorts t = Some (sp, port)" "parse now client (session_meta G n t) True = Some (Inr es)"
    and "parse now server (session_meta G n t) False = Some (Inr rs)"
  shows "\<exists>d'. dispatch_run registry (session_jobs now (session_messages G n t ts client server)) d = Some d' \<and>
    emitted d' = emitted d @ es @ rs"
  using direction [OF assms(1,2), of ts] direction [OF assms(1,3), of ts]
    close_session [of registry now G n t "d\<lparr>emitted := emitted d @ es @ rs\<rparr>"]
  by (auto simp: session_messages_def session_jobs_append dispatch_run_append)

lemma connection:
  assumes "extractPorts tcpFlow = Some (sp, port)" "3 \<le> n"
    and "len (segment_bytes True evs) < maxBufferSize" "len (segment_bytes False evs) < maxBufferSize"
    and "parse now (segment_bytes True evs) (session_meta G netFlow tcpFlow) True = Some (Inr es)"
    and "parse now (segment_bytes False evs) (session_meta G netFlow tcpFlow) False = Some (Inr rs)"
  shows "\<exists>s l s' l' d'. stream_run G evs (stream_New G netFlow tcpFlow) (idle_link n) = Some (s, l) \<and>
    ReassemblyComplete G ts s l = Some (s', l', False) \<and>
    dispatch_run registry (session_jobs now (sent_messages l')) d = Some d' \<and> emitted d' = emitted d @ es @ rs"
  using session_run [OF assms(3,4,2), of G netFlow tcpFlow ts] messages [OF assms(1,5,6), of ts d]
  by (fastforce dest: sent_messages_all)

end

abbreviation max_query :: "Config \<Rightarrow> int" where
  "max_query cfg \<equiv> dbc_MaxQueryLength (pc_DB (cfg_Protocols cfg))"

lemma Resolve_port:
  "Resolve (buildRegistry L U cfg) sp 3306 sample c = Some (Some (mysql_parser (max_query cfg)))"
  "Resolve (buildRegistry L U cfg) sp 5432 sample c = Some (Some (pg_parser (max_query cfg)))"
  "Resolve (buildRegistry L U cfg) sp 6379 sample c = Some (Some (redis_parser U (max_query cfg)))"
  "Resolve (buildRegistry L U cfg) sp 22 sample c = Some (Some ssh_parser)"
  by (simp_all add: Resolve_def portParsers_buildRegistry netcap_parsers_def Let_def netcap_parser_defs go_index_def)

interpretation mysql_port: port_session "buildRegistry L U cfg" 3306 "mysql_parser (max_query cfg)" "mysql_Parse (max_query cfg)"
  for L U cfg
  by unfold_locales
    (simp_all add: Resolve_port mysql_parser_def stateless_def mysql_Parse_def frame_loop.simps mysql_next_def)


interpretation redis_port: port_session "buildRegistry L U cfg" 6379 "redis_parser U (max_query cfg)" "redis_Parse U (max_query cfg)"
  for L U cfg
  by unfold_locales
    (simp_all add: Resolve_port redis_parser_def stateless_def redis_Parse_def frame_loop.simps redis_next_def)

interpretation ssh_port: port_session "buildRegistry L U cfg" 22 ssh_parser ssh_Parse for L U cfg
  by unfold_locales (simp_all add: Resolve_port ssh_parser_def stateless_def ssh_Parse_def)

lemma mysql_responses:
  "upon_return (mysql_Parse maxq now data meta False)
     (\<lambda>r. \<forall>evs. r = Inr evs \<longrightarrow> list_all (\<lambda>e. ev_Direction e = DirectionResponse) evs)"
proof -
  have dec: "upon_return (mysql_decodePacket maxq now p meta False)
      (\<lambda>ev. \<forall>e. ev = Some e \<longrightarrow> ev_Direction e = DirectionResponse)" for p
    by (auto simp: mysql_decodePacket_def mysql_decodeResponse_def fillMeta_def NewEvent_def wlp intro!: upon_binary)
  have "upon_return (frame_loop (mysql_next maxq now meta False) data)
      (\<lambda>es. \<forall>e \<in> set es. ev_Direction e = DirectionResponse)"
    by (intro frame_loop_upon) (auto simp: mysql_next_def wlp intro!: upon_binary upon_return_mono [OF dec])
  then show ?thesis by (simp add: mysql_Parse_def wlp list_all_iff)
qed

section \<open>Properties\<close>

text \<open>
  C8: How the bytes arrive does not matter. For a connection whose directions both stay below 256 KiB, however its bytes are cut into
  segments, however the directions interleave and whenever the consumer takes messages, the stage sends exactly the messages of the
  reference \<open>session_messages\<close>: one with all bytes of the client, one with all bytes of the server, and the close marker.
\<close>

theorem segmentation_irrelevant:
  assumes "len (segment_bytes True evs) < maxBufferSize" "len (segment_bytes False evs) < maxBufferSize" "3 \<le> n"
  shows "\<exists>s l s' l'. stream_run G evs (stream_New G netFlow tcpFlow) (idle_link n) = Some (s, l) \<and>
    ReassemblyComplete G ts s l = Some (s', l', False) \<and>
    attempts l' = map (\<lambda>m. (m, True))
      (session_messages G netFlow tcpFlow ts (segment_bytes True evs) (segment_bytes False evs))"
  by (rule session_run [OF assms])

definition example_flows :: "gopacket \<times> Flow \<times> Flow" where
  "example_flows =
     (\<lparr>endpointString = (\<lambda>b. if b = [10, 0, 0, 1] then ''10.0.0.1'' else ''10.0.0.2''), FastHash = (\<lambda>f. 9)\<rparr>,
      \<lparr>flow_Src = [10, 0, 0, 1], flow_Dst = [10, 0, 0, 2]\<rparr>, \<lparr>flow_Src = [0x9C, 0x40], flow_Dst = [0x0C, 0xEA]\<rparr>)"

theorem segmentation_irrelevant_witness:
  "case example_flows of (G, netFlow, tcpFlow) \<Rightarrow>
     \<exists>s l s' l'. stream_run G [Segment [1, 2] True None, Taken, Segment [3] False (Some 5), Segment [4] True None]
         (stream_New G netFlow tcpFlow) (idle_link 4) = Some (s, l) \<and>
       ReassemblyComplete G (Some 6) s l = Some (s', l', False) \<and>
       attempts l' = map (\<lambda>m. (m, True)) (session_messages G netFlow tcpFlow (Some 6) [1, 2, 4] [3])"
  using segmentation_irrelevant
    [of "[Segment [1, 2] True None, Taken, Segment [3] False (Some 5), Segment [4] True None]" 4 "fst example_flows"
      "fst (snd example_flows)" "snd (snd example_flows)" "Some 6"]
  by (simp add: segment_bytes_def maxBufferSize_def split_beta)







text \<open>
  C24: A message can be lost to the flush at 256 KiB. Let a client of port 3306 send one query packet, and let the segments that have arrived
  when the threshold is reached hold only a part \<open>d1\<close> of it; the rest \<open>d2\<close>, itself below the threshold, arrives in later segments in any way, mixed with
  answers of the server. The parser would report the query if it saw its bytes together. But the stage passes on \<open>d1\<close> and \<open>d2\<close> as two
  messages, and although the channel accepts every byte, the dispatcher reports for the client only what it reads into \<open>d2\<close> as if a
  packet began there: nothing if \<open>d2\<close> is shorter than a header, and nothing as long as its first bytes are a longer length than
  it has.
\<close>

theorem split_message_lost:
  assumes "extractPorts tcpFlow = Some (sp, 3306)" "4 \<le> n"
    and "mysql_packet sq (comQuery # bytes_of sql) = d1 @ d2" "length sql + 1 < 2 ^ 24" "d2 \<noteq> []"
    and "segment_bytes True evs1 @ x = d1" "len (segment_bytes True evs1) < maxBufferSize" "maxBufferSize \<le> len d1"
    and "segment_bytes True evs2 = d2" "len d2 < maxBufferSize"
    and "len (segment_bytes False (evs1 @ evs2)) < maxBufferSize"
  shows "mysql_Parse (max_query cfg) now (d1 @ d2) (session_meta G netFlow tcpFlow) True =
      Some (Inr [mysql_statement_event (max_query cfg) now (session_meta G netFlow tcpFlow) ''COM_QUERY'' sql]) \<and>
    (\<exists>s l s' l' d tail responses.
       stream_run G (evs1 @ Segment x True ts1 # evs2) (stream_New G netFlow tcpFlow) (idle_link n) = Some (s, l) \<and>
       ReassemblyComplete G ts s l = Some (s', l', False) \<and>
       sent_messages l' = data_message G netFlow tcpFlow ts1 True d1 #
         session_messages G netFlow tcpFlow ts d2 (segment_bytes False (evs1 @ evs2)) \<and>
       dispatch_run (buildRegistry L U cfg) (session_jobs now (sent_messages l')) \<lparr>parserState = st, emitted = []\<rparr> = Some d \<and>
       emitted d = tail @ responses \<and> list_all (\<lambda>e. ev_Direction e = DirectionResponse) responses \<and>
       mysql_Parse (max_query cfg) now d2 (session_meta G netFlow tcpFlow) True = Some (Inr tail) \<and>
       (length d2 < 4 \<or> (\<exists>sq p. strict_prefix d2 (mysql_packet sq p) \<and> length p < 2 ^ 24) \<longrightarrow> tail = []))"
proof -
  let ?maxq = "max_query cfg" and ?meta = "session_meta G netFlow tcpFlow" and ?server = "segment_bytes False (evs1 @ evs2)"
  let ?d0 = "\<lparr>parserState = st, emitted = []\<rparr>" and ?m = "data_message G netFlow tcpFlow ts1 True d1"
  have "strict_prefix [] (mysql_packet 0 [])" by (simp add: mysql_packet_def put_le24_def)
  then have whole: "mysql_Parse ?maxq now (d1 @ d2) ?meta True = Some (Inr [mysql_statement_event ?maxq now ?meta ''COM_QUERY'' sql])"
    using mysql_commands_roundtrip [of "[(sq, comQuery # bytes_of sql)]" "[]" 0 "[]" ?maxq now ?meta] assms(3,4)
    by (simp add: map_filter_def comQuery_def)
  have d1: "mysql_Parse ?maxq now d1 ?meta True = Some (Inr [])"
    by (rule mysql_incomplete [of _ sq "comQuery # bytes_of sql"]) (use assms(3-5) in \<open>simp_all add: strict_prefix_def\<close>)
  obtain tail where tail: "mysql_Parse ?maxq now d2 ?meta True = Some (Inr tail)"
    using mysql_Parse_total [of ?maxq now d2 ?meta True] by blast
  have none: "tail = []" if "length d2 < 4 \<or> (\<exists>sq p. strict_prefix d2 (mysql_packet sq p) \<and> length p < 2 ^ 24)"
    using that tail by (auto simp: mysql_incomplete) (simp add: mysql_Parse_def frame_loop.simps mysql_next_def)
  obtain rs where rs: "mysql_Parse ?maxq now ?server ?meta False = Some (Inr rs)"
    using mysql_Parse_total [of ?maxq now ?server ?meta False] by blast
  with upon_returnD [OF mysql_responses rs] have resp: "list_all (\<lambda>e. ev_Direction e = DirectionResponse) rs" by simp
  have ne: "d1 \<noteq> []" using assms(8) by (auto simp: maxBufferSize_def)
  then have m: "session_jobs now (?m # ms) = session_jobs now (direction_messages G netFlow tcpFlow ts1 True d1) @ session_jobs now ms" for ms
    by (simp add: direction_messages_def session_jobs_def)
  have "dispatch_run (buildRegistry L U cfg) (session_jobs now (direction_messages G netFlow tcpFlow ts1 True d1)) ?d0 = Some ?d0"
    using mysql_port.direction [OF assms(1) d1, where L = L and U = U and ts = ts1 and d = ?d0] by simp
  with mysql_port.messages [OF assms(1) tail rs, where ts = ts and L = L and U = U and d = ?d0] obtain d where
    d: "dispatch_run (buildRegistry L U cfg) (session_jobs now (?m # session_messages G netFlow tcpFlow ts d2 ?server)) ?d0 = Some d"
      "emitted d = tail @ rs"
    by (auto simp: m dispatch_run_append)
  obtain s l s' l' where run: "stream_run G (evs1 @ Segment x True ts1 # evs2) (stream_New G netFlow tcpFlow) (idle_link n) = Some (s, l)"
    "ReassemblyComplete G ts s l = Some (s', l', False)" "sent_messages l' = ?m # session_messages G netFlow tcpFlow ts d2 ?server"
    using split_run [of evs1 x evs2 n G ts1 netFlow tcpFlow ts] assms(2,6-11) by (fastforce dest: sent_messages_all)
  show ?thesis using whole run d tail none resp by (auto simp: run(3))
qed

theorem split_message_lost_witness:
  "case example_flows of (G, netFlow, tcpFlow) \<Rightarrow>
     \<exists>d1 x d2. mysql_packet 0 (comQuery # bytes_of (replicate (256 * 1024) CHR ''x'')) = (d1 @ x) @ d2 \<and> length d2 = 2 \<and>
       mysql_Parse 4096 7 ((d1 @ x) @ d2) (session_meta G netFlow tcpFlow) True =
         Some (Inr [mysql_statement_event 4096 7 (session_meta G netFlow tcpFlow) ''COM_QUERY'' (replicate (256 * 1024) CHR ''x'')]) \<and>
       (\<exists>s l s' l' d responses. stream_run G ([Segment d1 True None] @ Segment x True None # [Segment d2 True None])
            (stream_New G netFlow tcpFlow) (idle_link 4096) = Some (s, l) \<and>
          ReassemblyComplete G None s l = Some (s', l', False) \<and>
          sent_messages l' = data_message G netFlow tcpFlow None True (d1 @ x) # session_messages G netFlow tcpFlow None d2 [] \<and>
          dispatch_run (buildRegistry byte_http example_unicode Defaults) (session_jobs 7 (sent_messages l'))
            \<lparr>parserState = Map.empty, emitted = []\<rparr> = Some d \<and>
          emitted d = responses \<and> list_all (\<lambda>e. ev_Direction e = DirectionResponse) responses)"
proof -
  let ?sql = "replicate (256 * 1024) CHR ''x''"
  let ?p = "mysql_packet 0 (comQuery # bytes_of ?sql)"
  obtain d1 x d2 where p: "?p = (d1 @ x) @ d2" "length d1 = 9" "length x = 256 * 1024 - 6" "length d2 = 2"
  proof
    show "?p = (take 9 ?p @ take (256 * 1024 - 6) (drop 9 ?p)) @ drop (256 * 1024 - 6) (drop 9 ?p)"
      unfolding append.assoc by (simp only: append_take_drop_id)
  qed (simp_all add: mysql_packet_def put_le24_def)
  have maxq: "max_query Defaults = 4096" by (simp add: Defaults_def)
  have ports: "extractPorts (snd (snd example_flows)) = Some (40000, 3306)"
    by (simp add: example_flows_def extractPorts_def raw_port_def be16_def go_index_def)
  have seg: "segment_bytes True [Segment y True None] = y" "segment_bytes False ([Segment y True None] @ [Segment z True None]) = []" for y z
    by (simp_all add: segment_bytes_def)
  have "length ?sql + 1 < 2 ^ 24" "d2 \<noteq> []" "len d1 < maxBufferSize" "maxBufferSize \<le> len (d1 @ x)" "len d2 < maxBufferSize"
    using p(2-4) by (auto simp: maxBufferSize_def)
  then have "mysql_Parse (max_query Defaults) 7 ((d1 @ x) @ d2) (session_meta (fst example_flows) (fst (snd example_flows)) (snd (snd example_flows))) True =
      Some (Inr [mysql_statement_event (max_query Defaults) 7
        (session_meta (fst example_flows) (fst (snd example_flows)) (snd (snd example_flows))) ''COM_QUERY'' ?sql]) \<and>
    (\<exists>s l s' l' d tail responses.
       stream_run (fst example_flows) ([Segment d1 True None] @ Segment x True None # [Segment d2 True None])
         (stream_New (fst example_flows) (fst (snd example_flows)) (snd (snd example_flows))) (idle_link 4096) = Some (s, l) \<and>
       ReassemblyComplete (fst example_flows) None s l = Some (s', l', False) \<and>
       sent_messages l' = data_message (fst example_flows) (fst (snd example_flows)) (snd (snd example_flows)) None True (d1 @ x) #
         session_messages (fst example_flows) (fst (snd example_flows)) (snd (snd example_flows)) None d2 [] \<and>
       dispatch_run (buildRegistry byte_http example_unicode Defaults) (session_jobs 7 (sent_messages l'))
         \<lparr>parserState = Map.empty, emitted = []\<rparr> = Some d \<and>
       emitted d = tail @ responses \<and> list_all (\<lambda>e. ev_Direction e = DirectionResponse) responses \<and>
       mysql_Parse (max_query Defaults) 7 d2 (session_meta (fst example_flows) (fst (snd example_flows)) (snd (snd example_flows))) True =
         Some (Inr tail) \<and>
       (length d2 < 4 \<or> (\<exists>sq p. strict_prefix d2 (mysql_packet sq p) \<and> length p < 2 ^ 24) \<longrightarrow> tail = []))"
    using split_message_lost [OF ports _ p(1), of 4096 "[Segment d1 True None]" x "[Segment d2 True None]" Defaults 7
        "fst example_flows" "fst (snd example_flows)" None None byte_http example_unicode Map.empty, unfolded seg maxBufferSize_def [symmetric]]
    by (simp add: maxBufferSize_def [symmetric] del: append_assoc stream_run.simps)
  then show ?thesis
    unfolding maxq split_beta using p(1,4) by (intro exI [of _ d1] exI [of _ x] exI [of _ d2]) (auto simp del: append_assoc stream_run.simps)
qed

end
