(* ===== verification/Kafka.thy ===== *)
theory Kafka
  imports Event
begin

text \<open>
  The Kafka producer (\<^verbatim>\<open>internal/output/kafka.go\<close>).

  \<^item> \<open>NewProducer\<close> fills in the configuration and makes one writer per worker. The kafka-go
    library is not part of the repository: a writer is the record of the settings it is given and,
    as a history, the messages passed to \<^verbatim>\<open>WriteMessages\<close> (whose error is only logged).
    The interface \<^verbatim>\<open>Serializer\<close> is the parameter \<open>marshal\<close>; the program's instance is \<open>Marshal\<close> of theory \<open>Serializer\<close>.
  \<^item> \<open>flowKey\<close> is the partition key, with the FNV-1a hash of \<^verbatim>\<open>hash/fnv\<close> written out.
  \<^item> \<open>producer_step\<close> is the concurrent behaviour: events enter the bounded channel, any idle worker
    takes the oldest one and later writes it, the context may be cancelled, \<^verbatim>\<open>Stop\<close> closes the channel,
    and an idle worker returns when it sees either. \<open>Handoff\<close> is the rendezvous of a sender with a waiting
    worker, the only way through an unbuffered channel. A worker is in \<open>p_active\<close> while it runs;
    \<open>p_holding\<close> is the event it has received and not yet handled. Taking and writing are two steps, so
    workers overtake each other. \<open>p_accepted\<close>, \<open>p_taken\<close> and \<open>p_written\<close> are histories, the last two with the worker.
\<close>

section \<open>Data\<close>

record KafkaConfig =
  kc_Brokers :: "string list"
  kc_Topic :: string
  kc_BatchSize :: int
  kc_BatchTimeout :: int
  kc_Compression :: string
  kc_RequiredAcks :: int
  kc_NumWorkers :: int
  kc_MaxMessageBytes :: int

datatype Compression = NoCompression | Gzip | Snappy | Lz4

record Message =
  m_Key :: bytes
  m_Value :: bytes

record Writer =
  w_Addr :: "string list"
  w_Topic :: string
  w_Async :: bool
  w_BatchSize :: int
  w_BatchTimeout :: int
  w_MaxAttempts :: int
  w_RequiredAcks :: int
  w_Compression :: Compression

record Producer =
  p_cfg :: KafkaConfig
  p_writers :: "Writer list"
  p_inputSize :: nat
  p_input :: "ProtocolEvent list"
  p_closed :: bool
  p_cancelled :: bool
  p_active :: "nat set"
  p_holding :: "nat \<rightharpoonup> ProtocolEvent"
  p_written :: "(nat \<times> Message) list"
  p_accepted :: "ProtocolEvent list"
  p_taken :: "(nat \<times> ProtocolEvent) list"

section \<open>Operations\<close>

definition compressionCodec :: "string \<Rightarrow> Compression" where
  "compressionCodec name =
     (if name = ''lz4'' then Lz4 else if name = ''snappy'' then Snappy
      else if name = ''gzip'' then Gzip else NoCompression)"

definition producer_defaults :: "KafkaConfig \<Rightarrow> KafkaConfig" where
  "producer_defaults cfg =
     (let cfg = (if kc_NumWorkers cfg \<le> 0 then cfg\<lparr>kc_NumWorkers := 1\<rparr> else cfg);
          cfg = (if kc_BatchSize cfg \<le> 0 then cfg\<lparr>kc_BatchSize := 100\<rparr> else cfg);
          cfg = (if kc_BatchTimeout cfg \<le> 0 then cfg\<lparr>kc_BatchTimeout := 500 * 10 ^ 6\<rparr> else cfg);
          cfg = (if kc_MaxMessageBytes cfg \<le> 0 then cfg\<lparr>kc_MaxMessageBytes := push_bit 20 1\<rparr> else cfg)
      in if kc_RequiredAcks cfg = 0 then cfg\<lparr>kc_RequiredAcks := 1\<rparr> else cfg)"

definition newWriter :: "KafkaConfig \<Rightarrow> Writer" where
  "newWriter cfg =
     \<lparr>w_Addr = kc_Brokers cfg, w_Topic = kc_Topic cfg, w_Async = True, w_BatchSize = kc_BatchSize cfg,
      w_BatchTimeout = kc_BatchTimeout cfg, w_MaxAttempts = 3, w_RequiredAcks = kc_RequiredAcks cfg,
      w_Compression = compressionCodec (kc_Compression cfg)\<rparr>"

text \<open>Both calls of \<^verbatim>\<open>make\<close> panic for a size out of range; the writers are made first.\<close>

definition NewProducer :: "make_limits \<Rightarrow> KafkaConfig \<Rightarrow> int \<Rightarrow> Producer go" where
  "NewProducer M cfg inputSize = do {
     let cfg = producer_defaults cfg;
     n \<leftarrow> go_make (lim_Writer M) (kc_NumWorkers cfg);
     let writers = replicate n (newWriter cfg);
     size \<leftarrow> go_make (lim_Event M) inputSize;
     Some \<lparr>p_cfg = cfg, p_writers = writers, p_inputSize = size, p_input = [], p_closed = False, p_cancelled = False,
           p_active = {}, p_holding = Map.empty, p_written = [], p_accepted = [], p_taken = []\<rparr> }"

definition Producer_Start :: "Producer \<Rightarrow> Producer" where
  "Producer_Start p = p\<lparr>p_active := {i. int i < kc_NumWorkers (p_cfg p)}\<rparr>"

text \<open>\<^verbatim>\<open>fnv.New64a()\<close> and \<^verbatim>\<open>Write\<close>.\<close>

definition fnv_offset :: u64 where
  "fnv_offset = 14695981039346656037"

definition fnv_prime :: u64 where
  "fnv_prime = 1099511628211"

definition fnv_byte :: "byte \<Rightarrow> u64 \<Rightarrow> u64" where
  "fnv_byte b h = (h XOR ucast b) * fnv_prime"

definition fnv_write :: "bytes \<Rightarrow> u64 \<Rightarrow> u64" where
  "fnv_write data h = fold fnv_byte data h"

definition flowKey :: "ProtocolEvent \<Rightarrow> bytes" where
  "flowKey ev =
     (let h = fnv_offset;
          h = fnv_write (ev_SrcIP ev) h;
          h = fnv_write (ev_DstIP ev) h;
          h = fnv_write (put_be32 (ev_SrcPort ev)) h;
          h = fnv_write (put_be32 (ev_DstPort ev)) h
      in put_be64 h)"

text \<open>What a worker does with an event it received: nothing is written when serialization fails.\<close>

definition worker_message :: "(ProtocolEvent \<Rightarrow> error + bytes) \<Rightarrow> ProtocolEvent \<Rightarrow> Message option" where
  "worker_message marshal ev =
     (case marshal ev of
        Inl err \<Rightarrow> None
      | Inr data \<Rightarrow> Some \<lparr>m_Key = flowKey ev, m_Value = data\<rparr>)"

definition worker_take :: "nat \<Rightarrow> Producer \<Rightarrow> Producer" where
  "worker_take idx p =
     (case p_input p of
        [] \<Rightarrow> p
      | ev # rest \<Rightarrow> p\<lparr>p_input := rest, p_holding := (p_holding p)(idx \<mapsto> ev), p_taken := p_taken p @ [(idx, ev)]\<rparr>)"

definition worker_write :: "(ProtocolEvent \<Rightarrow> error + bytes) \<Rightarrow> nat \<Rightarrow> ProtocolEvent \<Rightarrow> Producer \<Rightarrow> Producer" where
  "worker_write marshal idx ev p =
     p\<lparr>p_holding := (p_holding p)(idx := None),
       p_written := p_written p @ map (\<lambda>m. (idx, m)) (case_option [] (\<lambda>m. [m]) (worker_message marshal ev))\<rparr>"

definition idle :: "Producer \<Rightarrow> nat \<Rightarrow> bool" where
  "idle p i \<longleftrightarrow> i \<in> p_active p \<and> p_holding p i = None"

inductive producer_step :: "(ProtocolEvent \<Rightarrow> error + bytes) \<Rightarrow> Producer \<Rightarrow> Producer \<Rightarrow> bool" for marshal where
  Send: "\<not> p_closed p \<Longrightarrow> length (p_input p) < p_inputSize p \<Longrightarrow>
    producer_step marshal p (p\<lparr>p_input := p_input p @ [ev], p_accepted := p_accepted p @ [ev]\<rparr>)"
| Handoff: "\<not> p_closed p \<Longrightarrow> p_input p = [] \<Longrightarrow> idle p i \<Longrightarrow>
    producer_step marshal p (worker_take i (p\<lparr>p_input := [ev], p_accepted := p_accepted p @ [ev]\<rparr>))"
| Take: "idle p i \<Longrightarrow> p_input p \<noteq> [] \<Longrightarrow> producer_step marshal p (worker_take i p)"
| Write: "p_holding p i = Some ev \<Longrightarrow> producer_step marshal p (worker_write marshal i ev p)"
| Cancel: "producer_step marshal p (p\<lparr>p_cancelled := True\<rparr>)"
| CloseInput: "\<not> p_closed p \<Longrightarrow> producer_step marshal p (p\<lparr>p_closed := True\<rparr>)"
| ExitCancelled: "idle p i \<Longrightarrow> p_cancelled p \<Longrightarrow>
    producer_step marshal p (p\<lparr>p_active := p_active p - {i}\<rparr>)"
| ExitClosed: "idle p i \<Longrightarrow> p_closed p \<Longrightarrow> p_input p = [] \<Longrightarrow>
    producer_step marshal p (p\<lparr>p_active := p_active p - {i}\<rparr>)"

inductive_cases producer_stepE: "producer_step marshal p q"

text \<open>
  The end of \<^verbatim>\<open>Stop\<close>: every writer is closed, and the first error is the result. \<open>closer i\<close> is the
  error of the \<open>i\<close>-th \<^verbatim>\<open>Close\<close>; the list of the writers closed is the history.
\<close>

fun close_writers :: "(nat \<Rightarrow> error option) \<Rightarrow> nat \<Rightarrow> Writer list \<Rightarrow> error option \<Rightarrow> nat list \<times> error option" where
  "close_writers closer i [] firstErr = ([], firstErr)"
| "close_writers closer i (w # ws) firstErr =
     (let firstErr = (if closer i \<noteq> None \<and> firstErr = None then closer i else firstErr)
      in case close_writers closer (i + 1) ws firstErr of (cs, e) \<Rightarrow> (i # cs, e))"

section \<open>Lemmas: the hash\<close>

text \<open>The FNV prime is odd, so multiplication by it is invertible.\<close>

definition fnv_inverse :: u64 where
  "fnv_inverse = 14886173955864302971"

lemma fnv_inverse: "fnv_prime * fnv_inverse = 1"
  by (simp add: fnv_prime_def fnv_inverse_def)

lemma fnv_byte_state [simp]: "fnv_byte b h = fnv_byte b h' \<longleftrightarrow> h = h'"
proof
  assume "fnv_byte b h = fnv_byte b h'"
  then have "(h XOR ucast b) * (fnv_prime * fnv_inverse) = (h' XOR ucast b) * (fnv_prime * fnv_inverse)"
    by (simp add: fnv_byte_def mult.assoc [symmetric])
  then have "(h XOR ucast b) XOR ucast b = (h' XOR ucast b) XOR ucast b"
    by (simp add: fnv_inverse)
  then show "h = h'" by (simp add: xor.assoc)
qed simp

lemma fnv_byte_byte [simp]: "fnv_byte b h = fnv_byte b' h \<longleftrightarrow> b = b'"
proof
  assume "fnv_byte b h = fnv_byte b' h"
  then have "(h XOR ucast b) * (fnv_prime * fnv_inverse) = (h XOR ucast b') * (fnv_prime * fnv_inverse)"
    by (simp add: fnv_byte_def mult.assoc [symmetric])
  then have "h XOR (h XOR (ucast b :: u64)) = h XOR (h XOR ucast b')"
    by (simp add: fnv_inverse)
  then have "(ucast b :: u64) = ucast b'" by (simp add: xor.assoc [symmetric])
  then have "unat (ucast b :: u64) = unat (ucast b' :: u64)" by simp
  moreover have "take_bit 64 (unat c) = unat c" for c :: byte
    using unat_byte_less [of c] by (intro take_bit_nat_eq_self) simp
  ultimately show "b = b'" by (simp add: unsigned_ucast_eq word_unat_eq_iff)
qed simp

lemma fnv_write_append: "fnv_write (xs @ ys) h = fnv_write ys (fnv_write xs h)"
  by (simp add: fnv_write_def)

lemma fnv_write_state [simp]: "fnv_write xs h = fnv_write xs h' \<longleftrightarrow> h = h'"
  by (induction xs arbitrary: h h') (simp_all add: fnv_write_def)

lemma fnv_write_separates: "b \<noteq> b' \<Longrightarrow> fnv_write (xs @ b # ys) h \<noteq> fnv_write (xs @ b' # ys) h"
proof -
  have "fnv_write (xs @ c # ys) h = fnv_write ys (fnv_byte c (fnv_write xs h))" for c
    by (simp add: fnv_write_append) (simp add: fnv_write_def)
  then show "b \<noteq> b' \<Longrightarrow> ?thesis" by simp
qed

text \<open>What \<open>flowKey\<close> hashes.\<close>

definition flow_bytes :: "ProtocolEvent \<Rightarrow> bytes" where
  "flow_bytes ev = ev_SrcIP ev @ ev_DstIP ev @ put_be32 (ev_SrcPort ev) @ put_be32 (ev_DstPort ev)"

lemma flowKey_bytes: "flowKey ev = put_be64 (fnv_write (flow_bytes ev) fnv_offset)"
  by (simp add: flowKey_def flow_bytes_def fnv_write_append)

text \<open>
  The message of an event by the documentation: the serialized form under the FNV-1a hash of the addresses and ports,
  eight bytes in network order.
\<close>

definition fnv1a :: "bytes \<Rightarrow> u64" where
  "fnv1a data = foldl (\<lambda>h b. (h XOR ucast b) * 1099511628211) 14695981039346656037 data"

definition keyed_form :: "(ProtocolEvent \<Rightarrow> error + bytes) \<Rightarrow> ProtocolEvent \<Rightarrow> Message list" where
  "keyed_form marshal ev =
     (case marshal ev of
        Inl err \<Rightarrow> []
      | Inr data \<Rightarrow> [\<lparr>m_Key = put_be64 (fnv1a (flow_bytes ev)), m_Value = data\<rparr>])"

lemma flowKey_fnv1a: "flowKey ev = put_be64 (fnv1a (flow_bytes ev))"
  by (simp add: flowKey_bytes fnv1a_def fnv_write_def fnv_byte_def [abs_def] fnv_prime_def fnv_offset_def foldl_conv_fold)

lemma written_keyed: "List.map_filter (worker_message marshal) evs = concat (map (keyed_form marshal) evs)"
  by (induction evs) (auto simp: map_filter_def worker_message_def keyed_form_def flowKey_fnv1a split: sum.splits)

lemma put_be64_inj: "put_be64 v = put_be64 w \<Longrightarrow> v = w"
proof -
  assume a: "put_be64 v = put_be64 w"
  have bits: "bit (put_be64 u ! k) j \<longleftrightarrow> bit u (8 * (7 - k) + j)" if "k < 8" "j < 8" for u k j
  proof -
    from that have "k \<in> set [0 ..< 8]" by simp
    then have k: "k = 0 \<or> k = 1 \<or> k = 2 \<or> k = 3 \<or> k = 4 \<or> k = 5 \<or> k = 6 \<or> k = 7" by auto
    show ?thesis
      using k that(2) by (elim disjE) (simp_all add: put_be64_def bit_ucast_iff bit_drop_bit_eq)
  qed
  show "v = w"
  proof (rule bit_word_eqI)
    fix n assume n: "n < LENGTH(64)"
    then have i: "7 - n div 8 < 8" "n mod 8 < 8" and e: "8 * (7 - (7 - n div 8)) + n mod 8 = n" by auto
    show "bit v n \<longleftrightarrow> bit w n" using bits [OF i, of v] bits [OF i, of w] a e by simp
  qed
qed

lemma length_flowKey: "length (flowKey ev) = 8"
  by (simp add: flowKey_bytes put_be64_def)

section \<open>Lemmas: the workers\<close>

text \<open>What a worker has taken, what it holds, and what it has written.\<close>

definition taken_by :: "Producer \<Rightarrow> nat \<Rightarrow> ProtocolEvent list" where
  "taken_by p i = map snd (filter (\<lambda>t. fst t = i) (p_taken p))"

definition held_by :: "Producer \<Rightarrow> nat \<Rightarrow> ProtocolEvent list" where
  "held_by p i = case_option [] (\<lambda>ev. [ev]) (p_holding p i)"

definition written_by :: "Producer \<Rightarrow> nat \<Rightarrow> Message list" where
  "written_by p i = map snd (filter (\<lambda>w. fst w = i) (p_written p))"

definition worker_inv :: "(ProtocolEvent \<Rightarrow> error + bytes) \<Rightarrow> Producer \<Rightarrow> nat \<Rightarrow> bool" where
  "worker_inv marshal p i \<longleftrightarrow>
     (\<exists>finished. taken_by p i = finished @ held_by p i \<and>
        written_by p i = List.map_filter (worker_message marshal) finished)"

definition producer_inv :: "(ProtocolEvent \<Rightarrow> error + bytes) \<Rightarrow> Producer \<Rightarrow> bool" where
  "producer_inv marshal p \<longleftrightarrow>
     p_accepted p = map snd (p_taken p) @ p_input p \<and>
     (\<forall>i. worker_inv marshal p i) \<and>
     length (p_input p) \<le> p_inputSize p \<and>
     (\<forall>t \<in> set (p_taken p). fst t < length (p_writers p)) \<and>
     p_active p \<subseteq> {..< length (p_writers p)} \<and> dom (p_holding p) \<subseteq> p_active p"

lemma worker_take_fields [simp]:
  "p_closed (worker_take i p) = p_closed p" "p_cancelled (worker_take i p) = p_cancelled p"
  "p_active (worker_take i p) = p_active p" "p_accepted (worker_take i p) = p_accepted p"
  "p_input (worker_take i p) = tl (p_input p)" "p_written (worker_take i p) = p_written p"
  "p_writers (worker_take i p) = p_writers p" "p_inputSize (worker_take i p) = p_inputSize p"
  by (auto simp: worker_take_def split: list.splits)

lemma worker_write_fields [simp]:
  "p_closed (worker_write marshal i ev p) = p_closed p" "p_cancelled (worker_write marshal i ev p) = p_cancelled p"
  "p_active (worker_write marshal i ev p) = p_active p" "p_accepted (worker_write marshal i ev p) = p_accepted p"
  "p_input (worker_write marshal i ev p) = p_input p" "p_taken (worker_write marshal i ev p) = p_taken p"
  "p_writers (worker_write marshal i ev p) = p_writers p" "p_inputSize (worker_write marshal i ev p) = p_inputSize p"
  "p_holding (worker_write marshal i ev p) = (p_holding p)(i := None)"
  by (simp_all add: worker_write_def)

lemma worker_inv_updates [simp]:
  "worker_inv marshal (p\<lparr>p_input := xs\<rparr>) i = worker_inv marshal p i"
  "worker_inv marshal (p\<lparr>p_accepted := xs\<rparr>) i = worker_inv marshal p i"
  "worker_inv marshal (p\<lparr>p_cancelled := b\<rparr>) i = worker_inv marshal p i"
  "worker_inv marshal (p\<lparr>p_closed := b\<rparr>) i = worker_inv marshal p i"
  "worker_inv marshal (p\<lparr>p_active := A\<rparr>) i = worker_inv marshal p i"
  by (simp_all add: worker_inv_def taken_by_def held_by_def written_by_def)

lemma producer_inv_worker:
  assumes "producer_inv marshal p"
  obtains finished where "taken_by p i = finished @ held_by p i"
    "written_by p i = List.map_filter (worker_message marshal) finished"
proof -
  have "worker_inv marshal p i" using assms by (simp add: producer_inv_def)
  then show ?thesis using that by (auto simp: worker_inv_def)
qed

lemma worker_inv_take:
  assumes "p_input p = ev # rest" "p_holding p i = None" "worker_inv marshal p j"
  shows "worker_inv marshal (worker_take i p) j"
proof -
  from assms(3) obtain finished where f: "taken_by p j = finished @ held_by p j"
    "written_by p j = List.map_filter (worker_message marshal) finished"
    by (auto simp: worker_inv_def)
  have "taken_by (worker_take i p) j = finished @ held_by (worker_take i p) j"
    using f(1) assms(1,2) by (cases "j = i") (auto simp: taken_by_def held_by_def worker_take_def)
  moreover have "written_by (worker_take i p) j = written_by p j" by (simp add: written_by_def)
  ultimately show ?thesis using f(2) by (auto simp: worker_inv_def)
qed

lemma worker_inv_write:
  assumes "p_holding p i = Some ev" "worker_inv marshal p j"
  shows "worker_inv marshal (worker_write marshal i ev p) j"
proof -
  from assms(2) obtain finished where f: "taken_by p j = finished @ held_by p j"
    "written_by p j = List.map_filter (worker_message marshal) finished"
    by (auto simp: worker_inv_def)
  let ?q = "worker_write marshal i ev p"
  let ?f = "if j = i then finished @ [ev] else finished"
  have "taken_by ?q j = ?f @ held_by ?q j"
    using f(1) assms(1) by (auto simp: taken_by_def held_by_def)
  moreover have "written_by ?q j = List.map_filter (worker_message marshal) ?f"
    using f(2) by (auto simp: written_by_def worker_write_def map_filter_def split: option.splits)
  ultimately show ?thesis unfolding worker_inv_def by blast
qed

lemma producer_inv_take:
  assumes "producer_inv marshal (p\<lparr>p_input := [], p_accepted := map snd (p_taken p)\<rparr>)" "p_accepted p = map snd (p_taken p) @ p_input p"
    and "idle p i" "p_input p \<noteq> []" "length (p_input p) \<le> Suc (p_inputSize p)"
  shows "producer_inv marshal (worker_take i p)"
proof -
  obtain ev rest where input: "p_input p = ev # rest" using assms(4) by (cases "p_input p") auto
  have "worker_inv marshal p j" for j
    using assms(1) by (simp add: producer_inv_def)
  then have "worker_inv marshal (worker_take i p) j" for j
    using worker_inv_take [OF input] assms(3) by (simp add: idle_def)
  moreover have "p_taken (worker_take i p) = p_taken p @ [(i, ev)]" "p_holding (worker_take i p) = (p_holding p)(i \<mapsto> ev)"
    by (simp_all add: worker_take_def input)
  ultimately show ?thesis
    using assms(1,2,3,5) input by (auto simp: producer_inv_def idle_def)
qed

lemma producer_inv_step: "producer_step marshal p q \<Longrightarrow> producer_inv marshal p \<Longrightarrow> producer_inv marshal q"
proof (induction rule: producer_step.induct)
  case (Handoff p i ev)
  then show ?case
    by (intro producer_inv_take) (auto simp: producer_inv_def idle_def)
next
  case (Take p i)
  then show ?case
    by (intro producer_inv_take) (auto simp: producer_inv_def idle_def)
next
  case (Write p i ev)
  then show ?case by (auto simp: producer_inv_def worker_inv_write)
qed (auto simp: producer_inv_def idle_def)

lemma producer_defaults_workers: "0 < kc_NumWorkers (producer_defaults cfg)"
  by (simp add: producer_defaults_def Let_def)

lemma producer_inv_Start:
  "NewProducer M cfg inputSize = Some p \<Longrightarrow> producer_inv marshal (Producer_Start p)"
  by (auto simp: NewProducer_def go_make_def Let_def producer_inv_def Producer_Start_def map_filter_def worker_inv_def
      taken_by_def held_by_def written_by_def split: if_splits)

lemma producer_inv_reachable:
  assumes "rtranclp (producer_step marshal) (Producer_Start p) q" "NewProducer M cfg inputSize = Some p"
  shows "producer_inv marshal q"
  using assms(1) by (induction rule: rtranclp_induct) (auto intro: producer_inv_step producer_inv_Start [OF assms(2)])

text \<open>
  Draining: once the channel is closed and as long as the context is not cancelled, every step takes an
  event, writes one or ends a worker, and the last worker does not leave before the channel is empty.
\<close>

definition drain_step :: "(ProtocolEvent \<Rightarrow> error + bytes) \<Rightarrow> Producer \<Rightarrow> Producer \<Rightarrow> bool" where
  "drain_step marshal p q \<longleftrightarrow> producer_step marshal p q \<and> \<not> p_cancelled q"

definition draining :: "Producer \<Rightarrow> bool" where
  "draining p \<longleftrightarrow> p_closed p \<and> \<not> p_cancelled p \<and> finite (p_active p) \<and> dom (p_holding p) \<subseteq> p_active p \<and>
     (p_active p = {} \<longrightarrow> p_input p = [])"

definition remaining :: "Producer \<Rightarrow> nat" where
  "remaining p = 2 * length (p_input p) + card (dom (p_holding p)) + card (p_active p)"

lemma drain_take:
  assumes "draining p" "idle p i" "p_input p \<noteq> []"
  shows "draining (worker_take i p) \<and> remaining (worker_take i p) < remaining p"
proof -
  obtain ev rest where input: "p_input p = ev # rest" using assms(3) by (cases "p_input p") auto
  then have h: "p_holding (worker_take i p) = (p_holding p)(i \<mapsto> ev)" by (simp add: worker_take_def)
  have "finite (dom (p_holding p))" using assms(1) finite_subset by (auto simp: draining_def)
  then have "card (dom ((p_holding p)(i \<mapsto> ev))) = Suc (card (dom (p_holding p)))"
    using assms(2) by (simp add: idle_def domIff)
  then show ?thesis using assms input h by (auto simp: draining_def remaining_def idle_def)
qed

lemma drain_write:
  assumes "draining p" "p_holding p i = Some ev"
  shows "draining (worker_write marshal i ev p) \<and> remaining (worker_write marshal i ev p) < remaining p"
proof -
  have "finite (dom (p_holding p))" "i \<in> dom (p_holding p)"
    using assms finite_subset by (auto simp: draining_def)
  then have "card (dom (p_holding p) - {i}) < card (dom (p_holding p))" by (rule card_Diff1_less)
  then show ?thesis using assms by (auto simp: draining_def remaining_def)
qed

lemma drain_exit:
  assumes "draining p" "idle p i" "p_input p = []"
  shows "draining (p\<lparr>p_active := p_active p - {i}\<rparr>) \<and> remaining (p\<lparr>p_active := p_active p - {i}\<rparr>) < remaining p"
  using assms card_Diff1_less [of "p_active p" i] by (auto simp: draining_def remaining_def idle_def)

lemma drain_step_progress:
  assumes "drain_step marshal p q" "draining p"
  shows "draining q \<and> remaining q < remaining p \<and> p_accepted q = p_accepted p"
proof -
  have "producer_step marshal p q" "\<not> p_cancelled q" using assms(1) by (simp_all add: drain_step_def)
  then show ?thesis using assms(2)
  proof (cases rule: producer_step.cases)
    case (Take i)
    then show ?thesis using drain_take [OF assms(2)] by simp
  next
    case (Write i ev)
    then show ?thesis using drain_write [OF assms(2)] by simp
  next
    case (ExitClosed i)
    then show ?thesis using drain_exit [OF assms(2)] by simp
  qed (auto simp: draining_def)
qed

lemma drain_bounded:
  "(drain_step marshal ^^ n) p q \<Longrightarrow> draining p \<Longrightarrow>
     draining q \<and> n + remaining q \<le> remaining p \<and> p_accepted q = p_accepted p"
proof (induction n arbitrary: q)
  case (Suc n)
  from Suc.prems(1) obtain r where r: "(drain_step marshal ^^ n) p r" "drain_step marshal r q"
    by (auto elim: relpowp_Suc_E)
  from Suc.IH [OF r(1) Suc.prems(2)] drain_step_progress [OF r(2)] show ?case by auto
qed simp

lemma drain_not_stuck:
  assumes "draining p" "p_active p \<noteq> {}"
  shows "\<exists>q. drain_step marshal p q"
proof -
  obtain i where i: "i \<in> p_active p" using assms(2) by blast
  consider ev where "p_holding p i = Some ev" | "idle p i" "p_input p = []" | "idle p i" "p_input p \<noteq> []"
    using i by (cases "p_holding p i") (auto simp: idle_def)
  then show ?thesis
  proof cases
    case 1
    with assms(1) producer_step.Write [OF 1, of marshal] show ?thesis
      unfolding drain_step_def by (intro exI conjI) (auto simp: draining_def)
  next
    case 2
    with assms(1) producer_step.ExitClosed [of p i marshal] show ?thesis
      by (auto simp: drain_step_def draining_def)
  next
    case 3
    with assms(1) producer_step.Take [OF 3(1), of marshal] show ?thesis
      by (auto simp: drain_step_def draining_def)
  qed
qed

lemma relpowp_inv: "(R ^^ n) p q \<Longrightarrow> (\<And>x y. R x y \<Longrightarrow> P x \<Longrightarrow> P y) \<Longrightarrow> P p \<Longrightarrow> P q"
  by (induction n arbitrary: q) (auto elim: relpowp_Suc_E)

lemma close_writers_spec:
  "close_writers closer i ws e =
     ([i ..< i + length ws],
      case e of Some x \<Rightarrow> Some x
      | None \<Rightarrow> (case List.map_filter closer [i ..< i + length ws] of [] \<Rightarrow> None | x # _ \<Rightarrow> Some x))"
proof (induction ws arbitrary: i e)
  case Nil
  then show ?case by (cases e) (auto simp: map_filter_def)
next
  case (Cons w ws)
  have u: "[i ..< i + length (w # ws)] = i # [Suc i ..< Suc i + length ws]"
    by (simp add: upt_conv_Cons)
  show ?case
    unfolding u by (cases e; cases "closer i") (simp_all add: Cons.IH map_filter_def)
qed

section \<open>Properties\<close>

text \<open>
  C39: Partition keys have eight bytes, depend on nothing but the addresses and ports of the event, and
  separate flows: if the addresses and ports of two events, written out as bytes, differ in exactly one
  byte (for instance two connections between the same hosts with neighbouring client ports), their keys
  are different.
\<close>

theorem flowKey_separates:
  assumes "flow_bytes e1 = xs @ b1 # ys" "flow_bytes e2 = xs @ b2 # ys"
  shows "length (flowKey e1) = 8 \<and> (flowKey e1 = flowKey e2 \<longleftrightarrow> b1 = b2)"
  using fnv_write_separates [of b1 b2 xs ys fnv_offset] put_be64_inj
  by (auto simp: length_flowKey, auto simp: flowKey_bytes assms)

theorem flowKey_separates_witness:
  "length (flowKey (fillMeta (NewEvent 0 ''dns'' DirectionRequest) example_meta)) = 8 \<and>
   (flowKey (fillMeta (NewEvent 0 ''dns'' DirectionRequest) example_meta) =
      flowKey (fillMeta (NewEvent 1 ''tls'' DirectionResponse) (example_meta\<lparr>cm_DstPort := 6380\<rparr>)) \<longleftrightarrow>
    (0xEB :: byte) = 0xEC)"
  by (rule flowKey_separates [where xs = "[10, 0, 0, 1, 10, 0, 0, 2, 0, 0, 0x9C, 0x40, 0, 0, 0x18]" and ys = "[]"])
    (simp_all add: flow_bytes_def fillMeta_def NewEvent_def example_meta_def put_be32_def drop_bit_eq_div)

text \<open>
  C15: Nothing is lost, duplicated or reordered between the channel and a writer. In every state the
  producer can reach from its start, the events accepted so far are those the workers have taken, in
  that order, followed by those still in the channel, which never holds more than its capacity. Each
  configured worker has finished the events it took, in that order, except for at most the last, which it
  holds; and the messages it has written are the finished events that could be serialized, each once and in order, with the
  event's flow key and serialized form. No other worker writes.
\<close>

theorem producer_delivers:
  assumes "NewProducer M cfg inputSize = Some p" "rtranclp (producer_step marshal) (Producer_Start p) q"
  shows "p_accepted q = map snd (p_taken q) @ p_input q \<and> length (p_input q) \<le> p_inputSize q \<and>
    (\<forall>i. \<exists>finished. taken_by q i = finished @ held_by q i \<and>
       written_by q i = concat (map (keyed_form marshal) finished)) \<and>
    (\<forall>i. i < length (p_writers q) \<or> taken_by q i = [] \<and> written_by q i = [])"
proof -
  have inv: "producer_inv marshal q" by (rule producer_inv_reachable [OF assms(2,1)])
  have "taken_by q i = [] \<and> written_by q i = []" if "\<not> i < length (p_writers q)" for i
  proof -
    have t: "taken_by q i = []" using inv that by (auto simp: producer_inv_def taken_by_def filter_empty_conv)
    obtain finished where "taken_by q i = finished @ held_by q i"
      "written_by q i = List.map_filter (worker_message marshal) finished"
      by (rule producer_inv_worker [OF inv])
    with t show ?thesis by (simp add: map_filter_def)
  qed
  with inv show ?thesis by (auto simp: producer_inv_def worker_inv_def written_keyed)
qed

text \<open>A producer with one worker and one event in its unbuffered channel's hand-over, for concrete instances.\<close>

definition example_kafka :: KafkaConfig where
  "example_kafka = \<lparr>kc_Brokers = [''localhost:9092''], kc_Topic = ''t'', kc_BatchSize = 0, kc_BatchTimeout = 0,
     kc_Compression = ''lz4'', kc_RequiredAcks = 1, kc_NumWorkers = 0, kc_MaxMessageBytes = 0\<rparr>"

definition example_producer :: Producer where
  "example_producer = the (NewProducer example_limits example_kafka 4)"

lemma example_producer: "NewProducer example_limits example_kafka 4 = Some example_producer"
  by (simp add: example_producer_def NewProducer_def example_limits_def producer_defaults_def example_kafka_def go_make_def Let_def)

definition example_marshal :: "ProtocolEvent \<Rightarrow> error + bytes" where
  "example_marshal ev = Inr (bytes_of (ev_Protocol ev))"

abbreviation example_event :: ProtocolEvent where
  "example_event \<equiv> fillMeta (NewEvent 0 ''dns'' DirectionRequest) example_meta"

definition example_handoff :: Producer where
  "example_handoff = worker_take 0
     ((Producer_Start example_producer)\<lparr>p_input := [example_event], p_accepted := [example_event]\<rparr>)"

lemma example_handoff: "rtranclp (producer_step example_marshal) (Producer_Start example_producer) example_handoff"
proof -
  have "producer_step example_marshal (Producer_Start example_producer) example_handoff"
    using producer_step.Handoff [of "Producer_Start example_producer" 0 example_marshal example_event]
    by (simp add: example_handoff_def example_producer_def NewProducer_def example_limits_def producer_defaults_def example_kafka_def go_make_def Let_def Producer_Start_def
        example_kafka_def producer_defaults_def idle_def)
  then show ?thesis by (rule r_into_rtranclp)
qed

theorem producer_delivers_witness:
  "p_accepted example_handoff = map snd (p_taken example_handoff) @ p_input example_handoff \<and>
   length (p_input example_handoff) \<le> p_inputSize example_handoff \<and>
   (\<forall>i. \<exists>finished. taken_by example_handoff i = finished @ held_by example_handoff i \<and>
      written_by example_handoff i = concat (map (keyed_form example_marshal) finished)) \<and>
   (\<forall>i. i < length (p_writers example_handoff) \<or> taken_by example_handoff i = [] \<and> written_by example_handoff i = [])"
  by (rule producer_delivers [OF example_producer example_handoff])

text \<open>
  C38: Stopping drains the channel unless the context is cancelled. When the channel is closed while a worker
  runs and the context stays uncancelled, the producer comes to rest after at most two steps per queued event
  and two per worker, whatever the order of the workers; and when it has come to rest all
  workers have returned and every accepted event has been taken and handled: the messages of each worker are those
  of the events it took.
\<close>

theorem producer_drains:
  assumes "producer_inv marshal p" "p_closed p" "\<not> p_cancelled p" "p_active p \<noteq> {}"
    and "(drain_step marshal ^^ n) p q"
  shows "n \<le> 2 * length (p_input p) + 2 * card (p_active p) \<and>
    ((\<exists>r. drain_step marshal q r) \<or>
       p_active q = {} \<and> p_input q = [] \<and> map snd (p_taken q) = p_accepted p \<and>
       (\<forall>i. written_by q i = List.map_filter (worker_message marshal) (taken_by q i)))"
proof -
  have fin: "finite (p_active p)"
    using assms(1) finite_subset [of _ "{..< length (p_writers p)}"] by (auto simp: producer_inv_def)
  then have "draining p" using assms by (simp add: draining_def producer_inv_def)
  from drain_bounded [OF assms(5) this] have q: "draining q" "n + remaining q \<le> remaining p" "p_accepted q = p_accepted p"
    by auto
  have inv: "producer_inv marshal q"
    using assms(5) by (rule relpowp_inv) (auto simp: drain_step_def intro: producer_inv_step assms(1))
  then have acc: "p_accepted q = map snd (p_taken q) @ p_input q" by (simp add: producer_inv_def)
  have "card (dom (p_holding p)) \<le> card (p_active p)"
    using assms(1) fin by (auto simp: producer_inv_def intro: card_mono)
  then have n: "n \<le> 2 * length (p_input p) + 2 * card (p_active p)" using q(2) by (simp add: remaining_def)
  have rest: "p_active q = {}" if "\<forall>r. \<not> drain_step marshal q r"
    using that drain_not_stuck [OF q(1)] by blast
  have "written_by q i = List.map_filter (worker_message marshal) (taken_by q i)" if "p_active q = {}" for i
  proof -
    have "held_by q i = []" using inv that by (auto simp: producer_inv_def held_by_def dom_def)
    moreover obtain finished where "taken_by q i = finished @ held_by q i"
      "written_by q i = List.map_filter (worker_message marshal) finished"
      by (rule producer_inv_worker [OF inv])
    ultimately show ?thesis by simp
  qed
  with n rest acc q show ?thesis by (auto simp: draining_def)
qed

definition example_closing :: Producer where
  "example_closing = (Producer_Start example_producer)\<lparr>p_closed := True\<rparr>"

lemma example_closing_active: "p_active example_closing = {0}"
  by (auto simp: example_closing_def example_producer_def NewProducer_def example_limits_def producer_defaults_def example_kafka_def go_make_def Let_def Producer_Start_def
      example_kafka_def producer_defaults_def)

theorem producer_drains_witness:
  "1 \<le> 2 * length (p_input example_closing) + 2 * card (p_active example_closing) \<and>
   ((\<exists>r. drain_step example_marshal (example_closing\<lparr>p_active := {}\<rparr>) r) \<or>
      p_active (example_closing\<lparr>p_active := {}\<rparr>) = {} \<and> p_input (example_closing\<lparr>p_active := {}\<rparr>) = [] \<and>
      map snd (p_taken (example_closing\<lparr>p_active := {}\<rparr>)) = p_accepted example_closing \<and>
      (\<forall>i. written_by (example_closing\<lparr>p_active := {}\<rparr>) i =
         List.map_filter (worker_message example_marshal) (taken_by (example_closing\<lparr>p_active := {}\<rparr>) i)))"
proof (rule producer_drains [where n = 1])
  show "producer_inv example_marshal example_closing"
    using producer_inv_Start [OF example_producer, of example_marshal]
    by (simp add: producer_inv_def example_closing_def)
  show flags: "p_closed example_closing" "\<not> p_cancelled example_closing" "p_active example_closing \<noteq> {}"
    by (simp add: example_closing_def, simp add: example_closing_def example_producer_def NewProducer_def example_limits_def producer_defaults_def example_kafka_def go_make_def Let_def
        Producer_Start_def, simp add: example_closing_active)
  have "p_input example_closing = []" "p_holding example_closing = Map.empty"
    by (simp_all add: example_closing_def example_producer_def NewProducer_def example_limits_def producer_defaults_def example_kafka_def go_make_def Let_def Producer_Start_def)
  then have "drain_step example_marshal example_closing (example_closing\<lparr>p_active := {}\<rparr>)"
    using flags producer_step.ExitClosed [of example_closing 0 example_marshal]
    by (simp add: drain_step_def example_closing_active idle_def)
  then show "(drain_step example_marshal ^^ 1) example_closing (example_closing\<lparr>p_active := {}\<rparr>)"
    by (simp only: relpowp_1)
qed

text \<open>
  With the context cancelled, which is how the program begins its shutdown, all workers can leave at
  once and keep whatever the channel holds from ever being written.
\<close>

lemma producer_cancel_loses:
  assumes "finite A" "p_active p = A" "p_cancelled p" "p_holding p = Map.empty"
  shows "rtranclp (producer_step marshal) p (p\<lparr>p_active := {}\<rparr>)"
  using assms
proof (induction A arbitrary: p)
  case empty
  then have "p\<lparr>p_active := {}\<rparr> = p" by (cases p) simp
  then show ?case by simp
next
  case (insert i A)
  let ?q = "p\<lparr>p_active := p_active p - {i}\<rparr>"
  have "producer_step marshal p ?q" using insert.prems by (intro producer_step.ExitCancelled) (auto simp: idle_def)
  moreover have "rtranclp (producer_step marshal) ?q (?q\<lparr>p_active := {}\<rparr>)"
    using insert.hyps insert.prems by (intro insert.IH) auto
  ultimately show ?case by (simp add: converse_rtranclp_into_rtranclp)
qed

text \<open>
  Stopping closes every writer, in order, whatever errors occur, and returns the first error, or nil
  if there is none.
\<close>

lemma Stop_closes_all:
  "close_writers closer 0 ws None =
     ([0 ..< length ws], case List.map_filter closer [0 ..< length ws] of [] \<Rightarrow> None | err # _ \<Rightarrow> Some err)"
  by (simp add: close_writers_spec)

lemma worker_write_written:
  "worker_message marshal ev = Some m \<Longrightarrow> p_written (worker_write marshal i ev p) = p_written p @ [(i, m)]"
  by (simp add: worker_write_def)

text \<open>
  C23: The order of the events of a flow is not kept. With two or more workers, whatever two events the
  channel accepts one after the other, also two of the same flow and hence with the same key, the workers
  can write them in the opposite order: the second worker overtakes the first between its receive and its write.
\<close>

theorem flow_order_lost:
  assumes "NewProducer M cfg inputSize = Some p" "2 \<le> kc_NumWorkers cfg"
    and "worker_message marshal e1 = Some m1" "worker_message marshal e2 = Some m2"
  shows "\<exists>q. rtranclp (producer_step marshal) (Producer_Start p) q \<and>
    p_accepted q = [e1, e2] \<and> map snd (p_written q) = [m2, m1]"
proof -
  define p0 where "p0 = Producer_Start p"
  have start: "p_input p0 = []" "\<not> p_closed p0" "p_accepted p0 = []" "p_written p0 = []" "p_holding p0 = Map.empty"
    "0 \<in> p_active p0" "1 \<in> p_active p0"
    using assms(1,2) by (auto simp: p0_def NewProducer_def go_make_def Let_def Producer_Start_def producer_defaults_def
        split: if_splits)
  define p1 where "p1 = worker_take 0 (p0\<lparr>p_input := [e1], p_accepted := p_accepted p0 @ [e1]\<rparr>)"
  define p2 where "p2 = worker_take 1 (p1\<lparr>p_input := [e2], p_accepted := p_accepted p1 @ [e2]\<rparr>)"
  define p3 where "p3 = worker_write marshal 1 e2 p2"
  define p4 where "p4 = worker_write marshal 0 e1 p3"
  have h1: "p_holding p1 = [0 \<mapsto> e1]" using start by (simp add: p1_def worker_take_def)
  then have h2: "p_holding p2 = [0 \<mapsto> e1, 1 \<mapsto> e2]" by (simp add: p2_def worker_take_def)
  have h3: "p_holding p3 0 = Some e1" using h2 by (simp add: p3_def worker_write_def)
  have "producer_step marshal p0 p1"
    unfolding p1_def using start by (intro producer_step.Handoff) (simp_all add: idle_def)
  moreover have "producer_step marshal p1 p2"
    unfolding p2_def using start h1 by (intro producer_step.Handoff) (simp_all add: idle_def p1_def)
  moreover have "producer_step marshal p2 p3"
    unfolding p3_def using h2 by (intro producer_step.Write) simp
  moreover have "producer_step marshal p3 p4"
    unfolding p4_def using h3 by (intro producer_step.Write) simp
  ultimately have "rtranclp (producer_step marshal) p0 p4"
    by (meson converse_rtranclp_into_rtranclp r_into_rtranclp)
  moreover have "p_accepted p4 = [e1, e2]" by (simp add: p4_def p3_def p2_def p1_def start)
  moreover have "p_written p4 = [(1, m2), (0, m1)]"
    using assms(3,4) by (simp add: p4_def p3_def worker_write_written) (simp add: p2_def p1_def start)
  ultimately show ?thesis unfolding p0_def by (intro exI [of _ p4]) simp
qed

theorem flow_order_lost_witness:
  "\<exists>q. rtranclp (producer_step example_marshal)
      (Producer_Start (the (NewProducer example_limits (example_kafka\<lparr>kc_NumWorkers := 2\<rparr>) 4))) q \<and>
     p_accepted q = [example_event, example_event\<lparr>ev_Protocol := ''tls''\<rparr>] \<and>
     map snd (p_written q) =
       [\<lparr>m_Key = flowKey example_event, m_Value = bytes_of ''tls''\<rparr>,
        \<lparr>m_Key = flowKey example_event, m_Value = bytes_of ''dns''\<rparr>]"
proof (rule flow_order_lost [where cfg = "example_kafka\<lparr>kc_NumWorkers := 2\<rparr>" and inputSize = 4])
  show "NewProducer example_limits (example_kafka\<lparr>kc_NumWorkers := 2\<rparr>) 4 =
      Some (the (NewProducer example_limits (example_kafka\<lparr>kc_NumWorkers := 2\<rparr>) 4))"
    by (simp add: NewProducer_def go_make_def Let_def example_limits_def producer_defaults_def example_kafka_def)
qed (simp_all add: worker_message_def example_marshal_def fillMeta_def NewEvent_def flowKey_def)

end
