(* ===== verification/Afpacket.thy ===== *)
theory Afpacket
  imports Decode
begin

text \<open>
  The AF_PACKET capturer (\<^verbatim>\<open>internal/capture/afpacket/afpacket.go\<close>) and the statistics of
  \<^verbatim>\<open>internal/capture/capture.go\<close>.

  \<^item> The kernel is the parameter \<open>kernel\<close>: each system call maps the kernel's state \<open>'k\<close> to a new state
    and a result. \<open>host\<close> adds, as a history, the descriptors opened and not yet closed.
  \<^item> Errors are the datatype \<open>afp_error\<close>; the text they are formatted to is not modelled.
  \<^item> \<open>capture_iteration\<close> is one round of \<^verbatim>\<open>captureLoop\<close> with the results of its system calls
    as arguments. A run is any interleaving of rounds of the loops and of the decoder taking
    packets from the channel. \<open>Recvfrom\<close> copies at most a buffer's length of the frame.
\<close>

section \<open>Configuration\<close>

record AfpConfig =
  afp_Interface :: string
  afp_NumQueues :: int
  afp_BufferSizeMB :: int
  afp_SnapLength :: int
  afp_BPFFilter :: string
  afp_FanoutType :: string
  afp_FanoutGroupID :: int
  afp_OutputBuffer :: int

definition afp_defaults :: "AfpConfig \<Rightarrow> AfpConfig" where
  "afp_defaults c =
     (let c = (if afp_NumQueues c \<le> 0 then c\<lparr>afp_NumQueues := 1\<rparr> else c);
          c = (if afp_BufferSizeMB c \<le> 0 then c\<lparr>afp_BufferSizeMB := 64\<rparr> else c);
          c = (if afp_SnapLength c \<le> 0 then c\<lparr>afp_SnapLength := 65535\<rparr> else c);
          c = (if afp_FanoutType c = [] then c\<lparr>afp_FanoutType := ''hash''\<rparr> else c);
          c = (if afp_FanoutGroupID c \<le> 0 then c\<lparr>afp_FanoutGroupID := 1\<rparr> else c)
      in if afp_OutputBuffer c \<le> 0 then c\<lparr>afp_OutputBuffer := 4096\<rparr> else c)"

datatype afp_error =
  InterfaceRequired | LookupInterface string error | UnsupportedFanout string
| OpenSocket int error | SetFanout int error

definition fanoutHash :: int where "fanoutHash = 0"
definition fanoutLB :: int where "fanoutLB = 1"
definition fanoutCPU :: int where "fanoutCPU = 2"

definition parseFanoutType :: "string \<Rightarrow> afp_error + int" where
  "parseFanoutType s =
     (if s = ''hash'' then Inr fanoutHash
      else if s = ''lb'' then Inr fanoutLB
      else if s = ''cpu'' then Inr fanoutCPU
      else Inl (UnsupportedFanout s))"

text \<open>\<^verbatim>\<open>htons\<close> on the little-endian platforms of the Makefile: the low byte comes first in memory.\<close>

definition htons :: "u16 \<Rightarrow> u16 go" where
  "htons v = be16 [ucast v, ucast (drop_bit 8 v)]"

section \<open>Sockets\<close>

record 'k host =
  kstate :: 'k
  openFDs :: "int set"

record 'k kernel =
  InterfaceByName :: "'k \<Rightarrow> string \<Rightarrow> error + int"
  sysSocket :: "'k \<Rightarrow> 'k \<times> (error + int)"
  sysBind :: "int \<Rightarrow> int \<Rightarrow> 'k \<Rightarrow> 'k \<times> error option"
  sysRcvBuf :: "int \<Rightarrow> int \<Rightarrow> 'k \<Rightarrow> 'k \<times> error option"
  sysFanout :: "int \<Rightarrow> int \<Rightarrow> 'k \<Rightarrow> 'k \<times> error option"
  sysClose :: "int \<Rightarrow> 'k \<Rightarrow> 'k"

definition close_fd :: "'k kernel \<Rightarrow> int \<Rightarrow> 'k host \<Rightarrow> 'k host" where
  "close_fd K fd h = h\<lparr>kstate := sysClose K fd (kstate h), openFDs := openFDs h - {fd}\<rparr>"

definition openSocket :: "'k kernel \<Rightarrow> int \<Rightarrow> int \<Rightarrow> 'k host \<Rightarrow> 'k host \<times> (error + int)" where
  "openSocket K ifIndex bufBytes h =
     (case sysSocket K (kstate h) of
        (k, Inl err) \<Rightarrow> (h\<lparr>kstate := k\<rparr>, Inl (''socket: '' @ err))
      | (k, Inr fd) \<Rightarrow>
          let h = h\<lparr>kstate := k, openFDs := insert fd (openFDs h)\<rparr>
          in case sysBind K fd ifIndex (kstate h) of
               (k, Some err) \<Rightarrow> (close_fd K fd (h\<lparr>kstate := k\<rparr>), Inl (''bind: '' @ err))
             | (k, None) \<Rightarrow>
                 let h = h\<lparr>kstate := k\<rparr>
                 in case sysRcvBuf K fd bufBytes (kstate h) of
                      (k, Some err) \<Rightarrow> (close_fd K fd (h\<lparr>kstate := k\<rparr>), Inl (''set SO_RCVBUF: '' @ err))
                    | (k, None) \<Rightarrow> (h\<lparr>kstate := k\<rparr>, Inr fd))"

text \<open>The capturer; \<open>loops\<close> are the capture loops launched, as descriptor and queue number.\<close>

record Capturer =
  c_cfg :: AfpConfig
  c_fds :: "int list"
  c_capacity :: nat
  c_queue :: "Packet list"
  c_received :: u64
  c_dropped :: u64
  c_loops :: "(int \<times> int) list"
  c_cancelled :: bool

definition Capturer_New :: "AfpConfig \<Rightarrow> Capturer" where
  "Capturer_New cfg =
     \<lparr>c_cfg = afp_defaults cfg, c_fds = [], c_capacity = 0, c_queue = [], c_received = 0, c_dropped = 0,
      c_loops = [], c_cancelled = False\<rparr>"

definition closeAllFDs :: "'k kernel \<Rightarrow> Capturer \<times> 'k host \<Rightarrow> Capturer \<times> 'k host" where
  "closeAllFDs K s = (case s of (a, h) \<Rightarrow> (a\<lparr>c_fds := []\<rparr>, fold (close_fd K) (c_fds a) h))"

definition fanoutArg :: "int \<Rightarrow> int \<Rightarrow> int" where
  "fanoutArg groupID fanoutType = groupID OR push_bit 16 fanoutType"

definition join_fanout :: "'k kernel \<Rightarrow> AfpConfig \<Rightarrow> int \<Rightarrow> int \<Rightarrow> 'k host \<Rightarrow> 'k host \<times> error option" where
  "join_fanout K cfg fanoutType fd h =
     (if 1 < afp_NumQueues cfg
      then case sysFanout K fd (fanoutArg (afp_FanoutGroupID cfg) fanoutType) (kstate h) of
             (k, err) \<Rightarrow> (h\<lparr>kstate := k\<rparr>, err)
      else (h, None))"

text \<open>The loop of \<^verbatim>\<open>Start\<close> over the queues from \<open>i\<close> on; \<open>n\<close> of them are left.\<close>

fun start_queues ::
  "'k kernel \<Rightarrow> int \<Rightarrow> int \<Rightarrow> int \<Rightarrow> nat \<Rightarrow> int \<Rightarrow> Capturer \<times> 'k host \<Rightarrow> (Capturer \<times> 'k host) \<times> afp_error option" where
  "start_queues K ifIndex bufBytes fanoutType 0 i (a, h) = ((a, h), None)"
| "start_queues K ifIndex bufBytes fanoutType (Suc n) i (a, h) =
     (case openSocket K ifIndex bufBytes h of
        (h, Inl err) \<Rightarrow> (closeAllFDs K (a, h), Some (OpenSocket i err))
      | (h, Inr fd) \<Rightarrow>
          let a = a\<lparr>c_fds := c_fds a @ [fd]\<rparr>
          in case join_fanout K (c_cfg a) fanoutType fd h of
               (h, Some err) \<Rightarrow> (closeAllFDs K (a, h), Some (SetFanout i err))
             | (h, None) \<Rightarrow>
                 start_queues K ifIndex bufBytes fanoutType n (i + 1) (a\<lparr>c_loops := c_loops a @ [(fd, i)]\<rparr>, h))"

text \<open>\<^verbatim>\<open>Start\<close>; its two calls of \<^verbatim>\<open>make\<close> panic for a size out of range.\<close>

definition Capturer_Start ::
  "make_limits \<Rightarrow> 'k kernel \<Rightarrow> Capturer \<times> 'k host \<Rightarrow> ((Capturer \<times> 'k host) \<times> afp_error option) go" where
  "Capturer_Start M K s =
     (case s of (a, h) \<Rightarrow>
        if afp_Interface (c_cfg a) = [] then Some ((a, h), Some InterfaceRequired)
        else case InterfaceByName K (kstate h) (afp_Interface (c_cfg a)) of
          Inl err \<Rightarrow> Some ((a, h), Some (LookupInterface (afp_Interface (c_cfg a)) err))
        | Inr ifIndex \<Rightarrow>
            (case parseFanoutType (afp_FanoutType (c_cfg a)) of
               Inl err \<Rightarrow> Some ((a, h), Some err)
             | Inr fanoutType \<Rightarrow> do {
                 size \<leftarrow> go_make (lim_Packet M) (afp_OutputBuffer (c_cfg a));
                 _ \<leftarrow> go_make (lim_FD M) (afp_NumQueues (c_cfg a));
                 let a = a\<lparr>c_cancelled := False, c_capacity := size, c_queue := [], c_fds := []\<rparr>;
                 let bufBytes = afp_BufferSizeMB (c_cfg a) * 1024 * 1024;
                 Some (start_queues K ifIndex bufBytes fanoutType (nat (afp_NumQueues (c_cfg a))) 0 (a, h)) }))"

text \<open>\<^verbatim>\<open>Close\<close>: cancel, wait for the loops, close the sockets.\<close>

definition Capturer_Close :: "'k kernel \<Rightarrow> Capturer \<times> 'k host \<Rightarrow> Capturer \<times> 'k host" where
  "Capturer_Close K s = (case s of (a, h) \<Rightarrow> closeAllFDs K (a\<lparr>c_cancelled := True, c_loops := []\<rparr>, h))"

section \<open>The capture loop\<close>

datatype poll_result = PollInterrupted | PollFailed error | PollReady int
datatype recv_result = RecvRetry | RecvFailed error | RecvFrame bytes

text \<open>One round; the result says whether the loop goes on.\<close>

definition capture_iteration :: "poll_result \<Rightarrow> recv_result \<Rightarrow> int \<Rightarrow> Capturer \<Rightarrow> Capturer \<times> bool" where
  "capture_iteration poll recv now a =
     (if c_cancelled a then (a, False)
      else case poll of
        PollInterrupted \<Rightarrow> (a, True)
      | PollFailed err \<Rightarrow> (a, False)
      | PollReady n \<Rightarrow>
          if n = 0 then (a, True)
          else case recv of
            RecvRetry \<Rightarrow> (a, True)
          | RecvFailed err \<Rightarrow> (a, False)
          | RecvFrame frame \<Rightarrow>
              let data = take (nat (afp_SnapLength (c_cfg a))) frame;
                  nRead = len data
              in if nRead = 0 then (a, True)
                 else let pkt = \<lparr>pkt_Data = data, pkt_Timestamp = now, pkt_CaptureLen = nRead, pkt_OrigLen = nRead\<rparr>
                 in if length (c_queue a) < c_capacity a
                    then (a\<lparr>c_queue := c_queue a @ [pkt], c_received := c_received a + 1\<rparr>, True)
                    else (a\<lparr>c_dropped := c_dropped a + 1\<rparr>, True))"

record Stats =
  PacketsReceived :: u64
  PacketsDropped :: u64
  PacketsIfDropped :: u64

definition Capturer_Stats :: "Capturer \<Rightarrow> Stats" where
  "Capturer_Stats a = \<lparr>PacketsReceived = c_received a, PacketsDropped = c_dropped a, PacketsIfDropped = 0\<rparr>"

text \<open>
  Runs: rounds of any of the loops, and the decoder taking the oldest packet. \<open>delivered\<close> is the
  history of the packets handed to the decoder.
\<close>

datatype capture_event = Round poll_result recv_result int | TakePacket

fun capture_run :: "capture_event list \<Rightarrow> Capturer \<times> Packet list \<Rightarrow> Capturer \<times> Packet list" where
  "capture_run [] (a, delivered) = (a, delivered)"
| "capture_run (Round poll recv now # evs) (a, delivered) =
     capture_run evs (fst (capture_iteration poll recv now a), delivered)"
| "capture_run (TakePacket # evs) (a, delivered) =
     (case c_queue a of
        [] \<Rightarrow> capture_run evs (a, delivered)
      | pkt # pkts \<Rightarrow> capture_run evs (a\<lparr>c_queue := pkts\<rparr>, delivered @ [pkt]))"

section \<open>Lemmas: configuration\<close>

lemma afp_defaults_positive:
  "0 < afp_NumQueues (afp_defaults c)" "0 < afp_BufferSizeMB (afp_defaults c)" "0 < afp_SnapLength (afp_defaults c)"
  "0 < afp_FanoutGroupID (afp_defaults c)" "0 < afp_OutputBuffer (afp_defaults c)" "afp_FanoutType (afp_defaults c) \<noteq> []"
  by (simp_all add: afp_defaults_def Let_def)

lemma afp_defaults_idem: "afp_defaults (afp_defaults c) = afp_defaults c"
  by (subst (1) afp_defaults_def) (simp add: Let_def not_le afp_defaults_positive)

lemma unat_two_bytes: "unat (256 * ucast (x :: byte) + ucast (y :: byte) :: u16) = 256 * unat x + unat y"
proof -
  have u: "unat (ucast z :: u16) = unat z" for z :: byte
    using unat_byte_less [of z] by (simp add: unsigned_ucast_eq take_bit_nat_eq_self)
  have "256 * unat x + unat y < 65536" using unat_byte_less [of x] unat_byte_less [of y] by linarith
  then show ?thesis
    using unat_byte_less [of x] by (simp add: unat_word_ariths u)
qed

lemma htons_involutive: "htons v = Some w \<Longrightarrow> htons w = Some v"
proof -
  assume "htons v = Some w"
  then have w: "w = 256 * ucast (ucast v :: byte) + ucast (ucast (drop_bit 8 v) :: byte)"
    by (simp add: htons_def be16_def go_index_def)
  have lt: "unat u < 65536" for u :: u16
  proof -
    have "unat u < 2 ^ LENGTH(16)" by (rule unsigned_less)
    then show ?thesis by simp
  qed
  have hi: "unat (ucast (drop_bit 8 u) :: byte) = unat u div 256" for u :: u16
  proof -
    have "take_bit 8 (unat u div 256) = unat u div 256" using lt [of u] by (intro take_bit_nat_eq_self) simp
    then show ?thesis by (simp add: unsigned_ucast_eq drop_bit_eq_div unat_div)
  qed
  have lo: "unat (ucast u :: byte) = unat u mod 256" for u :: u16
    by (simp add: unsigned_ucast_eq take_bit_eq_mod)
  have uw: "unat w = 256 * (unat v mod 256) + unat v div 256"
    unfolding w unat_two_bytes hi unfolding lo ..
  have dv: "unat v div 256 < 256" using lt [of v] by simp
  have "unat (256 * ucast (ucast w :: byte) + ucast (ucast (drop_bit 8 w) :: byte) :: u16) =
      256 * (unat w mod 256) + unat w div 256"
    unfolding unat_two_bytes hi unfolding lo ..
  also have "\<dots> = unat v" using dv by (simp add: uw)
  finally show "htons w = Some v"
    by (simp add: htons_def be16_def go_index_def word_unat_eq_iff)
qed

section \<open>Lemmas: sockets\<close>

lemma openFDs_close [simp]: "openFDs (close_fd K fd h) = openFDs h - {fd}"
  by (simp add: close_fd_def)

lemma openFDs_closeAll: "openFDs (fold (close_fd K) fds h) = openFDs h - set fds"
  by (induction fds arbitrary: h) auto

lemma openSocket_fds:
  "openSocket K ifIndex bufBytes h = (h', r) \<Longrightarrow>
     (case r of Inl err \<Rightarrow> openFDs h' \<subseteq> openFDs h | Inr fd \<Rightarrow> openFDs h' = insert fd (openFDs h))"
  by (auto simp: openSocket_def Let_def split: prod.splits sum.splits option.splits)

lemma start_queues_fds:
  assumes "start_queues K ifIndex bufBytes ft n i (a, h) = ((a', h'), r)"
    and "openFDs h = base \<union> set (c_fds a)"
  shows "case r of
      Some err \<Rightarrow> openFDs h' \<subseteq> base \<and> c_fds a' = [] \<and> c_cancelled a' = c_cancelled a
    | None \<Rightarrow> openFDs h' = base \<union> set (c_fds a') \<and> length (c_fds a') = length (c_fds a) + n \<and>
        (\<exists>fds. c_fds a' = c_fds a @ fds \<and> map fst (c_loops a') = map fst (c_loops a) @ fds)"
  using assms
proof (induction n arbitrary: i a h)
  case 0
  then show ?case by auto
next
  case (Suc n)
  obtain h1 r1 where o: "openSocket K ifIndex bufBytes h = (h1, r1)" by fastforce
  show ?case
  proof (cases r1)
    case (Inl err)
    with Suc.prems o openSocket_fds [OF o] show ?thesis
      by (auto simp: closeAllFDs_def openFDs_closeAll)
  next
    case (Inr fd)
    define a1 where "a1 = a\<lparr>c_fds := c_fds a @ [fd]\<rparr>"
    obtain h2 fe where h2: "join_fanout K (c_cfg a1) ft fd h1 = (h2, fe)" by fastforce
    have fds: "openFDs h2 = base \<union> set (c_fds a1)"
      using h2 openSocket_fds [OF o] Inr Suc.prems(2)
      by (auto simp: join_fanout_def a1_def split: if_splits prod.splits)
    show ?thesis
    proof (cases fe)
      case None
      let ?a2 = "a1\<lparr>c_loops := c_loops a1 @ [(fd, i)]\<rparr>"
      have "start_queues K ifIndex bufBytes ft n (i + 1) (?a2, h2) = ((a', h'), r)"
        using Suc.prems(1) o Inr None h2 by (simp add: a1_def Let_def)
      from Suc.IH [OF this] fds show ?thesis
        by (auto simp: a1_def split: option.splits)
    next
      case (Some err)
      then have "closeAllFDs K (a1, h2) = (a', h')" "r = Some (SetFanout i err)"
        using Suc.prems(1) o Inr h2 by (simp_all add: a1_def Let_def)
      with fds show ?thesis by (auto simp: closeAllFDs_def openFDs_closeAll a1_def)
    qed
  qed
qed

section \<open>Lemmas: capturing\<close>

text \<open>The packet a capturer makes of a frame, and the frames that the rounds of a run receive.\<close>

definition packet_of :: "int \<Rightarrow> bytes \<times> int \<Rightarrow> Packet" where
  "packet_of snap fr =
     (let data = take (nat snap) (fst fr)
      in \<lparr>pkt_Data = data, pkt_Timestamp = snd fr, pkt_CaptureLen = len data, pkt_OrigLen = len data\<rparr>)"

definition round_frame :: "capture_event \<Rightarrow> (bytes \<times> int) list" where
  "round_frame ev =
     (case ev of
        Round (PollReady n) (RecvFrame frame) now \<Rightarrow> if n \<noteq> 0 \<and> frame \<noteq> [] then [(frame, now)] else []
      | _ \<Rightarrow> [])"

definition frames :: "capture_event list \<Rightarrow> (bytes \<times> int) list" where
  "frames evs = concat (map round_frame evs)"

definition capture_inv :: "AfpConfig \<Rightarrow> nat \<Rightarrow> (bytes \<times> int) list \<Rightarrow> Capturer \<times> Packet list \<Rightarrow> bool" where
  "capture_inv cfg cap fs st \<longleftrightarrow>
     (case st of (a, delivered) \<Rightarrow>
        c_cfg a = cfg \<and> c_capacity a = cap \<and> \<not> c_cancelled a \<and> length (c_queue a) \<le> cap \<and>
        c_received a = of_nat (length (delivered @ c_queue a)) \<and>
        c_received a + c_dropped a = of_nat (length fs) \<and>
        subseq (delivered @ c_queue a) (map (packet_of (afp_SnapLength cfg)) fs))"

lemma capture_inv_take:
  assumes "capture_inv cfg cap fs (a, delivered)" "c_queue a = pkt # pkts"
  shows "capture_inv cfg cap fs (a\<lparr>c_queue := pkts\<rparr>, delivered @ [pkt])"
  using assms by (auto simp: capture_inv_def algebra_simps)

lemma capture_iteration_frame:
  assumes "round_frame (Round poll recv now) = [fr]" "\<not> c_cancelled a" "0 < afp_SnapLength (c_cfg a)"
  shows "fst (capture_iteration poll recv now a) =
    (if length (c_queue a) < c_capacity a
     then a\<lparr>c_queue := c_queue a @ [packet_of (afp_SnapLength (c_cfg a)) fr], c_received := c_received a + 1\<rparr>
     else a\<lparr>c_dropped := c_dropped a + 1\<rparr>)"
proof -
  obtain n frame where "poll = PollReady n" "recv = RecvFrame frame" "n \<noteq> 0" "frame \<noteq> []" "fr = (frame, now)"
    using assms(1) by (auto simp: round_frame_def split: poll_result.splits recv_result.splits if_splits)
  moreover have "take (nat (afp_SnapLength (c_cfg a))) frame \<noteq> []" using assms(3) \<open>frame \<noteq> []\<close> by (cases frame) auto
  ultimately show ?thesis using assms(2) by (simp add: capture_iteration_def Let_def packet_of_def)
qed

lemma capture_iteration_other:
  "round_frame (Round poll recv now) = [] \<Longrightarrow> fst (capture_iteration poll recv now a) = a"
  by (auto simp: round_frame_def capture_iteration_def Let_def split: poll_result.splits recv_result.splits if_splits)

lemma capture_inv_frame:
  assumes "capture_inv cfg cap fs (a, delivered)" "0 < afp_SnapLength cfg" "round_frame (Round poll recv now) = [fr]"
  shows "capture_inv cfg cap (fs @ [fr]) (fst (capture_iteration poll recv now a), delivered)"
proof -
  have inv: "c_cfg a = cfg" "c_capacity a = cap" "\<not> c_cancelled a" "length (c_queue a) \<le> cap"
    "c_received a = of_nat (length delivered) + of_nat (length (c_queue a))"
    "c_received a + c_dropped a = of_nat (length fs)"
    "subseq (delivered @ c_queue a) (map (packet_of (afp_SnapLength cfg)) fs)"
    using assms(1) by (auto simp: capture_inv_def)
  let ?p = "packet_of (afp_SnapLength cfg) fr"
  have "subseq ((delivered @ c_queue a) @ [?p]) (map (packet_of (afp_SnapLength cfg)) fs @ [?p])"
    using inv(7) by (intro list_emb_append_mono) auto
  moreover have "subseq (delivered @ c_queue a) (map (packet_of (afp_SnapLength cfg)) fs @ [?p])"
    using inv(7) list_emb_append_mono [of "(=)" "delivered @ c_queue a" "map (packet_of (afp_SnapLength cfg)) fs" "[]" "[?p]"]
    by simp
  ultimately show ?thesis
    using inv(1-6) capture_iteration_frame [OF assms(3) inv(3)] assms(2)
    by (auto simp: capture_inv_def algebra_simps)
qed

lemma capture_run_inv:
  assumes "0 < afp_SnapLength cfg" "capture_inv cfg cap fs (a, delivered)"
  shows "capture_inv cfg cap (fs @ frames evs) (capture_run evs (a, delivered))"
  using assms(2)
proof (induction evs arbitrary: fs a delivered)
  case Nil
  then show ?case by (simp add: frames_def)
next
  case (Cons ev evs)
  show ?case
  proof (cases ev)
    case (Round poll recv now)
    have "length (round_frame ev) \<le> 1"
      by (auto simp: round_frame_def split: capture_event.splits poll_result.splits recv_result.splits)
    then consider "round_frame ev = []" | fr where "round_frame ev = [fr]"
      by (cases "round_frame ev") auto
    then show ?thesis
    proof cases
      case 1
      with Cons.IH [OF Cons.prems] Round capture_iteration_other [of poll recv now a] show ?thesis
        by (simp add: frames_def)
    next
      case 2
      with Cons.IH [OF capture_inv_frame [OF Cons.prems assms(1)], of poll recv now fr] Round show ?thesis
        by (simp add: frames_def)
    qed
  next
    case TakePacket
    then have "round_frame ev = []" by (simp add: round_frame_def)
    with TakePacket Cons.IH [OF Cons.prems] Cons.IH [OF capture_inv_take [OF Cons.prems]] show ?thesis
      by (cases "c_queue a") (simp_all add: frames_def)
  qed
qed

section \<open>Properties\<close>

text \<open>
  C19: Capturing accounts for every frame. Over any interleaving of capture rounds on any queues, with
  interruptions, timeouts and errors, and of the decoder taking packets: the channel never exceeds its
  capacity; the packets received are those delivered or still in the channel, in the order of their
  frames; each is the frame cut to the snap length, with its time and its length; and the received and
  dropped counters together count every non-empty frame (modulo the wrap-around of 64-bit counters).
\<close>

theorem capture_accounts:
  "let cfg = afp_defaults c;
       (a, delivered) = capture_run evs ((Capturer_New c)\<lparr>c_capacity := nat (afp_OutputBuffer cfg)\<rparr>, [])
   in int (length (c_queue a)) \<le> afp_OutputBuffer cfg \<and>
      subseq (delivered @ c_queue a) (map (packet_of (afp_SnapLength cfg)) (frames evs)) \<and>
      PacketsReceived (Capturer_Stats a) = of_nat (length (delivered @ c_queue a)) \<and>
      PacketsReceived (Capturer_Stats a) + PacketsDropped (Capturer_Stats a) = of_nat (length (frames evs))"
proof -
  let ?cfg = "afp_defaults c"
  let ?a = "(Capturer_New c)\<lparr>c_capacity := nat (afp_OutputBuffer ?cfg)\<rparr>"
  have "capture_inv ?cfg (nat (afp_OutputBuffer ?cfg)) [] (?a, [])"
    by (simp add: capture_inv_def Capturer_New_def)
  from capture_run_inv [OF afp_defaults_positive(3) this, of evs] show ?thesis
    using afp_defaults_positive(5) [of c]
    by (auto simp: capture_inv_def Capturer_Stats_def Let_def split: prod.splits)
qed

text \<open>
  C37: Sockets are not leaked. When \<^verbatim>\<open>Start\<close> fails, for whatever reason and at whatever queue, no
  descriptor that it opened is left open. When it succeeds, exactly one descriptor per queue has been opened
  and has a capture loop, and \<^verbatim>\<open>Close\<close> closes them all. It panics only, before it opens any, if the size of
  its channel or the number of its queues is negative or beyond what the run time can allocate.
\<close>

theorem Start_no_leak:
  "case Capturer_Start M K (a, h) of
     None \<Rightarrow> afp_OutputBuffer (c_cfg a) < 0 \<or> lim_Packet M < afp_OutputBuffer (c_cfg a) \<or>
       afp_NumQueues (c_cfg a) < 0 \<or> lim_FD M < afp_NumQueues (c_cfg a)
   | Some ((a', h'), Some err) \<Rightarrow> openFDs h' \<subseteq> openFDs h
   | Some ((a', h'), None) \<Rightarrow>
       openFDs h' = openFDs h \<union> set (c_fds a') \<and> length (c_fds a') = nat (afp_NumQueues (c_cfg a)) \<and>
       map fst (c_loops a') = map fst (c_loops a) @ c_fds a' \<and>
       openFDs (snd (Capturer_Close K (a', h'))) \<subseteq> openFDs h \<and> c_fds (fst (Capturer_Close K (a', h'))) = []"
proof (cases "Capturer_Start M K (a, h)")
  case None
  then show ?thesis
    by (auto simp: Capturer_Start_def go_make_def Let_def bind_eq_None_conv split: if_splits sum.splits)
next
  case (Some x)
  then obtain a' h' r where s: "Capturer_Start M K (a, h) = Some ((a', h'), r)" by (cases x) auto
  let ?a = "a\<lparr>c_cancelled := False, c_capacity := nat (afp_OutputBuffer (c_cfg a)), c_queue := [], c_fds := []\<rparr>"
  consider "h' = h" "r \<noteq> None" |
    i ft where "start_queues K i (afp_BufferSizeMB (c_cfg a) * 1024 * 1024) ft (nat (afp_NumQueues (c_cfg a))) 0 (?a, h) = ((a', h'), r)"
    using s by (auto simp: Capturer_Start_def go_make_def Let_def bind_eq_Some_conv split: if_splits sum.splits)
  then show ?thesis
  proof cases
    case 1
    with s show ?thesis by auto
  next
    case 2
    from start_queues_fds [OF 2, of "openFDs h"] s show ?thesis
      by (cases r) (auto simp: Capturer_Close_def closeAllFDs_def openFDs_closeAll)
  qed
qed

end
