(* ===== verification/Pipeline.thy ===== *)
theory Pipeline
  imports Prelude
begin

text \<open>
  The pipeline (\<^verbatim>\<open>internal/pipeline/pipeline.go\<close>): an ordered list of stages that are started in
  order, rolled back when a start fails, and stopped in reverse order. \<open>Stage\<close> is the interface
  as a record of its methods over a state \<open>'w\<close> of the world; a call that never returns is
  \<^const>\<open>None\<close>. The context that the methods receive is part of the world.

  \<open>logged\<close> adds a history of the calls to any stage, which the properties are stated with;
  \<open>Run_logged\<close> and \<open>Shutdown_logged\<close> show that observing a pipeline does not change it.
\<close>

record 'w Stage =
  StageName :: string
  StageStart :: "'w \<Rightarrow> ('w \<times> error option) option"
  StageStop :: "'w \<Rightarrow> ('w \<times> error option) option"

record 'w Pipeline =
  pl_stages :: "'w Stage list"

definition Pipeline_New :: "'w Pipeline" where
  "Pipeline_New = \<lparr>pl_stages = []\<rparr>"

definition AddStage :: "'w Stage \<Rightarrow> 'w Pipeline \<Rightarrow> 'w Pipeline" where
  "AddStage s p = p\<lparr>pl_stages := pl_stages p @ [s]\<rparr>"

fun stop_loop :: "'w Stage list \<Rightarrow> error option \<Rightarrow> 'w \<Rightarrow> ('w \<times> error option) option" where
  "stop_loop [] firstErr w = Some (w, firstErr)"
| "stop_loop (s # ss) firstErr w = do {
     (w, err) \<leftarrow> StageStop s w;
     stop_loop ss (if err \<noteq> None \<and> firstErr = None then err else firstErr) w }"

text \<open>The index of the loop runs from the last stage to the first.\<close>

definition stopInReverse :: "'w Stage list \<Rightarrow> 'w \<Rightarrow> ('w \<times> error option) option" where
  "stopInReverse ss w = stop_loop (rev ss) None w"

fun run_loop :: "'w Stage list \<Rightarrow> 'w Stage list \<Rightarrow> 'w \<Rightarrow> ('w \<times> error option) option" where
  "run_loop started [] w = Some (w, None)"
| "run_loop started (s # ss) w = do {
     (w, err) \<leftarrow> StageStart s w;
     case err of
       Some err \<Rightarrow> do {
         (w, rbErr) \<leftarrow> stopInReverse started w;
         Some (w, Some (''start stage '' @ StageName s @ '': '' @ err)) }
     | None \<Rightarrow> run_loop (started @ [s]) ss w }"

definition Run :: "'w Pipeline \<Rightarrow> 'w \<Rightarrow> ('w \<times> error option) option" where
  "Run p w = run_loop [] (pl_stages p) w"

definition Shutdown :: "'w Pipeline \<Rightarrow> 'w \<Rightarrow> ('w \<times> error option) option" where
  "Shutdown p w = stopInReverse (pl_stages p) w"

section \<open>Observed stages\<close>

datatype call = Started string "error option" | Stopped string "error option"

definition logged :: "'w Stage \<Rightarrow> ('w \<times> call list) Stage" where
  "logged s =
     \<lparr>StageName = StageName s,
      StageStart = (\<lambda>(w, log). map_option (\<lambda>(w, err). ((w, log @ [Started (StageName s) err]), err)) (StageStart s w)),
      StageStop = (\<lambda>(w, log). map_option (\<lambda>(w, err). ((w, log @ [Stopped (StageName s) err]), err)) (StageStop s w))\<rparr>"

definition observed :: "'w Pipeline \<Rightarrow> ('w \<times> call list) Pipeline" where
  "observed p = \<lparr>pl_stages = map logged (pl_stages p)\<rparr>"

abbreviation forget :: "(('w \<times> call list) \<times> error option) option \<Rightarrow> ('w \<times> error option) option" where
  "forget r \<equiv> map_option (\<lambda>((w, log), err). (w, err)) r"

lemma logged_simps [simp]:
  "StageName (logged s) = StageName s"
  "StageStart (logged s) (w, log) = map_option (\<lambda>(w, err). ((w, log @ [Started (StageName s) err]), err)) (StageStart s w)"
  "StageStop (logged s) (w, log) = map_option (\<lambda>(w, err). ((w, log @ [Stopped (StageName s) err]), err)) (StageStop s w)"
  by (simp_all add: logged_def)

lemma stop_loop_logged: "forget (stop_loop (map logged ss) e (w, log)) = stop_loop ss e w"
proof (induction ss arbitrary: e w log)
  case (Cons s ss)
  then show ?case by (cases "StageStop s w") auto
qed simp

lemma stopInReverse_logged: "forget (stopInReverse (map logged ss) (w, log)) = stopInReverse ss w"
  using stop_loop_logged [of "rev ss" None w log] by (simp add: stopInReverse_def rev_map)

lemma run_loop_logged: "forget (run_loop (map logged started) (map logged ss) (w, log)) = run_loop started ss w"
proof (induction ss arbitrary: started w log)
  case (Cons s ss)
  show ?case
  proof (cases "StageStart s w")
    case None
    then show ?thesis by simp
  next
    case (Some r)
    obtain w1 err where r: "r = (w1, err)" by (cases r)
    show ?thesis
    proof (cases err)
      case None
      with Some r Cons.IH [of "started @ [s]" w1] show ?thesis by simp
    next
      case e: (Some e)
      let ?l = "log @ [Started (StageName s) (Some e)]"
      show ?thesis
        using stopInReverse_logged [of started w1 ?l, symmetric] Some r e
        by (cases "stopInReverse (map logged started) (w1, ?l)") (auto split: prod.splits)
    qed
  qed
qed simp

lemma Run_logged: "forget (Run (observed p) (w, log)) = Run p w"
  using run_loop_logged [of "[]" "pl_stages p" w log] by (simp add: Run_def observed_def)

lemma Shutdown_logged: "forget (Shutdown (observed p) (w, log)) = Shutdown p w"
  using stopInReverse_logged [of "pl_stages p" w log] by (simp add: Shutdown_def observed_def)

section \<open>Lemmas\<close>

definition returning :: "'w Stage \<Rightarrow> bool" where
  "returning s \<longleftrightarrow> (\<forall>w. StageStart s w \<noteq> None \<and> StageStop s w \<noteq> None)"

lemma returningD:
  assumes "returning s"
  shows "\<exists>w1 err. StageStart s w = Some (w1, err)" "\<exists>w1 err. StageStop s w = Some (w1, err)"
  using assms by (auto simp: returning_def)

text \<open>The calls that stop a list of stages, with their results.\<close>

definition stops :: "'w Stage list \<Rightarrow> error option list \<Rightarrow> call list" where
  "stops ss errs = map2 (\<lambda>s err. Stopped (StageName s) err) ss errs"

definition first_error :: "error option list \<Rightarrow> error option" where
  "first_error errs = (case filter (\<lambda>e. e \<noteq> None) errs of [] \<Rightarrow> None | e # _ \<Rightarrow> e)"

lemma stop_loop_calls:
  assumes "\<forall>s \<in> set ss. returning s"
  shows "\<exists>w' errs. length errs = length ss \<and>
    stop_loop (map logged ss) e (w, log) =
      Some ((w', log @ stops ss errs), if e \<noteq> None then e else first_error errs)"
  using assms
proof (induction ss arbitrary: e w log)
  case Nil
  then show ?case by (simp add: stops_def first_error_def)
next
  case (Cons s ss)
  obtain w1 err where s: "StageStop s w = Some (w1, err)"
    using returningD(2) [of s w] Cons.prems by auto
  let ?e = "if err \<noteq> None \<and> e = None then err else e"
  obtain w' errs where "length errs = length ss" and
    "stop_loop (map logged ss) ?e (w1, log @ [Stopped (StageName s) err]) =
       Some ((w', (log @ [Stopped (StageName s) err]) @ stops ss errs), if ?e \<noteq> None then ?e else first_error errs)"
    using Cons.IH [of ?e w1 "log @ [Stopped (StageName s) err]"] Cons.prems by auto
  then show ?case
    using s by (intro exI [of _ w'] exI [of _ "err # errs"]) (auto simp: stops_def first_error_def)
qed

lemma stopInReverse_calls:
  assumes "\<forall>s \<in> set ss. returning s"
  shows "\<exists>w' errs. length errs = length ss \<and>
    stopInReverse (map logged ss) (w, log) = Some ((w', log @ stops (rev ss) errs), first_error errs)"
  using stop_loop_calls [of "rev ss" None w log] assms by (simp add: stopInReverse_def rev_map)

text \<open>
  What starting the stages \<open>ss\<close> after \<open>started\<close> leads to: all are started, or the first that fails is
  reported and all before it are stopped.
\<close>

definition startup_outcome :: "'w Stage list \<Rightarrow> 'w Stage list \<Rightarrow> error option \<Rightarrow> call list \<Rightarrow> bool" where
  "startup_outcome started ss r calls \<longleftrightarrow>
     r = None \<and> calls = map (\<lambda>s. Started (StageName s) None) ss \<or>
     (\<exists>pre s post err errs. ss = pre @ s # post \<and> length errs = length (started @ pre) \<and>
        r = Some (''start stage '' @ StageName s @ '': '' @ err) \<and>
        calls = map (\<lambda>s. Started (StageName s) None) pre @ [Started (StageName s) (Some err)] @
          stops (rev (started @ pre)) errs)"

lemma startup_outcome_Cons:
  assumes "startup_outcome (started @ [s]) ss r calls"
  shows "startup_outcome started (s # ss) r (Started (StageName s) None # calls)"
  using assms unfolding startup_outcome_def
proof (elim disjE exE conjE)
  fix pre t post err errs
  assume "ss = pre @ t # post" "length errs = length ((started @ [s]) @ pre)"
    "r = Some (''start stage '' @ StageName t @ '': '' @ err)"
    "calls = map (\<lambda>s. Started (StageName s) None) pre @ [Started (StageName t) (Some err)] @
      stops (rev ((started @ [s]) @ pre)) errs"
  then show "r = None \<and> Started (StageName s) None # calls = map (\<lambda>s. Started (StageName s) None) (s # ss) \<or>
    (\<exists>pre t post err errs. s # ss = pre @ t # post \<and> length errs = length (started @ pre) \<and>
      r = Some (''start stage '' @ StageName t @ '': '' @ err) \<and>
      Started (StageName s) None # calls = map (\<lambda>s. Started (StageName s) None) pre @
        [Started (StageName t) (Some err)] @ stops (rev (started @ pre)) errs)"
    by (intro disjI2 exI [of _ "s # pre"] exI [of _ t] exI [of _ post] exI [of _ err] exI [of _ errs]) simp
qed simp

lemma startup_outcome_fails:
  "length errs = length started \<Longrightarrow>
     startup_outcome started (s # ss) (Some (''start stage '' @ StageName s @ '': '' @ err))
       (Started (StageName s) (Some err) # stops (rev started) errs)"
  unfolding startup_outcome_def
  by (intro disjI2 exI [of _ "[]"] exI [of _ s] exI [of _ ss] exI [of _ err] exI [of _ errs]) simp

lemma run_loop_calls:
  assumes "\<forall>s \<in> set (started @ ss). returning s"
  shows "\<exists>w' calls r. run_loop (map logged started) (map logged ss) (w, log) = Some ((w', log @ calls), r) \<and>
    startup_outcome started ss r calls"
  using assms
proof (induction ss arbitrary: started w log)
  case Nil
  then show ?case by (simp add: startup_outcome_def)
next
  case (Cons s ss)
  obtain w1 err where s: "StageStart s w = Some (w1, err)"
    using returningD(1) [of s w] Cons.prems by auto
  show ?case
  proof (cases err)
    case None
    let ?l = "log @ [Started (StageName s) None]"
    obtain w' calls r where "run_loop (map logged (started @ [s])) (map logged ss) (w1, ?l) = Some ((w', ?l @ calls), r)"
      "startup_outcome (started @ [s]) ss r calls"
      using Cons.IH [of "started @ [s]" w1 ?l] Cons.prems by auto
    with s None startup_outcome_Cons show ?thesis by fastforce
  next
    case (Some e)
    let ?l = "log @ [Started (StageName s) (Some e)]"
    obtain w' errs where "length errs = length started"
      "stopInReverse (map logged started) (w1, ?l) = Some ((w', ?l @ stops (rev started) errs), first_error errs)"
      using stopInReverse_calls [of started w1 ?l] Cons.prems by auto
    with s Some startup_outcome_fails [of errs started s ss e] show ?thesis by fastforce
  qed
qed

section \<open>Properties\<close>

text \<open>
  C20: Startup is all or nothing. If the calls of the stages return, \<^verbatim>\<open>Run\<close> returns. Either it starts
  every stage once, in order, and returns nil; or there is a first stage whose start fails, and then
  exactly the stages before it have been started and are stopped, in reverse order, none of them
  skipped because of errors during the rollback, no later stage is touched, and the result is that
  stage's error with its name.
\<close>

theorem Run_all_or_nothing:
  assumes "\<forall>s \<in> set (pl_stages p). returning s"
  shows "\<exists>w' calls r. Run (observed p) (w, []) = Some ((w', calls), r) \<and> Run p w = Some (w', r) \<and>
    (r = None \<and> calls = map (\<lambda>s. Started (StageName s) None) (pl_stages p) \<or>
     (\<exists>pre s post err errs. pl_stages p = pre @ s # post \<and> length errs = length pre \<and>
        r = Some (''start stage '' @ StageName s @ '': '' @ err) \<and>
        calls = map (\<lambda>s. Started (StageName s) None) pre @ [Started (StageName s) (Some err)] @ stops (rev pre) errs))"
proof -
  obtain w' calls r where run: "Run (observed p) (w, []) = Some ((w', calls), r)"
    and spec: "startup_outcome [] (pl_stages p) r calls"
    using run_loop_calls [of "[]" "pl_stages p" w "[]"] assms by (auto simp: Run_def observed_def)
  moreover have "Run p w = Some (w', r)" using Run_logged [of p w "[]"] run by simp
  ultimately show ?thesis unfolding startup_outcome_def append_Nil by blast
qed

text \<open>
  C21: Shutdown reaches every stage. If the calls of the stages return, \<^verbatim>\<open>Shutdown\<close> returns; it stops every
  stage once, in reverse order, whatever errors occur, and returns the first error.
\<close>

theorem Shutdown_reaches_all:
  assumes "\<forall>s \<in> set (pl_stages p). returning s"
  shows "\<exists>w' errs. length errs = length (pl_stages p) \<and>
    Shutdown (observed p) (w, []) = Some ((w', stops (rev (pl_stages p)) errs), first_error errs) \<and>
    Shutdown p w = Some (w', first_error errs)"
proof -
  obtain w' errs where "length errs = length (pl_stages p)"
    "Shutdown (observed p) (w, []) = Some ((w', stops (rev (pl_stages p)) errs), first_error errs)"
    using stopInReverse_calls [of "pl_stages p" w "[]"] assms by (auto simp: Shutdown_def observed_def)
  moreover from this have "Shutdown p w = Some (w', first_error errs)"
    using Shutdown_logged [of p w "[]"] by simp
  ultimately show ?thesis by blast
qed

text \<open>A pipeline of two stages, the second of which fails to start, for concrete instances.\<close>

definition example_pipeline :: "nat Pipeline" where
  "example_pipeline =
     AddStage \<lparr>StageName = ''b'', StageStart = (\<lambda>w. Some (w, Some ''address in use'')), StageStop = (\<lambda>w. Some (w, None))\<rparr>
     (AddStage \<lparr>StageName = ''a'', StageStart = (\<lambda>w. Some (w + 1, None)), StageStop = (\<lambda>w. Some (w, Some ''late''))\<rparr>
     Pipeline_New)"

lemma example_pipeline_returning: "\<forall>s \<in> set (pl_stages example_pipeline). returning s"
  by (simp add: example_pipeline_def AddStage_def Pipeline_New_def returning_def)

theorem Run_all_or_nothing_witness:
  "\<exists>w' calls r. Run (observed example_pipeline) (5, []) = Some ((w', calls), r) \<and> Run example_pipeline 5 = Some (w', r) \<and>
    (r = None \<and> calls = map (\<lambda>s. Started (StageName s) None) (pl_stages example_pipeline) \<or>
     (\<exists>pre s post err errs. pl_stages example_pipeline = pre @ s # post \<and> length errs = length pre \<and>
        r = Some (''start stage '' @ StageName s @ '': '' @ err) \<and>
        calls = map (\<lambda>s. Started (StageName s) None) pre @ [Started (StageName s) (Some err)] @ stops (rev pre) errs))"
  by (rule Run_all_or_nothing [OF example_pipeline_returning])

theorem Shutdown_reaches_all_witness:
  "\<exists>w' errs. length errs = length (pl_stages example_pipeline) \<and>
    Shutdown (observed example_pipeline) (5, []) = Some ((w', stops (rev (pl_stages example_pipeline)) errs), first_error errs) \<and>
    Shutdown example_pipeline 5 = Some (w', first_error errs)"
  by (rule Shutdown_reaches_all [OF example_pipeline_returning])

end
