(* ===== verification/Metrics.thy ===== *)
theory Metrics
  imports Prelude
begin

text \<open>
  The metrics endpoint (\<^verbatim>\<open>internal/metrics\<close>).

  \<^item> The server of \<^verbatim>\<open>server.go\<close>: its construction, the start with the listener's error, the serving goroutine and
    the stop. \<^verbatim>\<open>http.ServeMux\<close> and the network are arguments: \<open>validPattern\<close> are the patterns that
    \<^verbatim>\<open>mux.Handle\<close> accepts, for others it panics; \<open>Listen\<close> is the error of \<^verbatim>\<open>net.Listen\<close>, and \<open>Shutdown\<close>
    that of \<^verbatim>\<open>http.Server.Shutdown\<close> with a timeout.
  \<^item> The collectors that \<^verbatim>\<open>metrics.go\<close> declares. \<^verbatim>\<open>promauto\<close> registers them as the package is initialised and panics
    if the registry, an argument too, refuses one.
\<close>

section \<open>The server\<close>

record Server =
  srv_Addr :: string
  srv_Pattern :: string
  srv_ReadHeaderTimeout :: int

record ServerState =
  serving :: bool
  serveErrors :: "error list"

definition NewServer :: "(string \<Rightarrow> bool) \<Rightarrow> string \<Rightarrow> string \<Rightarrow> Server go" where
  "NewServer validPattern listen path =
     (if validPattern path
      then Some \<lparr>srv_Addr = listen, srv_Pattern = path, srv_ReadHeaderTimeout = 10 * 10 ^ 9\<rparr>
      else panic)"

definition Server_Start :: "(string \<Rightarrow> error option) \<Rightarrow> Server \<Rightarrow> ServerState \<Rightarrow> ServerState \<times> error option" where
  "Server_Start Listen s st =
     (case Listen (srv_Addr s) of
        Some err \<Rightarrow> (st, Some err)
      | None \<Rightarrow> (st\<lparr>serving := True\<rparr>, None))"

definition ErrServerClosed :: error where
  "ErrServerClosed = ''http: Server closed''"

text \<open>The goroutine when \<^verbatim>\<open>Serve\<close> returns, which it does with an error only.\<close>

definition serve_returns :: "error \<Rightarrow> ServerState \<Rightarrow> ServerState" where
  "serve_returns err st =
     (let st = st\<lparr>serving := False\<rparr>
      in if err \<noteq> ErrServerClosed then st\<lparr>serveErrors := serveErrors st @ [err]\<rparr> else st)"

text \<open>\<^verbatim>\<open>Shutdown\<close> makes \<^verbatim>\<open>Serve\<close> return with \<^verbatim>\<open>ErrServerClosed\<close>; the context of the caller is not used.\<close>

definition Server_Stop :: "(int \<Rightarrow> error option) \<Rightarrow> ServerState \<Rightarrow> ServerState \<times> error option" where
  "Server_Stop Shutdown st =
     (if serving st then serve_returns ErrServerClosed st else st, Shutdown (5 * 10 ^ 9))"

definition Server_Name :: string where
  "Server_Name = ''metrics-server''"

section \<open>The collectors\<close>

text \<open>The bucket bounds are computed by the Prometheus library from these arguments; a decimal literal is its mantissa and exponent.\<close>

datatype Buckets = ExponentialBuckets "int \<times> int" int nat | DefBuckets

datatype Collector = Counter | CounterVec "string list" | Gauge | GaugeVec "string list" | Histogram Buckets

record Metric =
  mt_Namespace :: string
  mt_Name :: string
  mt_Help :: string
  mt_Collector :: Collector

definition namespace :: string where
  "namespace = ''netcap''"

definition metric :: "string \<Rightarrow> string \<Rightarrow> Collector \<Rightarrow> Metric" where
  "metric name help c = \<lparr>mt_Namespace = namespace, mt_Name = name, mt_Help = help, mt_Collector = c\<rparr>"

definition PacketsCaptured :: Metric where
  "PacketsCaptured = metric ''packets_captured_total'' ''Total number of packets captured.'' (CounterVec [''queue''])"

definition PacketsDropped :: Metric where
  "PacketsDropped = metric ''packets_dropped_total'' ''Total number of packets dropped.'' (CounterVec [''queue'', ''reason''])"

definition CaptureBytes :: Metric where
  "CaptureBytes = metric ''capture_bytes_total'' ''Total bytes captured.'' (CounterVec [''queue''])"

definition DecodeLatency :: Metric where
  "DecodeLatency = metric ''decode_latency_seconds'' ''Packet decode latency in seconds.''
     (Histogram (ExponentialBuckets (1, - 6) 10 7))"

definition ActiveStreams :: Metric where
  "ActiveStreams = metric ''active_streams'' ''Current number of active TCP reassembly streams.'' Gauge"

definition ReassemblyPagesUsed :: Metric where
  "ReassemblyPagesUsed = metric ''reassembly_pages_used'' ''Number of reassembly page buffers currently in use.'' Gauge"

definition ProtocolEvents :: Metric where
  "ProtocolEvents = metric ''protocol_events_total'' ''Total parsed protocol-level events.''
     (CounterVec [''protocol'', ''direction''])"

definition ParseErrors :: Metric where
  "ParseErrors = metric ''parse_errors_total'' ''Total protocol parse errors.'' (CounterVec [''protocol'', ''error_type''])"

definition KafkaMessagesSent :: Metric where
  "KafkaMessagesSent = metric ''kafka_messages_sent_total'' ''Total messages sent to Kafka.'' Counter"

definition KafkaSendErrors :: Metric where
  "KafkaSendErrors = metric ''kafka_send_errors_total'' ''Total Kafka send errors.'' Counter"

definition KafkaBatchLatency :: Metric where
  "KafkaBatchLatency = metric ''kafka_batch_latency_seconds'' ''Kafka batch write latency in seconds.'' (Histogram DefBuckets)"

definition ChannelUtilization :: Metric where
  "ChannelUtilization = metric ''channel_utilization_ratio'' ''Pipeline channel utilization ratio (0-1) per stage.''
     (GaugeVec [''stage''])"

definition metrics :: "Metric list" where
  "metrics = [PacketsCaptured, PacketsDropped, CaptureBytes, DecodeLatency, ActiveStreams, ReassemblyPagesUsed,
     ProtocolEvents, ParseErrors, KafkaMessagesSent, KafkaSendErrors, KafkaBatchLatency, ChannelUtilization]"

text \<open>Package initialisation: \<open>Register\<close> is the registry's, with None for its error.\<close>

fun register_all :: "('r \<Rightarrow> Metric \<Rightarrow> 'r option) \<Rightarrow> Metric list \<Rightarrow> 'r \<Rightarrow> 'r go" where
  "register_all Register [] r = Some r"
| "register_all Register (m # ms) r = Option.bind (Register r m) (register_all Register ms)"

section \<open>Lemmas\<close>

text \<open>What the Prometheus data model asks of names and labels.\<close>

definition name_char :: "char \<Rightarrow> bool" where
  "name_char c \<longleftrightarrow> c \<in> set ''abcdefghijklmnopqrstuvwxyzABCDEFGHIJKLMNOPQRSTUVWXYZ_''"

definition valid_name :: "string \<Rightarrow> bool" where
  "valid_name s \<longleftrightarrow> s \<noteq> [] \<and> name_char (hd s) \<and> (\<forall>c \<in> set (tl s). name_char c \<or> c \<in> set ''0123456789'')"

definition labels :: "Collector \<Rightarrow> string list" where
  "labels c = (case c of CounterVec ls \<Rightarrow> ls | GaugeVec ls \<Rightarrow> ls | _ \<Rightarrow> [])"

definition metric_valid :: "Metric \<Rightarrow> bool" where
  "metric_valid m \<longleftrightarrow> valid_name (mt_Namespace m) \<and> valid_name (mt_Name m) \<and>
     list_all valid_name (labels (mt_Collector m)) \<and> distinct (labels (mt_Collector m))"

definition metric_key :: "Metric \<Rightarrow> string \<times> string" where
  "metric_key m = (mt_Namespace m, mt_Name m)"

lemmas metric_defs = metrics_def PacketsCaptured_def PacketsDropped_def CaptureBytes_def DecodeLatency_def
  ActiveStreams_def ReassemblyPagesUsed_def ProtocolEvents_def ParseErrors_def KafkaMessagesSent_def
  KafkaSendErrors_def KafkaBatchLatency_def ChannelUtilization_def metric_def namespace_def

lemma metrics_valid: "list_all metric_valid metrics"
  by code_simp

lemma metrics_distinct: "distinct (map metric_key metrics)"
  by (simp add: metric_defs metric_key_def)

lemma register_all_ok:
  assumes "\<And>r m. metric_valid m \<Longrightarrow> metric_key m \<notin> registered r \<Longrightarrow>
      \<exists>r'. Register r m = Some r' \<and> registered r' = insert (metric_key m) (registered r)"
    and "\<forall>m \<in> set ms. metric_valid m" "distinct (map metric_key ms)" "registered r \<inter> set (map metric_key ms) = {}"
  shows "\<exists>r'. register_all Register ms r = Some r' \<and> registered r' = registered r \<union> set (map metric_key ms)"
  using assms(2-)
proof (induction ms arbitrary: r)
  case (Cons m ms)
  then obtain r1 where r1: "Register r m = Some r1" "registered r1 = insert (metric_key m) (registered r)"
    using assms(1) [of m r] by auto
  with Cons.prems Cons.IH [of r1] show ?case by auto
qed simp

text \<open>
  Initialising the package does not panic. A registry that follows its documentation accepts a valid collector with a
  name that none of its collectors has. Starting from one with no collector of the program's, all twelve
  are registered.
\<close>

lemma metrics_register:
  assumes "\<And>r m. metric_valid m \<Longrightarrow> metric_key m \<notin> registered r \<Longrightarrow>
      \<exists>r'. Register r m = Some r' \<and> registered r' = insert (metric_key m) (registered r)"
    and "\<And>k. k \<in> registered r \<Longrightarrow> fst k \<noteq> namespace"
  shows "\<exists>r'. register_all Register metrics r = Some r' \<and> registered r' = registered r \<union> set (map metric_key metrics)"
proof (rule register_all_ok [OF assms(1)])
  have "set (map metric_key metrics) \<subseteq> {k. fst k = namespace}" by (simp add: metric_defs metric_key_def)
  then show "registered r \<inter> set (map metric_key metrics) = {}" using assms(2) by blast
qed (use metrics_valid in \<open>simp_all add: metrics_distinct list_all_iff\<close>)

text \<open>Starting serves exactly if the listener could be made; stopping ends the goroutine without a logged error.\<close>

lemma Server_Start_Stop:
  "Server_Start Listen s st = (if Listen (srv_Addr s) = None then st\<lparr>serving := True\<rparr> else st, Listen (srv_Addr s))"
  "fst (Server_Stop Shutdown st) = st\<lparr>serving := False\<rparr>"
  by (auto simp: Server_Start_def Server_Stop_def serve_returns_def Let_def split: option.splits)

end
