(* ===== verification/Wiring.thy ===== *)
theory Wiring
  imports Reassembly Config Kafka Afpacket Pipeline Metrics
begin

text \<open>
  How \<^verbatim>\<open>cmd/netcap/main.go\<close> puts the stages together: the packet splitter, the settings each stage
  is built with, the order of the stages, and the life cycle of the running agent.

  \<^item> \<open>packetSplitter\<close> is the loop of the splitter's goroutine over the decoder's output.
  \<^item> \<open>assemble\<close> computes the settings of the stages and makes the channels between them;
    each \<^verbatim>\<open>make\<close> panics for a size that is negative or beyond the limit of the run time.
  \<^item> \<open>agent_step\<close> is the concurrent behaviour of the running agent as far as starting and stopping
    are concerned: which goroutines run, which channels are closed, whether the context is
    cancelled, and what the main goroutine still has to do. The \<^verbatim>\<open>Stop\<close> method of a stage is the list
    of the blocking waits and channel closes it performs, in order (\<open>stop_actions\<close>); the order of the
    stages is that of \<^verbatim>\<open>Pipeline.Shutdown\<close>. \<open>main\<close> gives what the main goroutine has to do. A goroutine group (the workers of one stage) is one unit:
    it is live until its last member returns, which is what a \<^verbatim>\<open>WaitGroup\<close> observes.
\<close>

section \<open>The packet splitter\<close>

fun packetSplitter :: "DecodedPacket list \<Rightarrow> DecodedPacket list \<times> DecodedPacket list" where
  "packetSplitter [] = ([], [])"
| "packetSplitter (pkt # pkts) =
     (case packetSplitter pkts of (tcp, udp) \<Rightarrow>
        if dp_TransProto pkt = 6 then (pkt # tcp, udp)
        else if dp_TransProto pkt = 17 then (tcp, pkt # udp)
        else (tcp, udp))"

section \<open>Assembly\<close>

record assembly =
  as_capture :: AfpConfig
  as_decoder :: DecoderConfig
  as_decodedCh :: nat
  as_tcpCh :: nat
  as_udpCh :: nat
  as_reassembly :: ReassemblyConfig
  as_streamCh :: nat
  as_kafka :: Producer
  as_maxBody :: int
  as_maxQuery :: int
  as_metrics :: "Server option"

text \<open>The output channels that the constructors of the decoder and of the reassembler make, after their defaults.\<close>

definition decoder_output :: "make_limits \<Rightarrow> DecoderConfig \<Rightarrow> nat go" where
  "decoder_output M cfg = go_make (lim_DecodedPacket M) (dec_ChannelBuffer (Decoder_New cfg))"

definition reassembler_output :: "make_limits \<Rightarrow> ReassemblyConfig \<Rightarrow> nat go" where
  "reassembler_output M cfg =
     go_make (lim_StreamData M) (if rc_ChannelBuffer cfg \<le> 0 then 4096 else rc_ChannelBuffer cfg)"

definition captureConfig :: "Config \<Rightarrow> AfpConfig" where
  "captureConfig cfg =
     \<lparr>afp_Interface = cap_Interface (cfg_Capture cfg), afp_NumQueues = cap_NumQueues (cfg_Capture cfg),
      afp_BufferSizeMB = (let n = cap_BufferSize (cfg_Capture cfg) in if n < 0 then - (- n div (1024 * 1024)) else n div (1024 * 1024)),
      afp_SnapLength = cap_SnapLength (cfg_Capture cfg), afp_BPFFilter = cap_BPFFilter (cfg_Capture cfg),
      afp_FanoutType = fo_Type (cap_Fanout (cfg_Capture cfg)),
      afp_FanoutGroupID = fo_GroupID (cap_Fanout (cfg_Capture cfg)),
      afp_OutputBuffer = dc_ChannelBuffer (cfg_Decode cfg)\<rparr>"

definition reassemblyConfig :: "Config \<Rightarrow> ReassemblyConfig" where
  "reassemblyConfig cfg =
     \<lparr>rc_MaxBufferedPagesPerConn = rs_MaxBufferedPagesPerConn (cfg_Reassembly cfg),
      rc_MaxBufferedPagesTotal = rs_MaxBufferedPagesTotal (cfg_Reassembly cfg),
      rc_ConnectionTimeout = rs_ConnectionTimeout (cfg_Reassembly cfg),
      rc_MaxConnectionAge = rs_MaxConnectionAge (cfg_Reassembly cfg),
      rc_FlushInterval = rs_FlushInterval (cfg_Reassembly cfg),
      rc_ChannelBuffer = dc_ChannelBuffer (cfg_Decode cfg)\<rparr>"

definition kafkaConfig :: "Config \<Rightarrow> KafkaConfig" where
  "kafkaConfig cfg =
     (let k = cfg_Kafka cfg
      in \<lparr>kc_Brokers = ks_Brokers k, kc_Topic = ks_Topic k, kc_BatchSize = ks_BatchSize k,
          kc_BatchTimeout = ks_BatchTimeout k, kc_Compression = ks_Compression k,
          kc_RequiredAcks = ks_RequiredAcks k, kc_NumWorkers = ks_NumWorkers k,
          kc_MaxMessageBytes = ks_MaxMessageBytes k\<rparr>)"

definition assemble :: "make_limits \<Rightarrow> (string \<Rightarrow> bool) \<Rightarrow> Config \<Rightarrow> assembly go" where
  "assemble M validPattern cfg = do {
     let buf = dc_ChannelBuffer (cfg_Decode cfg);
     let decoderCfg = \<lparr>dec_Workers = dc_Workers (cfg_Decode cfg), dec_ChannelBuffer = buf\<rparr>;
     decodedCh \<leftarrow> decoder_output M decoderCfg;
     tcpCh \<leftarrow> go_make (lim_DecodedPacket M) buf;
     udpCh \<leftarrow> go_make (lim_DecodedPacket M) buf;
     streamCh \<leftarrow> reassembler_output M (reassemblyConfig cfg);
     producer \<leftarrow> NewProducer M (kafkaConfig cfg) buf;
     metricsServer \<leftarrow>
       (if mc_Enabled (cfg_Metrics cfg)
        then map_option Some (NewServer validPattern (mc_Listen (cfg_Metrics cfg)) (mc_Path (cfg_Metrics cfg)))
        else Some None);
     Some \<lparr>as_capture = afp_defaults (captureConfig cfg), as_decoder = Decoder_New decoderCfg, as_decodedCh = decodedCh,
           as_tcpCh = tcpCh, as_udpCh = udpCh, as_reassembly = reassemblyConfig cfg, as_streamCh = streamCh, as_kafka = producer,
           as_maxBody = hc_MaxBodyCapture (pc_HTTP (cfg_Protocols cfg)),
           as_maxQuery = dbc_MaxQueryLength (pc_DB (cfg_Protocols cfg)),
           as_metrics = metricsServer\<rparr> }"

section \<open>Life cycle\<close>

datatype group = CaptureLoops | DecodeWorkers | SplitLoop | ReassemblyLoop | KafkaWorkers | TcpLoop | UdpLoop

datatype channel = Packets | Decoded | TcpPackets | UdpPackets | Streams | Events

datatype stage = Decoder | Splitter | ReassemblyStage | KafkaProducer | DispatcherStage | MetricsServer

datatype action = Wait group | Close channel | AwaitSignal | CloseSockets

record agent =
  live :: "group set"
  closed :: "channel set"
  cancelled :: bool
  todo :: "action list"

text \<open>
  The \<^verbatim>\<open>Stop\<close> methods. The metrics server's shutdown is bounded by its own timeout. What
  \<^verbatim>\<open>Stop\<close> does besides (flushing the reassembler, closing the Kafka writers) does not block on a
  goroutine of the agent.
\<close>

definition decoder_Stop :: "action list" where
  "decoder_Stop = [Wait DecodeWorkers, Close Decoded]"

definition splitter_Stop :: "action list" where
  "splitter_Stop = [Wait SplitLoop]"

definition reassembler_Stop :: "action list" where
  "reassembler_Stop = [Wait ReassemblyLoop, Close Streams]"

definition producer_Stop :: "action list" where
  "producer_Stop = [Close Events, Wait KafkaWorkers]"

definition dispatcher_Stop :: "action list" where
  "dispatcher_Stop = [Wait TcpLoop, Wait UdpLoop]"

definition server_Stop :: "action list" where
  "server_Stop = []"

definition capturer_Close :: "action list" where
  "capturer_Close = [Wait CaptureLoops, CloseSockets]"

fun stop_actions :: "stage \<Rightarrow> action list" where
  "stop_actions Decoder = decoder_Stop"
| "stop_actions Splitter = splitter_Stop"
| "stop_actions ReassemblyStage = reassembler_Stop"
| "stop_actions KafkaProducer = producer_Stop"
| "stop_actions DispatcherStage = dispatcher_Stop"
| "stop_actions MetricsServer = server_Stop"

lemmas Stop_defs = decoder_Stop_def splitter_Stop_def reassembler_Stop_def producer_Stop_def dispatcher_Stop_def
  server_Stop_def

fun stageName :: "stage \<Rightarrow> string" where
  "stageName Decoder = ''decoder''"
| "stageName Splitter = ''packet-splitter''"
| "stageName ReassemblyStage = ''tcp-reassembly''"
| "stageName KafkaProducer = ''kafka-producer''"
| "stageName DispatcherStage = ''protocol-dispatcher''"
| "stageName MetricsServer = Server_Name"

text \<open>
  The stages as \<open>Stage\<close> records over the list of actions the main goroutine has collected: stopping a
  stage appends its actions. Only the metrics server's start can fail, with the listener's error (\<open>Listen\<close>).
\<close>

definition agent_stage :: "error option \<Rightarrow> stage \<Rightarrow> action list Stage" where
  "agent_stage startErr s =
     \<lparr>StageName = stageName s, StageStart = (\<lambda>as. Some (as, startErr)),
      StageStop = (\<lambda>as. Some (as @ stop_actions s, None))\<rparr>"

definition mainPipeline :: "(string \<Rightarrow> error option) \<Rightarrow> Server option \<Rightarrow> action list Pipeline" where
  "mainPipeline Listen metricsServer =
     (let p = Pipeline_New;
          p = AddStage (agent_stage None Decoder) p;
          p = AddStage (agent_stage None Splitter) p;
          p = AddStage (agent_stage None ReassemblyStage) p;
          p = AddStage (agent_stage None KafkaProducer) p;
          p = AddStage (agent_stage None DispatcherStage) p
      in case metricsServer of
           None \<Rightarrow> p
         | Some srv \<Rightarrow>
             AddStage (agent_stage (snd (Server_Start Listen srv \<lparr>serving = False, serveErrors = []\<rparr>)) MetricsServer) p)"

text \<open>
  The main function. It exits before anything runs if the configuration or the capture fails. Otherwise the outcome is what
  the main goroutine still has to do before it returns, with the error if a stage failed to start.
\<close>

datatype outcome = ExitStatus nat | Serving "action list" | RollingBack error "action list"

definition main_run :: "(string \<Rightarrow> error option) \<Rightarrow> Server option \<Rightarrow> outcome go" where
  "main_run Listen metricsServer = do {
     let p = mainPipeline Listen metricsServer;
     (acts, err) \<leftarrow> Run p [];
     case err of
       Some err \<Rightarrow> Some (RollingBack err (acts @ capturer_Close))
     | None \<Rightarrow> do {
         (acts, err) \<leftarrow> Shutdown p (acts @ [AwaitSignal]);
         Some (Serving (acts @ capturer_Close)) } }"

definition main ::
  "make_limits \<Rightarrow> 'd viper \<Rightarrow> string \<Rightarrow> 'k kernel \<Rightarrow> 'k host \<Rightarrow> (string \<Rightarrow> bool) \<Rightarrow> (string \<Rightarrow> error option) \<Rightarrow> outcome go" where
  "main M v configPath K h validPattern Listen =
     (case Load v configPath of
        Inl err \<Rightarrow> Some (ExitStatus 1)
      | Inr cfg \<Rightarrow> do {
          (capturer, err) \<leftarrow> Capturer_Start M K (Capturer_New (captureConfig cfg), h);
          case err of
            Some err \<Rightarrow> Some (ExitStatus 1)
          | None \<Rightarrow> do {
              a \<leftarrow> assemble M validPattern cfg;
              main_run Listen (as_metrics a) } })"

text \<open>When a goroutine group can return, and the channels it closes as it does.\<close>

fun may_exit :: "agent \<Rightarrow> group \<Rightarrow> bool" where
  "may_exit s CaptureLoops = True"
| "may_exit s DecodeWorkers = (cancelled s \<or> Packets \<in> closed s)"
| "may_exit s SplitLoop = (Decoded \<in> closed s)"
| "may_exit s ReassemblyLoop = (cancelled s \<or> TcpPackets \<in> closed s)"
| "may_exit s KafkaWorkers = (cancelled s \<or> Events \<in> closed s)"
| "may_exit s TcpLoop = (cancelled s \<or> Streams \<in> closed s)"
| "may_exit s UdpLoop = (cancelled s \<or> UdpPackets \<in> closed s)"

fun closes_on_exit :: "group \<Rightarrow> channel set" where
  "closes_on_exit CaptureLoops = {Packets}"
| "closes_on_exit SplitLoop = {TcpPackets, UdpPackets}"
| "closes_on_exit g = {}"

inductive agent_step :: "agent \<Rightarrow> agent \<Rightarrow> bool" where
  Signal: "\<not> cancelled s \<Longrightarrow> agent_step s (s\<lparr>cancelled := True\<rparr>)"
| Exit: "g \<in> live s \<Longrightarrow> may_exit s g \<Longrightarrow>
    agent_step s (s\<lparr>live := live s - {g}, closed := closed s \<union> closes_on_exit g\<rparr>)"
| Waited: "todo s = Wait g # as \<Longrightarrow> g \<notin> live s \<Longrightarrow> agent_step s (s\<lparr>todo := as\<rparr>)"
| Closed: "todo s = Close c # as \<Longrightarrow> agent_step s (s\<lparr>closed := insert c (closed s), todo := as\<rparr>)"
| Signalled: "todo s = AwaitSignal # as \<Longrightarrow> cancelled s \<Longrightarrow> agent_step s (s\<lparr>todo := as\<rparr>)"
| SocketsClosed: "todo s = CloseSockets # as \<Longrightarrow> agent_step s (s\<lparr>todo := as\<rparr>)"

inductive_cases agent_stepE: "agent_step s t"

text \<open>
  The goroutines that starting the capturer and the stages launches, and the agent with all of them
  running as the main goroutine begins to stop the stages.
\<close>

definition decoder_Start :: "group set" where
  "decoder_Start = {DecodeWorkers}"

definition splitter_Start :: "group set" where
  "splitter_Start = {SplitLoop}"

definition reassembler_Start :: "group set" where
  "reassembler_Start = {ReassemblyLoop}"

definition producer_Start :: "group set" where
  "producer_Start = {KafkaWorkers}"

definition dispatcher_Start :: "group set" where
  "dispatcher_Start = {TcpLoop, UdpLoop}"

definition running :: "action list \<Rightarrow> agent" where
  "running as =
     \<lparr>live = {CaptureLoops} \<union> decoder_Start \<union> splitter_Start \<union> reassembler_Start \<union> producer_Start \<union> dispatcher_Start,
      closed = {}, cancelled = False, todo = as\<rparr>"

lemma running_eq: "running as = \<lparr>live = UNIV, closed = {}, cancelled = False, todo = as\<rparr>"
  by (auto simp: running_def decoder_Start_def splitter_Start_def reassembler_Start_def producer_Start_def
      dispatcher_Start_def) (metis group.exhaust)

lemma running_simps [simp]:
  "live (running as) = UNIV" "closed (running as) = {}" "\<not> cancelled (running as)" "todo (running as) = as"
  by (simp_all add: running_eq)

section \<open>Lemmas\<close>

lemma packetSplitter_filter:
  "packetSplitter pkts = (filter (\<lambda>p. dp_TransProto p = 6) pkts, filter (\<lambda>p. dp_TransProto p = 17) pkts)"
  by (induction pkts) auto

definition shutdown_actions :: "action list" where
  "shutdown_actions = [Wait TcpLoop, Wait UdpLoop, Close Events, Wait KafkaWorkers, Wait ReassemblyLoop,
     Close Streams, Wait SplitLoop, Wait DecodeWorkers, Close Decoded]"

lemma Shutdown_main: "Shutdown (mainPipeline Listen m) as = Some (as @ shutdown_actions, None)"
  by (cases m) (simp_all add: Shutdown_def stopInReverse_def mainPipeline_def Let_def AddStage_def Pipeline_New_def
      agent_stage_def shutdown_actions_def Stop_defs)

lemma Run_main:
  "Run (mainPipeline Listen m) [] =
     (case m of
        Some srv \<Rightarrow> (case Listen (srv_Addr srv) of
          Some err \<Rightarrow> Some (shutdown_actions, Some (''start stage metrics-server: '' @ err))
        | None \<Rightarrow> Some ([], None))
      | None \<Rightarrow> Some ([], None))"
  by (auto simp: Server_Start_def Server_Name_def Run_def stopInReverse_def mainPipeline_def Let_def AddStage_def
      Pipeline_New_def agent_stage_def shutdown_actions_def Stop_defs split: option.splits)

lemma main_run_eq:
  "main_run Listen m =
     (case m of
        Some srv \<Rightarrow> (case Listen (srv_Addr srv) of
          Some err \<Rightarrow> Some (RollingBack (''start stage metrics-server: '' @ err) (shutdown_actions @ capturer_Close))
        | None \<Rightarrow> Some (Serving (AwaitSignal # shutdown_actions @ capturer_Close)))
      | None \<Rightarrow> Some (Serving (AwaitSignal # shutdown_actions @ capturer_Close)))"
  by (auto simp: main_run_def Run_main Shutdown_main split: option.splits)

lemma assemble_metrics:
  "assemble M validPattern cfg = Some a \<Longrightarrow>
     as_metrics a = None \<or> (\<exists>srv. as_metrics a = Some srv \<and> srv_Addr srv = mc_Listen (cfg_Metrics cfg))"
  by (auto simp: assemble_def NewServer_def Let_def bind_eq_Some_conv split: if_splits)

lemma main_outcome:
  assumes "Load v path = Inr cfg"
  shows "main M v path K h validPattern Listen = Some (Serving acts) \<Longrightarrow> acts = AwaitSignal # shutdown_actions @ capturer_Close"
    and "main M v path K h validPattern Listen = Some (RollingBack err acts) \<Longrightarrow>
      acts = shutdown_actions @ capturer_Close \<and>
      (\<exists>listenErr. Listen (mc_Listen (cfg_Metrics cfg)) = Some listenErr \<and> err = ''start stage metrics-server: '' @ listenErr)"
  using assms assemble_metrics [of M validPattern cfg]
  by (auto simp: main_def main_run_eq bind_eq_Some_conv split: option.splits prod.splits)

text \<open>The splitter waits for a channel that is closed only after the main goroutine has waited for the splitter.\<close>

abbreviation splitter_tail :: "action list" where
  "splitter_tail \<equiv> [Wait SplitLoop, Wait DecodeWorkers, Close Decoded, Wait CaptureLoops, CloseSockets]"

definition circular :: "agent \<Rightarrow> bool" where
  "circular s \<longleftrightarrow> SplitLoop \<in> live s \<and> Decoded \<notin> closed s \<and>
     (\<exists>pre. todo s = pre @ splitter_tail \<and> set pre \<inter> set splitter_tail = {})"

lemma circular_running:
  assumes "set pre \<subseteq> {AwaitSignal}"
  shows "circular (running (pre @ shutdown_actions @ capturer_Close))"
proof -
  let ?pre = "pre @ [Wait TcpLoop, Wait UdpLoop, Close Events, Wait KafkaWorkers, Wait ReassemblyLoop, Close Streams]"
  have "pre @ shutdown_actions @ capturer_Close = ?pre @ splitter_tail"
    by (simp add: shutdown_actions_def capturer_Close_def)
  moreover have "set ?pre \<inter> set splitter_tail = {}" using assms by auto
  ultimately show ?thesis unfolding circular_def running_simps by blast
qed

lemma circular_next:
  assumes "circular s" "todo s = a # as" "a \<noteq> Wait SplitLoop"
  shows "Decoded \<notin> closed s \<and> a \<notin> set splitter_tail \<and> circular (s\<lparr>todo := as\<rparr>)"
proof -
  obtain pre where pre: "a # as = pre @ splitter_tail" "set pre \<inter> set splitter_tail = {}"
    using assms(1,2) by (auto simp: circular_def)
  with assms(3) obtain pre' where "pre = a # pre'" by (cases pre) auto
  with pre assms(1) show ?thesis by (auto simp: circular_def)
qed

lemma circular_step: "agent_step s t \<Longrightarrow> circular s \<Longrightarrow> circular t"
proof (induction rule: agent_step.induct)
  case (Exit g s)
  then have "g \<noteq> SplitLoop" by (auto simp: circular_def)
  then have "Decoded \<notin> closes_on_exit g" by (cases g) auto
  with Exit \<open>g \<noteq> SplitLoop\<close> show ?case by (auto simp: circular_def)
next
  case (Waited s g as)
  then have "Wait g \<noteq> Wait SplitLoop" by (auto simp: circular_def)
  with Waited circular_next [of s "Wait g" as] show ?case by simp
next
  case (Closed s c as)
  from circular_next [OF Closed(2,1)] show ?case by (auto simp: circular_def)
next
  case (Signalled s as)
  from circular_next [OF Signalled(3,1)] show ?case by simp
next
  case (SocketsClosed s as)
  from circular_next [OF SocketsClosed(2,1)] show ?case by simp
qed (auto simp: circular_def)

definition agent_measure :: "agent \<Rightarrow> nat" where
  "agent_measure s = card (live s) + length (todo s) + (if cancelled s then 0 else 1)"

lemma UNIV_group: "UNIV = {CaptureLoops, DecodeWorkers, SplitLoop, ReassemblyLoop, KafkaWorkers, TcpLoop, UdpLoop}"
  using group.exhaust by blast

lemma finite_live [simp]: "finite (live s)"
proof (rule finite_subset)
  show "live s \<subseteq> UNIV" by (rule subset_UNIV)
  show "finite (UNIV :: group set)" by (simp add: UNIV_group)
qed

lemma agent_step_measure: "agent_step s t \<Longrightarrow> agent_measure t < agent_measure s"
proof (induction rule: agent_step.induct)
  case (Exit g s)
  then show ?case using card_Diff1_less [of "live s" g] by (simp add: agent_measure_def)
qed (auto simp: agent_measure_def)

lemma agent_steps:
  "(agent_step ^^ n) s t \<Longrightarrow> circular s \<Longrightarrow> circular t \<and> n + agent_measure t \<le> agent_measure s"
proof (induction n arbitrary: t)
  case (Suc n)
  from Suc.prems(1) obtain u where u: "(agent_step ^^ n) s u" "agent_step u t" by (auto elim: relpowp_Suc_E)
  with Suc.IH [OF u(1) Suc.prems(2)] circular_step agent_step_measure show ?case by fastforce
qed simp

text \<open>An agent at rest has seen the signal, all its goroutines but the splitter's are gone, and main waits for that one.\<close>

lemma resting:
  assumes "circular s" "\<forall>t. \<not> agent_step s t"
  shows "cancelled s \<and> live s = {SplitLoop} \<and> todo s = splitter_tail"
proof -
  have c: "cancelled s" using assms(2) agent_step.Signal by blast
  have "g \<notin> live s" if "g \<noteq> SplitLoop" for g
    using that c assms(2) agent_step.Exit [of g s] by (cases g) auto
  then have l: "live s = {SplitLoop}" using assms(1) by (auto simp: circular_def)
  obtain pre where pre: "todo s = pre @ splitter_tail" using assms(1) by (auto simp: circular_def)
  then obtain a as where t: "todo s = a # as" by (cases pre) auto
  have "a = Wait SplitLoop"
    using assms(2) c l t agent_step.intros(3-6) [of s] by (cases a) auto
  with t assms(1) have "todo s = splitter_tail" by (auto simp: circular_def Cons_eq_append_conv)
  with c l show ?thesis by simp
qed

lemma never_returns:
  assumes "set pre \<subseteq> {AwaitSignal}" "(agent_step ^^ n) (running (pre @ shutdown_actions @ capturer_Close)) s"
  shows "n \<le> 19 + length pre \<and> todo s \<noteq> [] \<and>
    ((\<exists>t. agent_step s t) \<or> cancelled s \<and> live s = {SplitLoop} \<and> todo s = splitter_tail)"
proof -
  have s: "circular s" "n + agent_measure s \<le> agent_measure (running (pre @ shutdown_actions @ capturer_Close))"
    using agent_steps [OF assms(2) circular_running [OF assms(1)]] by auto
  have "card (UNIV :: group set) = 7" by (simp add: UNIV_group)
  then have "n \<le> 19 + length pre" using s(2) by (simp add: agent_measure_def shutdown_actions_def capturer_Close_def)
  moreover have "todo s \<noteq> []" using s(1) by (auto simp: circular_def)
  ultimately show ?thesis using resting [OF s(1)] by blast
qed

text \<open>
  While the context is alive, a main goroutine that waits for the dispatcher's TCP loop waits on: the loop ends when the reassembler's channel
  is closed, and the main goroutine would do that later.
\<close>

definition awaits_dispatcher :: "action list \<Rightarrow> agent \<Rightarrow> bool" where
  "awaits_dispatcher as s \<longleftrightarrow> cancelled s \<or> todo s = Wait TcpLoop # as \<and> TcpLoop \<in> live s \<and> Streams \<notin> closed s"

lemma awaits_dispatcher_step: "agent_step s t \<Longrightarrow> awaits_dispatcher as s \<Longrightarrow> awaits_dispatcher as t"
proof (induction rule: agent_step.induct)
  case (Exit g s)
  have "Streams \<notin> closes_on_exit g" by (cases g) auto
  moreover have "cancelled s \<or> g \<noteq> TcpLoop" using Exit by (auto simp: awaits_dispatcher_def)
  ultimately show ?case using Exit by (auto simp: awaits_dispatcher_def)
qed (auto simp: awaits_dispatcher_def)

lemma awaits_dispatcher_steps:
  "(agent_step ^^ n) (running (Wait TcpLoop # as)) s \<Longrightarrow> awaits_dispatcher as s"
proof (induction n arbitrary: s)
  case 0
  then show ?case by (auto simp: awaits_dispatcher_def)
next
  case (Suc n)
  then show ?case by (auto elim!: relpowp_Suc_E intro: awaits_dispatcher_step)
qed

section \<open>Properties\<close>

text \<open>
  C35: Every packet that the decoder forwards is routed. Let the splitter read any packets of the decode workers, in any
  interleaving: it sends each, in order, to exactly one of
  its two channels, the TCP channel gets the TCP packets and only packets with a TCP header, so that the
  reassembler skips none of them, and the UDP channel gets all others.
\<close>

theorem splitter_routes:
  assumes "list_all (\<lambda>p. \<exists>lay input. p \<in> set (decodeWorker decodeLayers lay input)) pkts"
  shows "let (tcp, udp) = packetSplitter pkts
   in tcp = filter (\<lambda>p. dp_TransProto p = 6) pkts \<and> udp = filter (\<lambda>p. dp_TransProto p \<noteq> 6) pkts \<and>
      list_all (\<lambda>p. \<exists>layer. dp_TCP p = Some layer \<and>
        reassembler_step G E cfg (PacketIn p) r = feedPacket G E p layer r) tcp"
proof -
  have wf: "decoded_wf p" if "p \<in> set pkts" for p
    using decodeWorker_wf [of decodeLayers] assms that by (fastforce simp: list_all_iff)
  have "filter (\<lambda>p. dp_TransProto p = 17) pkts = filter (\<lambda>p. dp_TransProto p \<noteq> 6) pkts"
    by (rule filter_cong) (auto dest!: wf simp: decoded_wf_def)
  then show ?thesis
    by (auto simp: packetSplitter_filter Let_def list_all_iff decoded_wf_def dest!: wf)
qed

text \<open>A layer parser that finds TCP in frames starting with 6 and UDP in all others.\<close>

definition example_layers :: Layers where
  "example_layers =
     \<lparr>lay_ip4 = ([10, 0, 0, 1], [10, 0, 0, 2]), lay_ip6 = ([], []),
      lay_tcp = \<lparr>tcp_SrcPort = 40000, tcp_DstPort = 22,
        tcp_Flags = \<lparr>SYN = False, ACK = True, FIN = False, RST = False, PSH = True\<rparr>, tcp_Payload = Some [1]\<rparr>,
      lay_udp = (40000, 53, Some [2]), lay_payload = None\<rparr>"

definition example_decodeLayers :: "Layers \<Rightarrow> bytes \<Rightarrow> Layers \<times> (error + LayerType list)" where
  "example_decodeLayers lay data =
     (lay, Inr [LayerTypeEthernet, LayerTypeIPv4, if data = [6] then LayerTypeTCP else LayerTypeUDP])"

definition example_decoded :: "byte \<Rightarrow> DecodedPacket" where
  "example_decoded b = the (decode_packet example_layers
     [LayerTypeEthernet, LayerTypeIPv4, if b = 6 then LayerTypeTCP else LayerTypeUDP]
     \<lparr>pkt_Data = [b], pkt_Timestamp = 0, pkt_CaptureLen = 1, pkt_OrigLen = 1\<rparr>)"

lemma example_decoded_worker:
  "decodeWorker example_decodeLayers example_layers
     [\<lparr>pkt_Data = [b], pkt_Timestamp = 0, pkt_CaptureLen = 1, pkt_OrigLen = 1\<rparr>] = [example_decoded b]"
  by (simp add: example_decoded_def example_decodeLayers_def decode_packet_def example_layers_def)

theorem splitter_routes_witness:
  "\<forall>G E cfg r. \<exists>layer. packetSplitter [example_decoded 17, example_decoded 6] = ([example_decoded 6], [example_decoded 17]) \<and>
     dp_TCP (example_decoded 6) = Some layer \<and>
     reassembler_step G E cfg (PacketIn (example_decoded 6)) r = feedPacket G E (example_decoded 6) layer r"
proof (intro allI)
  fix G and E :: "'e engine" and cfg r
  have "\<exists>lay input. example_decoded b \<in> set (decodeWorker example_decodeLayers lay input)" for b
    using example_decoded_worker [of b] by (metis list.set_intros(1))
  then have "list_all (\<lambda>p. \<exists>lay input. p \<in> set (decodeWorker example_decodeLayers lay input)) [example_decoded 17, example_decoded 6]"
    by simp
  note routed = splitter_routes [OF this, of G E cfg r]
  have proto: "dp_TransProto (example_decoded 17) = 17" "dp_TransProto (example_decoded 6) = 6"
    by (simp_all add: example_decoded_def decode_packet_def example_layers_def newDecoded_def)
  show "\<exists>layer. packetSplitter [example_decoded 17, example_decoded 6] = ([example_decoded 6], [example_decoded 17]) \<and>
     dp_TCP (example_decoded 6) = Some layer \<and>
     reassembler_step G E cfg (PacketIn (example_decoded 6)) r = feedPacket G E (example_decoded 6) layer r"
    using routed by (simp add: Let_def proto del: reassembler_step.simps)
qed

text \<open>
  C11: Shutting down never completes. When all stages have been started and the main goroutine waits for the signal, to
  stop the stages with \<^verbatim>\<open>Pipeline.Shutdown\<close> and close the capturer, the agent comes to rest after at most 20
  steps, in whatever order its goroutines run, and main never returns: it waits for the splitter's
  loop, which waits for the decoder's output channel to be closed, which the main goroutine would do next.
  All other goroutines have returned by then, and the capture sockets stay open.
\<close>

theorem shutdown_hangs:
  assumes "main M v path K h validPattern Listen = Some (Serving acts)"
    and "(agent_step ^^ n) (running acts) s"
  shows "n \<le> 20 \<and> todo s \<noteq> [] \<and>
    ((\<exists>t. agent_step s t) \<or>
       cancelled s \<and> live s = {SplitLoop} \<and>
       todo s = [Wait SplitLoop, Wait DecodeWorkers, Close Decoded, Wait CaptureLoops, CloseSockets])"
proof -
  obtain cfg where "Load v path = Inr cfg" using assms(1) by (auto simp: main_def split: sum.splits)
  from main_outcome(1) [OF this assms(1)] have "acts = [AwaitSignal] @ shutdown_actions @ capturer_Close" by simp
  with never_returns [of "[AwaitSignal]" n s] assms(2) show ?thesis by simp
qed

text \<open>
  C22: A failed start never returns either. When a stage fails to start, it is the metrics server, which cannot
  listen. \<^verbatim>\<open>Pipeline.Run\<close> rolls the other stages back with the context still alive. As long as no
  signal arrives, the main goroutine waits in the first of them, \<^verbatim>\<open>Dispatcher.Stop\<close>, for the TCP loop, which goes on. After a
  signal it gets as far as the splitter and comes to rest there, in the same state as a shutdown. Either way the error is never reported and the
  process does not exit with status 1.
\<close>

theorem rollback_hangs:
  assumes "Load v path = Inr cfg" "main M v path K h validPattern Listen = Some (RollingBack err acts)"
    and "(agent_step ^^ n) (running acts) s"
  shows "(\<exists>listenErr. Listen (mc_Listen (cfg_Metrics cfg)) = Some listenErr \<and> err = ''start stage metrics-server: '' @ listenErr) \<and>
    n \<le> 19 \<and> todo s \<noteq> [] \<and>
    (\<not> cancelled s \<and> TcpLoop \<in> live s \<and> todo s = acts \<and> hd acts = Wait TcpLoop \<or>
     cancelled s \<and>
       ((\<exists>t. agent_step s t) \<or>
        live s = {SplitLoop} \<and>
        todo s = [Wait SplitLoop, Wait DecodeWorkers, Close Decoded, Wait CaptureLoops, CloseSockets]))"
proof -
  from main_outcome(2) [OF assms(1,2)] have acts: "acts = shutdown_actions @ capturer_Close" by simp
  then have hd: "acts = Wait TcpLoop # tl acts" "hd acts = Wait TcpLoop" by (simp_all add: shutdown_actions_def)
  from assms(3) hd(1) have "(agent_step ^^ n) (running (Wait TcpLoop # tl acts)) s" by simp
  from awaits_dispatcher_steps [OF this] hd(1) [symmetric] hd(2) have "cancelled s \<or> TcpLoop \<in> live s \<and> todo s = acts \<and> hd acts = Wait TcpLoop"
    by (auto simp: awaits_dispatcher_def)
  then show ?thesis
    using main_outcome(2) [OF assms(1,2)] never_returns [of "[]" n s] assms(3) acts by auto
qed

text \<open>
  C36: What a loaded configuration gives, on a platform whose run time can allocate at least the default sizes. Assembling the agent panics
  exactly if the configured channel buffer is negative or larger than the run time can make a channel of
  packets, streams or events, or the number of Kafka workers is larger than it can make a slice of writers, or the
  metrics server is enabled with a path that is not a pattern of \<^verbatim>\<open>http.ServeMux\<close>; validation lets all of these
  through. Otherwise every stage gets usable settings: the
  configured interface, snap length and number of decode workers, channels of the configured size, at least one queue and one Kafka
  worker, a writer per worker with the configured brokers and topic, and a metrics server for the configured address and path if it is enabled.
\<close>

theorem assemble_correct:
  assumes "Load v path = Inr cfg" "limits_ok M"
  shows "case assemble M validPattern cfg of
      None \<Rightarrow> dc_ChannelBuffer (cfg_Decode cfg) < 0 \<or> lim_DecodedPacket M < dc_ChannelBuffer (cfg_Decode cfg) \<or>
        lim_StreamData M < dc_ChannelBuffer (cfg_Decode cfg) \<or> lim_Event M < dc_ChannelBuffer (cfg_Decode cfg) \<or>
        lim_Writer M < ks_NumWorkers (cfg_Kafka cfg) \<or>
        mc_Enabled (cfg_Metrics cfg) \<and> \<not> validPattern (mc_Path (cfg_Metrics cfg))
    | Some a \<Rightarrow> 0 \<le> dc_ChannelBuffer (cfg_Decode cfg) \<and> dc_ChannelBuffer (cfg_Decode cfg) \<le> lim_DecodedPacket M \<and>
        dc_ChannelBuffer (cfg_Decode cfg) \<le> lim_StreamData M \<and> dc_ChannelBuffer (cfg_Decode cfg) \<le> lim_Event M \<and>
        ks_NumWorkers (cfg_Kafka cfg) \<le> lim_Writer M \<and>
        int (as_tcpCh a) = dc_ChannelBuffer (cfg_Decode cfg) \<and> as_udpCh a = as_tcpCh a \<and>
        p_inputSize (as_kafka a) = as_tcpCh a \<and> 0 < as_decodedCh a \<and> 0 < as_streamCh a \<and>
        afp_Interface (as_capture a) = cap_Interface (cfg_Capture cfg) \<and> afp_Interface (as_capture a) \<noteq> [] \<and>
        afp_SnapLength (as_capture a) = cap_SnapLength (cfg_Capture cfg) \<and> 0 < afp_NumQueues (as_capture a) \<and>
        dec_Workers (as_decoder a) = dc_Workers (cfg_Decode cfg) \<and> 0 < dec_ChannelBuffer (as_decoder a) \<and>
        p_writers (as_kafka a) \<noteq> [] \<and> int (length (p_writers (as_kafka a))) = kc_NumWorkers (p_cfg (as_kafka a)) \<and>
        list_all (\<lambda>w. w_Addr w = ks_Brokers (cfg_Kafka cfg) \<and> w_Addr w \<noteq> [] \<and> w_Topic w = ks_Topic (cfg_Kafka cfg))
          (p_writers (as_kafka a)) \<and>
        as_metrics a =
          (if mc_Enabled (cfg_Metrics cfg)
           then Some \<lparr>srv_Addr = mc_Listen (cfg_Metrics cfg), srv_Pattern = mc_Path (cfg_Metrics cfg),
                      srv_ReadHeaderTimeout = 10 * 10 ^ 9\<rparr>
           else None) \<and>
        (\<not> mc_Enabled (cfg_Metrics cfg) \<or> validPattern (mc_Path (cfg_Metrics cfg)))"
proof -
  have valid: "valid_config cfg" using assms(1) by (auto simp: Load_Inr_iff)
  have k: "kc_Brokers (producer_defaults c) = kc_Brokers c" "kc_Topic (producer_defaults c) = kc_Topic c"
    "kc_NumWorkers (producer_defaults c) = (if kc_NumWorkers c \<le> 0 then 1 else kc_NumWorkers c)" for c
    by (simp_all add: producer_defaults_def Let_def)
  have f: "afp_Interface (afp_defaults c) = afp_Interface c"
    "0 < afp_SnapLength c \<Longrightarrow> afp_SnapLength (afp_defaults c) = afp_SnapLength c" for c
    by (simp_all add: afp_defaults_def Let_def)
  show ?thesis
    using valid assms(2) afp_defaults_positive(1) [of "captureConfig cfg"]
    by (auto simp: assemble_def NewServer_def go_make_def NewProducer_def Let_def f k valid_config_def requirements_def limits_ok_def
        captureConfig_def kafkaConfig_def reassemblyConfig_def decoder_output_def reassembler_output_def Decoder_New_def
        newWriter_def list_all_iff)
qed

definition example_viper :: "unit viper" where
  "example_viper = \<lparr>ReadInConfig = (\<lambda>path. Inr ()), Unmarshal = (\<lambda>doc cfg. Inr cfg)\<rparr>"

lemma example_viper_loads: "Load example_viper ''netcap.yaml'' = Inr Defaults"
  by (simp add: Load_Inr_iff example_viper_def Defaults_valid)

theorem assemble_correct_witness:
  "case assemble example_limits (\<lambda>path. CHR ''/'' \<in> set path) Defaults of
      None \<Rightarrow> dc_ChannelBuffer (cfg_Decode Defaults) < 0 \<or> lim_DecodedPacket example_limits < dc_ChannelBuffer (cfg_Decode Defaults) \<or>
        lim_StreamData example_limits < dc_ChannelBuffer (cfg_Decode Defaults) \<or> lim_Event example_limits < dc_ChannelBuffer (cfg_Decode Defaults) \<or>
        lim_Writer example_limits < ks_NumWorkers (cfg_Kafka Defaults) \<or>
        mc_Enabled (cfg_Metrics Defaults) \<and> \<not> (\<lambda>path. CHR ''/'' \<in> set path) (mc_Path (cfg_Metrics Defaults))
    | Some a \<Rightarrow> 0 \<le> dc_ChannelBuffer (cfg_Decode Defaults) \<and> dc_ChannelBuffer (cfg_Decode Defaults) \<le> lim_DecodedPacket example_limits \<and>
        dc_ChannelBuffer (cfg_Decode Defaults) \<le> lim_StreamData example_limits \<and> dc_ChannelBuffer (cfg_Decode Defaults) \<le> lim_Event example_limits \<and>
        ks_NumWorkers (cfg_Kafka Defaults) \<le> lim_Writer example_limits \<and>
        int (as_tcpCh a) = dc_ChannelBuffer (cfg_Decode Defaults) \<and> as_udpCh a = as_tcpCh a \<and>
        p_inputSize (as_kafka a) = as_tcpCh a \<and> 0 < as_decodedCh a \<and> 0 < as_streamCh a \<and>
        afp_Interface (as_capture a) = cap_Interface (cfg_Capture Defaults) \<and> afp_Interface (as_capture a) \<noteq> [] \<and>
        afp_SnapLength (as_capture a) = cap_SnapLength (cfg_Capture Defaults) \<and> 0 < afp_NumQueues (as_capture a) \<and>
        dec_Workers (as_decoder a) = dc_Workers (cfg_Decode Defaults) \<and> 0 < dec_ChannelBuffer (as_decoder a) \<and>
        p_writers (as_kafka a) \<noteq> [] \<and> int (length (p_writers (as_kafka a))) = kc_NumWorkers (p_cfg (as_kafka a)) \<and>
        list_all (\<lambda>w. w_Addr w = ks_Brokers (cfg_Kafka Defaults) \<and> w_Addr w \<noteq> [] \<and> w_Topic w = ks_Topic (cfg_Kafka Defaults))
          (p_writers (as_kafka a)) \<and>
        as_metrics a =
          (if mc_Enabled (cfg_Metrics Defaults)
           then Some \<lparr>srv_Addr = mc_Listen (cfg_Metrics Defaults), srv_Pattern = mc_Path (cfg_Metrics Defaults),
                      srv_ReadHeaderTimeout = 10 * 10 ^ 9\<rparr>
           else None) \<and>
        (\<not> mc_Enabled (cfg_Metrics Defaults) \<or> (\<lambda>path. CHR ''/'' \<in> set path) (mc_Path (cfg_Metrics Defaults)))"
  by (rule assemble_correct [OF example_viper_loads]) (simp add: limits_ok_def example_limits_def)

text \<open>A kernel on which everything succeeds: the agent starts with the default configuration.\<close>

definition example_kernel :: "unit kernel" where
  "example_kernel =
     \<lparr>InterfaceByName = (\<lambda>k name. Inr 1), sysSocket = (\<lambda>k. (k, Inr 3)), sysBind = (\<lambda>fd i k. (k, None)),
      sysRcvBuf = (\<lambda>fd n k. (k, None)), sysFanout = (\<lambda>fd n k. (k, None)), sysClose = (\<lambda>fd k. k)\<rparr>"

abbreviation example_host :: "unit host" where
  "example_host \<equiv> \<lparr>kstate = (), openFDs = {}\<rparr>"

lemma example_kernel_queues: "snd (start_queues example_kernel i b f n q (a, h)) = None"
  by (induction n arbitrary: q a h)
    (auto simp: openSocket_def join_fanout_def example_kernel_def Let_def)

lemma example_kernel_interface [simp]: "InterfaceByName example_kernel k name = Inr 1"
  by (simp add: example_kernel_def)

lemma example_kernel_starts:
  "map_option snd (Capturer_Start example_limits example_kernel (Capturer_New (captureConfig Defaults), example_host)) = Some None"
  by (simp add: Capturer_Start_def go_make_def example_limits_def Capturer_New_def captureConfig_def Defaults_def afp_defaults_def parseFanoutType_def
      Let_def example_kernel_queues del: start_queues.simps)

lemma example_main:
  "main example_limits example_viper ''netcap.yaml'' example_kernel example_host (\<lambda>path. CHR ''/'' \<in> set path) Listen =
     main_run Listen (Some \<lparr>srv_Addr = '':9090'', srv_Pattern = ''/metrics'', srv_ReadHeaderTimeout = 10 * 10 ^ 9\<rparr>)"
proof -
  have "\<exists>a. assemble example_limits (\<lambda>path. CHR ''/'' \<in> set path) Defaults = Some a \<and>
      as_metrics a = Some \<lparr>srv_Addr = '':9090'', srv_Pattern = ''/metrics'', srv_ReadHeaderTimeout = 10 * 10 ^ 9\<rparr>"
    by (simp add: assemble_def NewServer_def go_make_def NewProducer_def Let_def Defaults_def decoder_output_def reassembler_output_def
        reassemblyConfig_def kafkaConfig_def producer_defaults_def Decoder_New_def example_limits_def)
  moreover obtain s where "Capturer_Start example_limits example_kernel (Capturer_New (captureConfig Defaults), example_host) = Some (s, None)"
    using example_kernel_starts by (auto simp: map_option_eq_Some)
  ultimately show ?thesis by (auto simp: main_def example_viper_loads)
qed

text \<open>The first steps of the two runs.\<close>

theorem shutdown_hangs_witness:
  "\<exists>acts. main example_limits example_viper ''netcap.yaml'' example_kernel example_host (\<lambda>path. CHR ''/'' \<in> set path) (\<lambda>addr. None) =
       Some (Serving acts) \<and>
     (let s = (running acts)\<lparr>cancelled := True\<rparr>
      in 1 \<le> (20 :: nat) \<and> todo s \<noteq> [] \<and>
         ((\<exists>t. agent_step s t) \<or>
            cancelled s \<and> live s = {SplitLoop} \<and>
            todo s = [Wait SplitLoop, Wait DecodeWorkers, Close Decoded, Wait CaptureLoops, CloseSockets]))"
proof -
  let ?acts = "AwaitSignal # shutdown_actions @ capturer_Close"
  have m: "main example_limits example_viper ''netcap.yaml'' example_kernel example_host (\<lambda>path. CHR ''/'' \<in> set path) (\<lambda>addr. None) =
      Some (Serving ?acts)"
    by (simp add: example_main main_run_eq)
  have "(agent_step ^^ 1) (running ?acts) ((running ?acts)\<lparr>cancelled := True\<rparr>)"
    unfolding relpowp_1 by (rule agent_step.Signal) simp
  from shutdown_hangs [OF m this] m show ?thesis unfolding Let_def by blast
qed

theorem rollback_hangs_witness:
  "\<exists>acts. main example_limits example_viper ''netcap.yaml'' example_kernel example_host (\<lambda>path. CHR ''/'' \<in> set path)
       (\<lambda>addr. Some ''address in use'') = Some (RollingBack ''start stage metrics-server: address in use'' acts) \<and>
     (let s = (running acts)\<lparr>cancelled := True\<rparr>
      in 1 \<le> (19 :: nat) \<and> todo s \<noteq> [] \<and>
         (\<not> cancelled s \<and> TcpLoop \<in> live s \<and> todo s = acts \<and> hd acts = Wait TcpLoop \<or>
          cancelled s \<and>
            ((\<exists>t. agent_step s t) \<or>
             live s = {SplitLoop} \<and>
             todo s = [Wait SplitLoop, Wait DecodeWorkers, Close Decoded, Wait CaptureLoops, CloseSockets])))"
proof -
  let ?acts = "shutdown_actions @ capturer_Close"
  have m: "main example_limits example_viper ''netcap.yaml'' example_kernel example_host (\<lambda>path. CHR ''/'' \<in> set path)
      (\<lambda>addr. Some ''address in use'') = Some (RollingBack ''start stage metrics-server: address in use'' ?acts)"
    by (simp add: example_main main_run_eq)
  have "(agent_step ^^ 1) (running ?acts) ((running ?acts)\<lparr>cancelled := True\<rparr>)"
    unfolding relpowp_1 by (rule agent_step.Signal) simp
  from rollback_hangs [OF example_viper_loads m this] m show ?thesis unfolding Let_def by blast
qed

end
