(* ===== verification/BufferPool.thy ===== *)
theory BufferPool
  imports Prelude
begin

text \<open>
  The shared buffers of \<^verbatim>\<open>internal/util/pool.go\<close>. A buffer is its length and capacity; which
  pooled buffer \<^verbatim>\<open>sync.Pool\<close> hands out, if any, is the argument \<open>pick\<close>. \<^verbatim>\<open>(*buf)[:9000]\<close> panics for
  a buffer of smaller capacity. No stage of the program uses the pool yet.
\<close>

record buffer =
  buf_len :: nat
  buf_cap :: nat

definition defaultBufferSize :: nat where
  "defaultBufferSize = 9000"

definition bufferPool_New :: buffer where
  "bufferPool_New = \<lparr>buf_len = defaultBufferSize, buf_cap = defaultBufferSize\<rparr>"

definition GetBuffer :: "nat option \<Rightarrow> buffer list \<Rightarrow> buffer \<times> buffer list" where
  "GetBuffer pick pool =
     (case pick of
        None \<Rightarrow> (bufferPool_New, pool)
      | Some i \<Rightarrow> if i < length pool then (pool ! i, take i pool @ drop (Suc i) pool) else (bufferPool_New, pool))"

definition PutBuffer :: "buffer option \<Rightarrow> buffer list \<Rightarrow> buffer list go" where
  "PutBuffer buf pool =
     (case buf of
        None \<Rightarrow> Some pool
      | Some b \<Rightarrow> if defaultBufferSize \<le> buf_cap b then Some (pool @ [b\<lparr>buf_len := defaultBufferSize\<rparr>]) else panic)"

definition pool_ok :: "buffer list \<Rightarrow> bool" where
  "pool_ok pool \<longleftrightarrow> (\<forall>b \<in> set pool. buf_len b = defaultBufferSize \<and> defaultBufferSize \<le> buf_cap b)"

text \<open>Every buffer handed out has 9000 bytes, and a buffer that was handed out can be put back.\<close>

lemma GetBuffer_ok:
  assumes "pool_ok pool" "GetBuffer pick pool = (b, pool')"
  shows "buf_len b = defaultBufferSize \<and> pool_ok pool' \<and> (\<exists>pool''. PutBuffer (Some b) pool' = Some pool'' \<and> pool_ok pool'')"
proof -
  have sub: "x \<in> set pool" if "x \<in> set (take i pool) \<or> x \<in> set (drop j pool)" for x i j
    using that by (auto dest: in_set_takeD in_set_dropD)
  have b: "buf_len b = defaultBufferSize \<and> defaultBufferSize \<le> buf_cap b" and p: "pool_ok pool'"
    using assms
    by (auto simp: GetBuffer_def pool_ok_def bufferPool_New_def sub split: option.splits if_splits)
  then show ?thesis by (auto simp: PutBuffer_def pool_ok_def)
qed

lemma PutBuffer_small_panics: "buf_cap b < defaultBufferSize \<Longrightarrow> PutBuffer (Some b) pool = panic"
  by (simp add: PutBuffer_def)

end
