(* ===== verification/Spec2Isabelle.thy ===== *)
theory Spec2Isabelle
  imports Session Wiring BufferPool
begin

text \<open>
  A verification development for netcap, a passive network monitor written in Go: it captures packets
  from AF_PACKET sockets, decodes them, reassembles TCP streams, recognises and parses fifteen
  application protocols and publishes one event per message to Kafka.

  \<^bold>\<open>Parts and theories.\<close> Data flows from the top of this list to the bottom. Names of definitions are those
  of the source where HOL allows it, with the package as a prefix where several packages use one name.

  \<^item> \<open>Prelude\<close>, \<open>GoStrings\<close>, \<open>NetIP\<close>, \<open>Md5\<close>: what the program uses of Go and its standard library:
    bounds-checked indexing and slicing with panics as \<^const>\<open>None\<close>, \<^verbatim>\<open>make\<close> with its limits, \<^verbatim>\<open>encoding/binary\<close>, 64-bit
    wrap-around, \<^verbatim>\<open>strings\<close>, \<^verbatim>\<open>bytes\<close>, \<^verbatim>\<open>strconv\<close>, \<^verbatim>\<open>net.IP\<close>, \<^verbatim>\<open>crypto/md5\<close>.
    The collections \<open>wp\<close> and \<open>wlp\<close> turn "does not panic" into arithmetic.
  \<^item> \<open>Config\<close> (\<^verbatim>\<open>internal/config\<close>): the configuration, its defaults, validation and loading.
  \<^item> \<open>Afpacket\<close> (\<^verbatim>\<open>internal/capture\<close>): sockets, capture loops, statistics.
  \<^item> \<open>Decode\<close> (\<^verbatim>\<open>internal/decode\<close>): the decode workers.
  \<^item> \<open>Reassembly\<close> (\<^verbatim>\<open>internal/reassembly\<close>): the stream callbacks and the stage around the engine.
  \<^item> \<open>Event\<close> (\<^verbatim>\<open>proto/event.go\<close>), \<open>Protocol\<close> and \<open>Registry\<close> (\<^verbatim>\<open>internal/protocol\<close>): the event
    envelope, the parser interface as the record \<open>Parser\<close> with its contract as the locales
    \<open>parser_contract\<close> and \<open>safe_parser\<close>, the shared message loop \<open>frame_loop\<close> with the locales
    \<open>framing\<close> and \<open>safe_framing\<close>, and the registry with its abstract specification \<open>resolve_spec\<close>.
  \<^item> \<open>Mysql\<close>, \<open>Postgres\<close>, \<open>Mongodb\<close>, \<open>Mqtt\<close>, \<open>Redis\<close>, \<open>TextProtocols\<close> (FTP, SMTP, IMAP, POP3), \<open>Ssh\<close>,
    \<open>Websocket\<close>, \<open>Dns\<close>, \<open>Tls\<close>, \<open>Http\<close>, \<open>Unknown\<close>: one group of definitions per parser package, each
    interpreting one of the two contracts.
  \<^item> \<open>Dispatch\<close> (\<^verbatim>\<open>internal/dispatch\<close>): the handlers of both loops; runs are arbitrary interleavings.
    The locale \<open>parser_registry\<close> is what it relies on.
  \<^item> \<open>Netcap\<close> (\<^verbatim>\<open>buildRegistry\<close> of \<^verbatim>\<open>cmd/netcap/main.go\<close>): the program's registry, interpreting
    \<open>parser_registry\<close>, and the dispatcher's properties for it.
  \<^item> \<open>Json\<close>, \<open>Serializer\<close> (\<^verbatim>\<open>internal/output/serializer.go\<close> and the JSON tags of \<^verbatim>\<open>proto/event.go\<close>): what
    \<^verbatim>\<open>encoding/json\<close> writes for an event, and a reference decoder for the consumer's side.
  \<^item> \<open>Typing\<close>: the events of all parsers fit their Go types; the locale \<open>typed_parser\<close> is interpreted for each.
  \<^item> \<open>Session\<close>: one connection from its segments through the reassembler and the dispatcher to its events. The locale
    \<open>port_session\<close> is interpreted for the ports of MySQL, PostgreSQL, Redis and SSH.
  \<^item> \<open>Kafka\<close> (\<^verbatim>\<open>internal/output/kafka.go\<close>): the producer, the partition key, and the workers as a step relation in which
    receiving and writing an event are two steps.
  \<^item> \<open>Pipeline\<close> (\<^verbatim>\<open>internal/pipeline\<close>): start, rollback and shutdown of stages.
  \<^item> \<open>Metrics\<close> (\<^verbatim>\<open>internal/metrics\<close>): the server and the declared collectors.
  \<^item> \<open>Wiring\<close> (\<^verbatim>\<open>main\<close>): the packet splitter, the settings of the stages, the main function with its early
    exits, and the life cycle of all goroutines as a step relation.
  \<^item> \<open>BufferPool\<close> (\<^verbatim>\<open>internal/util\<close>).

  \<^bold>\<open>What is shown.\<close> For every parser: whether it can panic, and that its events are tagged with its name
  and the connection. Eleven never panic; WebSocket and HTTP do not under the documented behaviour of
  the libraries they call; DNS, TLS and Redis can, and the exact or sufficient conditions are proved.
  Round trips show that encoded messages are decoded to their content for Redis, MySQL, PostgreSQL, DNS,
  TLS, SMTP, SSH and the MQTT length; MongoDB and the other framed protocols decode incrementally. HTTP
  identifiers pair requests with responses over any run. The reassembler passes on every byte once and in order, except in
  messages that a full channel rejects, and keeps its buffers bounded. The registry resolves as documented, with the exact
  exceptions of its fallback. Capture, decoder, splitter, producer and pipeline account for every item
  they handle. Serialization loses nothing but bytes that are not UTF-8. Across components: below the flush threshold the segmentation of a
  connection does not matter, and MySQL and PostgreSQL sessions become one event per statement of the client; above it a message can be lost; the dispatcher survives every
  message outside the three parsers, its events are well typed, all events of a connection share a Kafka key, and
  what the workers write for the dispatcher's events decodes to those events with invalid UTF-8 replaced, per worker in the order they were taken;
  between workers the order of a flow can be lost. The life cycle model shows that neither shutdown nor the
  rollback of a failed start can complete. The events that round trips and sessions promise are specifications of their own, written in the theory of the parser.

  \<^bold>\<open>Parameters.\<close> Code outside the repository is an argument of the definitions that use it: gopacket's layer
  parser (\<open>decodeLayers\<close>) and reassembly engine (\<open>engine\<close>, \<open>gopacket\<close>), the message readers of
  \<^verbatim>\<open>net/http\<close> (\<open>net_http\<close>), the Unicode case tables (\<open>unicode\<close>), viper (\<open>viper\<close>), the kernel (\<open>kernel\<close>),
  the patterns of \<^verbatim>\<open>http.ServeMux\<close> (\<open>validPattern\<close>), \<^verbatim>\<open>net.Listen\<close> (\<open>Listen\<close>) and the Prometheus registry. So are the largest
  sizes for which the run time can make a channel or slice (\<open>make_limits\<close>), which depend on the platform. Four
  properties of them are assumed where a theorem says so: a successful read
  of an HTTP message consumes input (\<open>net_http_progress\<close>), its header names are ASCII and its content length has 64 bits
  (\<open>net_http_typed\<close>), lower-casing a text does not make an ASCII
  prefix longer than the text (\<open>unicode_lower_ok\<close>), and the run time can make channels and slices of the default sizes (\<open>limits_ok\<close>).

  \<^bold>\<open>Bounds.\<close> No definition that models code uses fuel: every loop has a termination proof by a measure on the data that
  remains. The reference decoder of JSON has the length of the text as fuel, which \<open>json_parse_print\<close> shows to be enough. Counters and identifiers are machine words; \<^verbatim>\<open>int\<close> is unbounded except where an overflow is
  possible (the Redis length), where the wrap-around is written out; \<open>emitted_events_typed\<close> shows that the integers of
  events are in range. The limit of HTTP bodies is taken to be below the largest integer. The sizes of the channels and slices made at
  start-up are checked; the buffers that loops and parsers allocate as they run are taken to be available.

  \<^bold>\<open>Not modelled.\<close> Logging; the HTTP endpoint behind the metrics server; the text of capture errors; the parsing of
  command line flags; data races
  below the granularity of a handler call. Start and stop of the stages are modelled for the life cycle
  only, and time only where the program compares it. The source lines that no definition stands for are
  imports, comments, interface and type declarations, the Name methods, the set-up of the logger, and
  the copies of the same small helper that several parser packages carry, which one definition models.
\<close>

section \<open>From a TCP connection to its Kafka partition\<close>

lemma well_formed_same_meta:
  assumes "well_formed_message G sd1" "well_formed_message G sd2"
    and "sd_Net sd1 = sd_Net sd2" "sd_Transport sd1 = sd_Transport sd2"
  shows "sd_ConnMeta sd1 = sd_ConnMeta sd2"
  using assms by (auto simp: well_formed_message_def)

lemma tagged_flowKey:
  assumes "tagged n1 meta e1" "tagged n2 meta e2"
  shows "flowKey e1 = flowKey e2"
  using assms by (simp add: flowKey_def tagged_def)

lemma stage_messages:
  assumes "reassembler_run G E rcfg evs (Reassembler_New rcfg newAssembler) = Some r" "(sd, ok) \<in> set (attempts (out r))"
  shows "well_formed_message G sd"
  using reassembler_messages_well_formed [of G E rcfg evs newAssembler] assms by (force simp: list_all_iff)

text \<open>
  C5: All events of a TCP connection, of both directions and whichever parsers they come from, get the same
  Kafka key, so they go to the same partition. The messages are any that the reassembly stage has produced
  for one pair of flows, with any behaviour of the reassembly engine, handled by the dispatcher in any order.
\<close>

theorem connection_shares_partition:
  assumes "reassembler_run G E rcfg evs (Reassembler_New rcfg newAssembler) = Some r"
    and "\<forall>j \<in> set js. \<exists>sd ok. snd (snd j) = TCPJob sd \<and> (sd, ok) \<in> set (attempts (out r)) \<and>
           sd_Net sd = netFlow \<and> sd_Transport sd = tcpFlow"
    and "dispatch_run (buildRegistry L U cfg) js \<lparr>parserState = st, emitted = []\<rparr> = Some d"
  shows "\<exists>key. length key = 8 \<and> (\<forall>ev \<in> set (emitted d). flowKey ev = key)"
proof (cases "emitted d")
  case Nil
  then show ?thesis by (intro exI [of _ "replicate 8 0"]) simp
next
  case (Cons e0 es)
  have meta: "\<exists>sd ok n. (sd, ok) \<in> set (attempts (out r)) \<and> sd_Net sd = netFlow \<and> sd_Transport sd = tcpFlow \<and>
      tagged n (tcpMeta sd) e" if e: "e \<in> set (emitted d)" for e
  proof -
    obtain j and p :: "http_state Parser" where "j \<in> set js" "tagged (Name p) (job_meta (snd (snd j))) e"
      using netcap.run_tagged [OF assms(3)] e by auto
    with assms(2) show ?thesis by fastforce
  qed
  obtain sd0 n0 ok0 where sd0: "(sd0, ok0) \<in> set (attempts (out r))" "sd_Net sd0 = netFlow"
    "sd_Transport sd0 = tcpFlow" "tagged n0 (tcpMeta sd0) e0"
    using meta [of e0] Cons by auto
  have "flowKey e = flowKey e0" if mem: "e \<in> set (emitted d)" for e
  proof -
    obtain sd n ok where sd: "(sd, ok) \<in> set (attempts (out r))" "sd_Net sd = netFlow"
      "sd_Transport sd = tcpFlow" "tagged n (tcpMeta sd) e"
      using meta [OF mem] by auto
    have "sd_ConnMeta sd = sd_ConnMeta sd0"
      by (rule well_formed_same_meta [OF stage_messages [OF assms(1) sd(1)] stage_messages [OF assms(1) sd0(1)]])
        (simp_all add: sd sd0)
    then have "tcpMeta sd = tcpMeta sd0" by (simp add: tcpMeta_def)
    with sd(4) sd0(4) show ?thesis using tagged_flowKey [of n "tcpMeta sd0" e n0 e0] by simp
  qed
  then show ?thesis by (intro exI [of _ "flowKey e0"]) (simp add: length_flowKey)
qed

text \<open>A stage whose engine delivers one SSH greeting and ends the connection, for a concrete instance.\<close>

definition example_gopacket :: gopacket where
  "example_gopacket = \<lparr>endpointString = (\<lambda>b. if b = [10, 0, 0, 1] then ''10.0.0.1'' else ''10.0.0.2''), FastHash = (\<lambda>f. 9)\<rparr>"

definition example_callbacks :: "callback list" where
  "example_callbacks =
     [NewStream \<lparr>flow_Src = [10, 0, 0, 1], flow_Dst = [10, 0, 0, 2]\<rparr> \<lparr>flow_Src = [156, 64], flow_Dst = [0, 22]\<rparr>,
      SG 0 (bytes_of ''SSH-2.0-x'') True None, Complete 0 None]"

definition example_engine :: "unit engine" where
  "example_engine =
     \<lparr>AssembleWithContext = (\<lambda>e f tcp ts. (e, [])), FlushCloseOlderThan = (\<lambda>e t. (e, [])),
      FlushAll = (\<lambda>e. (e, example_callbacks))\<rparr>"

definition example_stage :: "unit Reassembler" where
  "example_stage = the (reassembler_run example_gopacket example_engine (reassemblyConfig Defaults) [StopFlush]
     (Reassembler_New (reassemblyConfig Defaults) (\<lambda>total perConn. ())))"

definition example_sd :: StreamData where
  "example_sd = fst (hd (attempts (out example_stage)))"

lemma example_stage_run:
  "reassembler_run example_gopacket example_engine (reassemblyConfig Defaults) [StopFlush]
     (Reassembler_New (reassemblyConfig Defaults) (\<lambda>total perConn. ())) = Some example_stage"
  using reassembler_messages_well_formed [of example_gopacket example_engine "reassemblyConfig Defaults" "[StopFlush]"
    "\<lambda>total perConn. ()"]
  by (auto simp: example_stage_def)

lemma example_sd_attempted:
  "(example_sd, True) \<in> set (attempts (out example_stage)) \<and>
   example_sd = (example_message False)\<lparr>sd_Timestamp := 0, sd_ConnMeta := (sd_ConnMeta (example_message False))\<lparr>sm_ConnID := 0\<rparr>\<rparr>"
  by (simp add: example_sd_def example_stage_def example_engine_def example_callbacks_def engine_call_def
      Reassembler_New_def reassemblyConfig_def Defaults_def example_gopacket_def stream_New_def on_stream_def
      ReassembledSG_def Let_def set_buf_def direction_buf_def maxBufferSize_def ReassemblyComplete_def
      flushDirectionLocked_def extractPorts_def raw_port_def be16_def go_index_def try_send_def emitCloseLocked_def
      streamMeta_def bytes_of_def example_message_def)

definition example_jobs :: "(int \<times> (nat \<Rightarrow> bool) \<times> job) list" where
  "example_jobs = [(3, \<lambda>i. True, TCPJob example_sd)]"

definition example_run :: "http_state Dispatcher" where
  "example_run = the (dispatch_run (buildRegistry byte_http example_unicode Defaults) example_jobs
     \<lparr>parserState = Map.empty, emitted = []\<rparr>)"

lemma example_sd_resolves: "job_resolve (buildRegistry L U cfg) (TCPJob example_sd) = Some (Some ssh_parser)"
  using example_message_ssh [of L U cfg]
  by (simp add: conjunct2 [OF example_sd_attempted], simp add: example_message_def)

lemma example_run:
  "dispatch_run (buildRegistry byte_http example_unicode Defaults) example_jobs
     \<lparr>parserState = Map.empty, emitted = []\<rparr> = Some example_run"
proof -
  have "safe_parser p"
    if "j \<in> set example_jobs"
      "job_resolve (buildRegistry byte_http example_unicode Defaults) (snd (snd j)) = Some (Some p)"
      "p \<in> set (all (buildRegistry byte_http example_unicode Defaults))" for j p
    using that example_sd_resolves [of byte_http example_unicode Defaults] ssh_iface.safe_parser_axioms
    by (simp add: example_jobs_def del: job_resolve.simps)
  then have "\<exists>d. dispatch_run (buildRegistry byte_http example_unicode Defaults) example_jobs
      \<lparr>parserState = Map.empty, emitted = []\<rparr> = Some d"
    by (rule netcap.run_returns)
  then show ?thesis by (auto simp: example_run_def)
qed

theorem connection_shares_partition_witness:
  "\<exists>key. length key = 8 \<and> (\<forall>ev \<in> set (emitted example_run). flowKey ev = key)"
proof (rule connection_shares_partition [OF example_stage_run _ example_run])
  show "\<forall>j \<in> set example_jobs. \<exists>sd ok. snd (snd j) = TCPJob sd \<and> (sd, ok) \<in> set (attempts (out example_stage)) \<and>
      sd_Net sd = sd_Net example_sd \<and> sd_Transport sd = sd_Transport example_sd"
    using example_sd_attempted by (auto simp: example_jobs_def)
qed

section \<open>From a message to its consumer\<close>

lemma written_decodable:
  assumes "list_all maps_ok evs"
  shows "map (\<lambda>m. (m_Key m, json_Unmarshal (m_Value m))) (List.map_filter (worker_message Marshal) evs) =
    map (\<lambda>ev. (flowKey ev, Some (clean_event ev))) evs"
  using assms
proof (induction evs)
  case (Cons ev evs)
  then obtain data where "Marshal ev = Inr data" "json_Unmarshal data = Some (clean_event ev)"
    using Unmarshal_Marshal [of ev] by auto
  with Cons show ?case by (simp add: map_filter_def worker_message_def)
qed (simp add: map_filter_def)

text \<open>
  C3: From the dispatcher to the consumer. Let the dispatcher handle any messages with the program's parsers, and
  let the producer, with the JSON serializer, accept events that the dispatcher emitted, in any interleaving of its workers and at
  any point of its life. Then each worker has written one message for every event it has finished, in the order in which it took
  them: no event is lost to serialization. The message has the flow key of the event, and a consumer that decodes
  its value reads the event, with invalid bytes of texts replaced.
\<close>

theorem consumer_reads_events:
  assumes "net_http_typed L" "list_all (\<lambda>j. int64_ok (fst j)) js"
    and "dispatch_run (buildRegistry L U cfg) js \<lparr>parserState = st, emitted = []\<rparr> = Some d"
    and "NewProducer M kcfg inputSize = Some p" "rtranclp (producer_step Marshal) (Producer_Start p) q"
    and "set (p_accepted q) \<subseteq> set (emitted d)"
  shows "\<forall>i. \<exists>finished. taken_by q i = finished @ held_by q i \<and>
    map (\<lambda>m. (m_Key m, json_Unmarshal (m_Value m))) (written_by q i) =
      map (\<lambda>ev. (flowKey ev, Some (clean_event ev))) finished"
proof
  fix i
  have inv: "producer_inv Marshal q" by (rule producer_inv_reachable [OF assms(5,4)])
  obtain finished where f: "taken_by q i = finished @ held_by q i"
    "written_by q i = List.map_filter (worker_message Marshal) finished"
    by (rule producer_inv_worker [OF inv])
  have "set finished \<subseteq> set (taken_by q i)" using f(1) by simp
  also have "\<dots> \<subseteq> set (p_accepted q)" using inv by (auto simp: producer_inv_def taken_by_def)
  finally have "set finished \<subseteq> set (emitted d)" using assms(6) by simp
  moreover have "list_all event_typed (emitted d)" using netcap_emits_typed [OF assms(1-3)] by simp
  ultimately have "list_all maps_ok finished" by (auto simp: list_all_iff event_typed_maps)
  from written_decodable [OF this] f show "\<exists>finished. taken_by q i = finished @ held_by q i \<and>
    map (\<lambda>m. (m_Key m, json_Unmarshal (m_Value m))) (written_by q i) =
      map (\<lambda>ev. (flowKey ev, Some (clean_event ev))) finished"
    by auto
qed

text \<open>The SSH greeting of the example stage becomes one event, which the producer of one worker writes.\<close>

lemma ssh_Parse_one: "4 \<le> len data \<Longrightarrow> \<exists>ev. ssh_Parse now data meta c = Some (Inr [ev])"
proof -
  assume "4 \<le> len data"
  then have "returns (ssh_Parse now data meta c) (\<lambda>r. \<exists>ev. r = Inr [ev])"
    by (auto simp: ssh_Parse_def wp intro!: returns_mono [OF ssh_version_line_ok])
  then show ?thesis by (auto simp: returns_def split: option.splits)
qed

lemma example_run_event: "\<exists>ev. emitted example_run = [ev]"
proof -
  have data: "sd_Data example_sd = bytes_of ''SSH-2.0-x''"
    by (simp add: conjunct2 [OF example_sd_attempted]) (simp add: example_message_def)
  obtain ev where "ssh_Parse 3 (sd_Data example_sd) (tcpMeta example_sd) (sd_IsClient example_sd) = Some (Inr [ev])"
    using ssh_Parse_one [of "sd_Data example_sd" 3] by (auto simp: data)
  moreover have "\<not> sd_Closed example_sd" "len (sd_Data example_sd) \<noteq> 0"
    by (simp add: conjunct2 [OF example_sd_attempted], simp add: example_message_def, simp add: data)
  ultimately have "run_job (buildRegistry byte_http example_unicode Defaults) (3, \<lambda>i. True, TCPJob example_sd)
      \<lparr>parserState = Map.empty, emitted = []\<rparr> = Some \<lparr>parserState = Map.empty, emitted = [ev]\<rparr>"
    using example_sd_resolves [of byte_http example_unicode Defaults]
    by (simp add: handleTCP_def parse_and_emit_def ssh_parser_def stateless_def)
  with example_run have "example_run = \<lparr>parserState = Map.empty, emitted = [ev]\<rparr>" by (simp add: example_jobs_def)
  then have "emitted example_run = emitted \<lparr>parserState = Map.empty :: http_state, emitted = [ev]\<rparr>" by (rule arg_cong)
  then show ?thesis by simp
qed

theorem consumer_reads_events_witness:
  "\<exists>q ev. p_accepted q = [ev] \<and> emitted example_run = [ev] \<and>
     map (\<lambda>m. (m_Key m, json_Unmarshal (m_Value m))) (written_by q 0) = [(flowKey ev, Some (clean_event ev))]"
proof -
  obtain ev where ev: "emitted example_run = [ev]" using example_run_event ..
  let ?p = "Producer_Start example_producer"
  define p1 where "p1 = worker_take 0 (?p\<lparr>p_input := [ev], p_accepted := p_accepted ?p @ [ev]\<rparr>)"
  define q where "q = worker_write Marshal 0 ev p1"
  have start: "p_input ?p = []" "\<not> p_closed ?p" "p_accepted ?p = []" "p_holding ?p = Map.empty" "0 \<in> p_active ?p"
    "p_taken ?p = []"
    by (simp_all add: example_producer_def NewProducer_def go_make_def example_limits_def Let_def Producer_Start_def example_kafka_def
        producer_defaults_def)
  have "producer_step Marshal ?p p1"
    unfolding p1_def using start by (intro producer_step.Handoff) (simp_all add: idle_def)
  moreover have "producer_step Marshal p1 q"
    unfolding q_def using start by (intro producer_step.Write) (simp add: p1_def worker_take_def)
  ultimately have "rtranclp (producer_step Marshal) ?p q" by simp
  note all = consumer_reads_events [OF byte_http_typed _ example_run example_producer this, THEN spec, of 0]
  have acc: "p_accepted q = [ev]" by (simp add: q_def p1_def start)
  have "taken_by q 0 = [ev]" "held_by q 0 = []"
    using start by (simp_all add: taken_by_def held_by_def q_def worker_write_def p1_def worker_take_def)
  with all acc ev have "map (\<lambda>m. (m_Key m, json_Unmarshal (m_Value m))) (written_by q 0) = [(flowKey ev, Some (clean_event ev))]"
    by (auto simp: example_jobs_def int64_ok_def)
  with acc ev show ?thesis by (intro exI [of _ q] exI [of _ ev]) simp
qed

end
